(* ===== verification/Prelude.thy ===== *)
theory Prelude
  imports Main "HOL-Library.Word" "HOL-Library.Signed_Division" "HOL-Library.Multiset"
begin

text \<open>
  Shared material of the development: the byte and buffer vocabulary of the C++ code
  (characters are bytes, a buffer is a list of characters of fixed length), decimal output,
  little-endian integers, the contract every \<^verbatim>\<open>Serializable\<close> class keeps (locale
  \<open>serializable\<close>), the contract of the FIFO queues (locale \<open>fifo\<close>) and the generic
  reachability argument (locale \<open>machine\<close>).
\<close>

named_theorems wire "facts about buffers, fields and little-endian integers"

type_synonym u8 = "8 word"
type_synonym u32 = "32 word"
type_synonym u64 = "64 word"

abbreviation NUL :: char where "NUL \<equiv> CHR 0x00"

section \<open>C strings and fixed buffers\<close>

text \<open>The C string that starts at a buffer: the bytes before the first NUL.\<close>

definition cstr :: "string \<Rightarrow> string" where
  "cstr b = takeWhile (\<lambda>c. c \<noteq> NUL) b"

text \<open>The \<open>n\<close> bytes \<^verbatim>\<open>strncpy(dst, s, n)\<close> writes: the string, cut at \<open>n\<close>, padded with NUL.\<close>

definition strncpy :: "nat \<Rightarrow> string \<Rightarrow> string" where
  "strncpy n s = (let t = take n (cstr s) in t @ replicate (n - length t) NUL)"

text \<open>Write \<open>bs\<close> at offset \<open>n\<close> of a buffer; read \<open>k\<close> bytes at offset \<open>n\<close>.\<close>

definition poke :: "nat \<Rightarrow> 'b list \<Rightarrow> 'b list \<Rightarrow> 'b list" where
  "poke n bs buf = take n buf @ bs @ drop (n + length bs) buf"

definition peek :: "nat \<Rightarrow> nat \<Rightarrow> 'b list \<Rightarrow> 'b list" where
  "peek n k buf = take k (drop n buf)"

text \<open>A canonical field of an object: a C string shorter than the array, then NULs only.\<close>

definition cfield :: "nat \<Rightarrow> string \<Rightarrow> bool" where
  "cfield n f \<longleftrightarrow> (let t = cstr f in length t < n \<and> f = t @ replicate (n - length t) NUL)"

lemma length_cstr: "length (cstr s) \<le> length s"
  by (simp add: cstr_def length_takeWhile_le)

lemma NUL_notin_cstr [simp]: "NUL \<notin> set (cstr s)"
  by (auto simp: cstr_def dest: set_takeWhileD)

lemma cstr_id: "NUL \<notin> set s \<Longrightarrow> cstr s = s"
  by (auto simp: cstr_def takeWhile_eq_all_conv)

lemma cstr_cstr [simp]: "cstr (cstr s) = cstr s"
  by (simp add: cstr_id)

lemma cstr_append: "NUL \<notin> set s \<Longrightarrow> cstr (s @ t) = s @ cstr t"
  by (auto simp: cstr_def takeWhile_append)

lemma cstr_NULs [simp]: "cstr (replicate n NUL) = []" "cstr (NUL # t) = []" "cstr [] = []"
  by (cases n) (simp_all add: cstr_def)

lemma length_strncpy [simp, wire]: "length (strncpy n s) = n"
  by (simp add: strncpy_def Let_def)

lemma cstr_strncpy [simp]: "cstr (strncpy n s) = take n (cstr s)"
proof -
  have "NUL \<notin> set (take n (cstr s))" using NUL_notin_cstr by (metis in_set_takeD)
  then show ?thesis by (simp add: strncpy_def Let_def cstr_append)
qed

lemma strncpy_take: "m \<le> n \<Longrightarrow> strncpy m (take n s) = strncpy m s"
proof -
  assume "m \<le> n"
  moreover have "take m (cstr (take n s)) = take m (cstr s)" if "m \<le> n"
    using that unfolding cstr_def
  proof (induction s arbitrary: m n)
    case (Cons a s)
    then show ?case by (cases n; cases m) auto
  qed simp
  ultimately show ?thesis by (simp add: strncpy_def)
qed

lemma cfield_length: "cfield n f \<Longrightarrow> length f = n"
  by (metis append_take_drop_id cfield_def le_add_diff_inverse length_append length_replicate
      less_imp_le)

lemma cfield_strncpy: "cfield n f \<Longrightarrow> strncpy n f = f"
  by (auto simp: cfield_def strncpy_def Let_def)

lemma cfield_strncpy_pred: "cfield n f \<Longrightarrow> strncpy (n - 1) f @ [NUL] = f"
proof -
  assume f: "cfield n f"
  let ?t = "cstr f"
  have l: "length ?t < n" and e: "f = ?t @ replicate (n - length ?t) NUL"
    using f by (auto simp: cfield_def Let_def)
  have "n - length ?t = Suc (n - 1 - length ?t)" using l by simp
  then have "f = ?t @ replicate (n - 1 - length ?t) NUL @ [NUL]"
    using e by (metis replicate_Suc replicate_append_same)
  with l show ?thesis by (simp add: strncpy_def Let_def)
qed

lemma cfield_set: "0 < n \<Longrightarrow> cfield n (strncpy (n - 1) s @ [NUL])"
proof -
  assume n: "0 < n"
  let ?t = "take (n - 1) (cstr s)"
  have t: "NUL \<notin> set ?t" using NUL_notin_cstr by (metis in_set_takeD)
  have "cstr (strncpy (n - 1) s @ [NUL]) = ?t"
    using t by (simp add: strncpy_def Let_def cstr_append replicate_append_same del: replicate_Suc)
  with n show ?thesis
    by (auto simp: cfield_def Let_def strncpy_def replicate_append_same Suc_diff_le min_def
        simp flip: replicate_Suc)
qed

lemma length_poke [simp, wire]: "n + length bs \<le> length buf \<Longrightarrow> length (poke n bs buf) = length buf"
  by (simp add: poke_def)

lemma strncpy_peek: "n \<le> k \<Longrightarrow> strncpy n (drop m b) = strncpy n (peek m k b)"
  by (simp add: peek_def strncpy_take)

lemma peek_take: "m + k \<le> n \<Longrightarrow> peek m k (take n b) = peek m k b"
  by (simp add: peek_def drop_take min_def)

lemma peek_append: "m + k \<le> length a \<Longrightarrow> peek m k (a @ b) = peek m k a"
  by (simp add: peek_def)

lemma peek_append_after: "length a \<le> m \<Longrightarrow> peek m k (a @ b) = peek (m - length a) k b"
  by (simp add: peek_def)

lemma peek_peek: "m + j \<le> k \<Longrightarrow> peek m j (peek n k b) = peek (n + m) j b"
  by (simp add: peek_def drop_take min_def add.commute)

text \<open>The text setters of the fixed arrays: \<^verbatim>\<open>memset(f, 0, N); strncpy(f, s, N - 1)\<close>.\<close>

definition cset :: "nat \<Rightarrow> string \<Rightarrow> string" where
  "cset n s = strncpy (n - 1) s @ [NUL]"

lemma cfield_cset: "0 < n \<Longrightarrow> cfield n (cset n s)"
  using cfield_set by (simp add: cset_def)

lemma cset_cfield: "cfield n f \<Longrightarrow> cset n f = f"
  using cfield_strncpy_pred by (simp add: cset_def)

lemma length_cset [simp, wire]: "0 < n \<Longrightarrow> length (cset n s) = n"
  by (simp add: cset_def)

lemma cset_peek: "0 < k \<Longrightarrow> cset k (drop m b) = cset k (peek m k b)"
  using strncpy_peek [of "k - 1" k m b] by (simp add: cset_def)

lemma cstr_cset: "0 < n \<Longrightarrow> cstr (cset n s) = take (n - 1) (cstr s)"
proof -
  assume n: "0 < n"
  have t: "NUL \<notin> set (take (n - 1) (cstr s))" using NUL_notin_cstr by (metis in_set_takeD)
  then show ?thesis
    by (simp add: cset_def strncpy_def Let_def cstr_append replicate_append_same del: replicate_Suc)
qed

lemma peek_poke_same [wire]: "n \<le> length buf \<Longrightarrow> k = length bs \<Longrightarrow> peek n k (poke n bs buf) = bs"
  by (simp add: peek_def poke_def)

lemma drop_poke [wire]: "n + length bs \<le> m \<Longrightarrow> n + length bs \<le> length buf \<Longrightarrow> drop m (poke n bs buf) = drop m buf"
  by (simp add: poke_def)

lemma take_poke [wire]: "m \<le> n \<Longrightarrow> n \<le> length buf \<Longrightarrow> take m (poke n bs buf) = take m buf"
  by (simp add: poke_def)

lemma peek_poke_after [wire]:
  "n + length bs \<le> m \<Longrightarrow> n + length bs \<le> length buf \<Longrightarrow> peek m k (poke n bs buf) = peek m k buf"
  by (simp add: peek_def drop_poke)

lemma peek_poke_before [wire]:
  "m + k \<le> n \<Longrightarrow> n \<le> length buf \<Longrightarrow> peek m k (poke n bs buf) = peek m k buf"
  by (simp add: peek_def poke_def take_drop)

section \<open>Integers in memory (little endian)\<close>

definition le_bytes :: "nat \<Rightarrow> nat \<Rightarrow> string" where
  "le_bytes k v = map (\<lambda>i. char_of (v div 256 ^ i)) [0..<k]"

fun le_nat :: "string \<Rightarrow> nat" where
  "le_nat [] = 0"
| "le_nat (c # cs) = of_char c + 256 * le_nat cs"

lemma length_le_bytes [simp, wire]: "length (le_bytes k v) = k"
  by (simp add: le_bytes_def)

lemma le_bytes_Suc: "le_bytes (Suc k) v = char_of v # le_bytes k (v div 256)"
  unfolding le_bytes_def
  by (intro nth_equalityI) (auto simp: nth_Cons div_mult2_eq simp del: upt_Suc split: nat.split)

lemma le_nat_le_bytes: "le_nat (le_bytes k v) = v mod 256 ^ k"
proof (induction k arbitrary: v)
  case 0
  then show ?case by (simp add: le_bytes_def)
next
  case (Suc k)
  have "le_nat (le_bytes (Suc k) v) = v mod 256 + 256 * (v div 256 mod 256 ^ k)"
    by (simp add: le_bytes_Suc Suc.IH)
  also have "\<dots> = v mod (256 * 256 ^ k)"
    by (simp add: mod_mult2_eq)
  finally show ?case by simp
qed

definition put32 :: "u32 \<Rightarrow> string" where "put32 w = le_bytes 4 (unat w)"
definition get32 :: "string \<Rightarrow> u32" where "get32 b = word_of_nat (le_nat b)"
definition put64 :: "u64 \<Rightarrow> string" where "put64 w = le_bytes 8 (unat w)"
definition get64 :: "string \<Rightarrow> u64" where "get64 b = word_of_nat (le_nat b)"

lemma length_put [simp, wire]: "length (put32 w) = 4" "length (put64 v) = 8"
  by (simp_all add: put32_def put64_def)

lemma get_put32 [simp, wire]: "get32 (put32 w) = w"
proof -
  have "unat w < 256 ^ 4" using unsigned_less [of w, where ?'a = nat] by simp
  then show ?thesis by (simp add: get32_def put32_def le_nat_le_bytes)
qed

lemma get_put64 [simp, wire]: "get64 (put64 w) = w"
proof -
  have "unat w < 256 ^ 8" using unsigned_less [of w, where ?'a = nat] by simp
  then show ?thesis by (simp add: get64_def put64_def le_nat_le_bytes)
qed

section \<open>Decimal output (\<^verbatim>\<open>valToStr\<close> with \<^verbatim>\<open>std::dec\<close>)\<close>

fun dec_nat :: "nat \<Rightarrow> string" where
  "dec_nat n = (if n < 10 then [char_of (48 + n)] else dec_nat (n div 10) @ [char_of (48 + n mod 10)])"

declare dec_nat.simps [simp del]

definition dec_int :: "int \<Rightarrow> string" where
  "dec_int i = (if i < 0 then CHR ''-'' # dec_nat (nat (- i)) else dec_nat (nat i))"

fun val_digits :: "nat \<Rightarrow> string \<Rightarrow> nat" where
  "val_digits acc [] = acc"
| "val_digits acc (c # cs) = val_digits (10 * acc + (of_char c - 48)) cs"

lemma val_digits_append: "val_digits a (s @ t) = val_digits (val_digits a s) t"
  by (induction a s rule: val_digits.induct) auto

lemma val_dec_nat: "val_digits 0 (dec_nat n) = n"
proof (induction n rule: dec_nat.induct)
  case (1 n)
  have m: "n mod 10 < 10" by simp
  show ?case
  proof (cases "n < 10")
    case True
    then show ?thesis by (simp add: dec_nat.simps [of n])
  next
    case False
    with 1 show ?thesis by (simp add: dec_nat.simps [of n] val_digits_append)
  qed
qed

lemma dec_nat_inj: "dec_nat m = dec_nat n \<longleftrightarrow> m = n"
  by (metis val_dec_nat)

lemma dec_nat_digits: "c \<in> set (dec_nat n) \<Longrightarrow> of_char c \<ge> (48::nat) \<and> of_char c \<le> (57::nat)"
proof (induction n rule: dec_nat.induct)
  case (1 n)
  then show ?case
    by (cases "n < 10") (auto simp: dec_nat.simps [of n])
qed

lemma dec_nat_no_minus: "CHR ''-'' \<notin> set (dec_nat n)"
  using dec_nat_digits [of "CHR ''-''"] by fastforce

lemma dec_nat_nonempty: "dec_nat n \<noteq> []"
  by (simp add: dec_nat.simps [of n])

lemma dec_int_inj: "dec_int i = dec_int j \<longleftrightarrow> i = j"
proof
  assume e: "dec_int i = dec_int j"
  have "hd (dec_nat n) \<noteq> CHR ''-''" for n
    using dec_nat_no_minus dec_nat_nonempty by (metis hd_in_set)
  then show "i = j" using e
    by (auto simp: dec_int_def dec_nat_inj split: if_splits)
      (metis dec_nat_no_minus list.set_intros(1))+
qed simp

lemma dec_int_chars: "c \<in> set (dec_int i) \<Longrightarrow> c = CHR ''-'' \<or> (of_char c \<ge> (48::nat) \<and> of_char c \<le> (57::nat))"
  by (auto simp: dec_int_def dest: dec_nat_digits split: if_splits)

lemma takeWhile_neq: "x \<notin> set xs \<Longrightarrow> takeWhile (\<lambda>y. y \<noteq> x) (xs @ x # ys) = xs"
  by (induction xs) auto

section \<open>Ordered maps\<close>

text \<open>A \<^verbatim>\<open>std::map\<close> is the list of its entries in the order of their keys: \<^verbatim>\<open>insert\<close> keeps an entry
  that is there, \<^verbatim>\<open>m[k] = v\<close> replaces it.\<close>

definition map_insert :: "'k::linorder \<Rightarrow> 'v \<Rightarrow> ('k \<times> 'v) list \<Rightarrow> ('k \<times> 'v) list" where
  "map_insert k v m = (if map_of m k = None then insort_key fst (k, v) m else m)"

definition map_assign :: "'k::linorder \<Rightarrow> 'v \<Rightarrow> ('k \<times> 'v) list \<Rightarrow> ('k \<times> 'v) list" where
  "map_assign k v m = (if map_of m k = None then insort_key fst (k, v) m
     else map (\<lambda>(k', v'). (k', if k' = k then v else v')) m)"

lemma map_of_insort: "k \<notin> fst ` set m \<Longrightarrow> map_of (insort_key fst (k, v) m) = (map_of m)(k \<mapsto> v)"
  by (induction m) auto

lemma map_of_map_insert:
  "map_of (map_insert k v m) = (case map_of m k of None \<Rightarrow> (map_of m)(k \<mapsto> v) | Some _ \<Rightarrow> map_of m)"
proof (cases "map_of m k")
  case None
  then have "k \<notin> fst ` set m" by (simp add: map_of_eq_None_iff)
  with None show ?thesis by (simp only: map_insert_def map_of_insort simp_thms if_True option.case)
qed (simp add: map_insert_def)

lemma map_of_map_value:
  "map_of (map (\<lambda>(k', v'). (k', if k' = k then v else v')) m) k'
     = (if k' = k \<and> map_of m k \<noteq> None then Some v else map_of m k')"
  by (induction m) auto

lemma map_of_map_assign: "map_of (map_assign k v m) = (map_of m)(k \<mapsto> v)"
  by (auto simp: map_assign_def map_of_insort map_of_eq_None_iff map_of_map_value fun_eq_iff)

lemma distinct_map_assign:
  assumes "distinct (map fst m)"
  shows "distinct (map fst (map_assign k v m))"
proof (cases "map_of m k")
  case None
  have "distinct (map fst (insort_key fst (k, v) m)) \<longleftrightarrow> distinct (k # map fst m)"
    by (induction m) (auto simp: set_insort_key)
  then show ?thesis using assms None by (simp add: map_assign_def map_of_eq_None_iff)
next
  case (Some a)
  have "map fst (map (\<lambda>(k', v'). (k', if k' = k then v else v')) m) = map fst m" by (induction m) auto
  then show ?thesis using assms Some by (simp only: map_assign_def option.distinct if_False)
qed

section \<open>Contracts\<close>

text \<open>
  The interface \<^verbatim>\<open>Serializable\<close> (include/lang/serializable.h). A buffer is a list of
  bytes, its length is the \<^verbatim>\<open>bufferLen\<close> argument. The laws: a buffer shorter than
  \<^verbatim>\<open>getSerialSize()\<close> is refused with -1 and nothing is written; otherwise exactly the
  first \<open>size_of\<close> bytes are written, and reading them back gives the object (for objects that
  agree on what is not on the wire, \<open>kin\<close>).
\<close>

locale serializable =
  fixes size_of :: nat
    and ser :: "'a \<Rightarrow> string \<Rightarrow> int \<times> string"
    and deser :: "'a \<Rightarrow> string \<Rightarrow> int \<times> 'a"
    and wf :: "'a \<Rightarrow> bool"
    and kin :: "'a \<Rightarrow> 'a \<Rightarrow> bool"
  assumes ser_short: "length buf < size_of \<Longrightarrow> ser x buf = (-1, buf)"
    and deser_short: "length buf < size_of \<Longrightarrow> deser x buf = (-1, x)"
    and ser_rc: "size_of \<le> length buf \<Longrightarrow> 0 \<le> fst (ser x buf)"
    and deser_rc: "size_of \<le> length buf \<Longrightarrow> 0 \<le> fst (deser x buf)"
    and ser_length: "size_of \<le> length buf \<Longrightarrow> wf x \<Longrightarrow> length (snd (ser x buf)) = length buf"
    and ser_rest: "size_of \<le> length buf \<Longrightarrow> wf x \<Longrightarrow> drop size_of (snd (ser x buf)) = drop size_of buf"
    and deser_prefix: "size_of \<le> length buf \<Longrightarrow> deser x buf = deser x (take size_of buf)"
    and deser_ser: "size_of \<le> length buf \<Longrightarrow> wf x \<Longrightarrow> wf y \<Longrightarrow> kin x y \<Longrightarrow>
        snd (deser y (snd (ser x buf))) = x"
begin

text \<open>The bytes an object puts on the wire.\<close>

definition image :: "'a \<Rightarrow> string" where
  "image x = take size_of (snd (ser x (replicate size_of NUL)))"

lemma ser_decomp:
  assumes "size_of \<le> length buf" "wf x"
  shows "snd (ser x buf) = take size_of (snd (ser x buf)) @ drop size_of buf"
  using ser_rest [OF assms] by (metis append_take_drop_id)

lemma deser_append:
  assumes "length bs = size_of"
  shows "deser x (bs @ r) = deser x bs"
  using deser_prefix [of "bs @ r" x] assms by simp

lemma refused_iff: "wf x \<Longrightarrow> fst (ser x buf) = -1 \<longleftrightarrow> length buf < size_of"
  by (metis ser_short ser_rc fst_conv linorder_not_less neg_0_le_iff_le not_one_le_zero)

lemma deser_refused_iff: "fst (deser x buf) = -1 \<longleftrightarrow> length buf < size_of"
  by (metis deser_short deser_rc fst_conv linorder_not_less neg_0_le_iff_le not_one_le_zero)

lemma roundtrip:
  assumes "size_of \<le> length buf" "wf x" "wf y" "kin x y"
  shows "0 \<le> fst (ser x buf)" and "length (snd (ser x buf)) = length buf"
    and "drop size_of (snd (ser x buf)) = drop size_of buf"
    and "snd (deser y (snd (ser x buf))) = x"
  using assms ser_rc ser_length ser_rest deser_ser by auto

lemma ser_inj:
  assumes "wf x" "wf y" "kin x y" "kin y x" "snd (ser x b) = snd (ser y c)"
    "size_of \<le> length b" "size_of \<le> length c" "kin x x"
  shows "x = y"
  using deser_ser [of b x x] deser_ser [of c y x] assms by auto

end

text \<open>A first-in first-out queue, as the event list, the run queue and the send and receive queues use it.\<close>

locale fifo =
  fixes enq :: "'a \<Rightarrow> 'q \<Rightarrow> 'q"
    and deq :: "'q \<Rightarrow> ('a \<times> 'q) option"
    and items :: "'q \<Rightarrow> 'a list"
    and ok :: "'q \<Rightarrow> bool"
  assumes items_enq: "ok q \<Longrightarrow> items (enq x q) = items q @ [x]"
    and deq_None: "ok q \<Longrightarrow> deq q = None \<longleftrightarrow> items q = []"
    and deq_Some: "ok q \<Longrightarrow> deq q = Some (x, q') \<Longrightarrow> items q = x # items q'"
    and ok_enq: "ok q \<Longrightarrow> ok (enq x q)"
    and ok_deq: "ok q \<Longrightarrow> deq q = Some (x, q') \<Longrightarrow> ok q'"
begin

fun enq_all :: "'a list \<Rightarrow> 'q \<Rightarrow> 'q" where
  "enq_all [] q = q"
| "enq_all (x # xs) q = enq_all xs (enq x q)"

fun deq_n :: "nat \<Rightarrow> 'q \<Rightarrow> ('a list \<times> 'q) option" where
  "deq_n 0 q = Some ([], q)"
| "deq_n (Suc n) q = (case deq q of None \<Rightarrow> None
     | Some (x, q') \<Rightarrow> (case deq_n n q' of None \<Rightarrow> None | Some (xs, q'') \<Rightarrow> Some (x # xs, q'')))"

lemma ok_enq_all: "ok q \<Longrightarrow> ok (enq_all xs q)"
  by (induction xs arbitrary: q) (simp_all add: ok_enq)

lemma items_enq_all: "ok q \<Longrightarrow> items (enq_all xs q) = items q @ xs"
  by (induction xs arbitrary: q) (simp_all add: items_enq ok_enq)

lemma deq_n_total: "ok q \<Longrightarrow> n \<le> length (items q) \<Longrightarrow> \<exists>xs q'. deq_n n q = Some (xs, q')"
proof (induction n arbitrary: q)
  case (Suc n)
  then have "items q \<noteq> []" by auto
  then obtain x q' where d: "deq q = Some (x, q')"
    using deq_None [of q] Suc.prems(1) by (cases "deq q") auto
  with Suc.prems have "n \<le> length (items q')" "ok q'" using deq_Some [OF _ d] ok_deq [OF _ d] by auto
  with Suc.IH d show ?case by fastforce
qed simp

lemma deq_n_items: "ok q \<Longrightarrow> deq_n n q = Some (xs, q') \<Longrightarrow> items q = xs @ items q' \<and> length xs = n \<and> ok q'"
proof (induction n arbitrary: q xs)
  case (Suc n)
  then obtain x q1 ys where d: "deq q = Some (x, q1)" and n: "deq_n n q1 = Some (ys, q')" and xs: "xs = x # ys"
    by (auto split: option.splits prod.splits)
  from Suc.IH [OF ok_deq [OF Suc.prems(1) d] n] deq_Some [OF Suc.prems(1) d] xs show ?case by simp
qed simp

lemma fifo_order:
  assumes "ok q" "items q = []" "deq_n (length xs) (enq_all xs q) = Some (ys, q')"
  shows "ys = xs" and "items q' = []"
proof -
  have d: "items (enq_all xs q) = ys @ items q' \<and> length ys = length xs \<and> ok q'"
    by (rule deq_n_items [OF ok_enq_all [OF assms(1)] assms(3)])
  have e: "xs = ys @ items q'"
    using d unfolding items_enq_all [OF assms(1)] assms(2) by simp
  have l: "length ys = length xs" using d by (elim conjE)
  have "length xs = length ys + length (items q')" using arg_cong [OF e, of length] by simp
  with l show n: "items q' = []" by simp
  with e show "ys = xs" by simp
qed

lemma fifo_drain:
  assumes "ok q" "items q = []"
  shows "\<exists>q'. deq_n (length xs) (enq_all xs q) = Some (xs, q') \<and> items q' = []"
proof -
  have "length xs \<le> length (items (enq_all xs q))" by (simp add: items_enq_all assms)
  then obtain ys q' where d: "deq_n (length xs) (enq_all xs q) = Some (ys, q')"
    using deq_n_total ok_enq_all assms(1) by blast
  then show ?thesis using fifo_order [OF assms d] by blast
qed

end

text \<open>Weighted counts over a list whose elements are replaced one at a time.\<close>

lemma sum_list_update:
  fixes f :: "'b \<Rightarrow> nat"
  assumes "i < length xs"
  shows "sum_list (map f (xs[i := y])) + f (xs ! i) = sum_list (map f xs) + f y"
proof -
  have "xs = take i xs @ xs ! i # drop (Suc i) xs" using assms by (simp add: id_take_nth_drop)
  then have "sum_list (map f xs) = sum_list (map f (take i xs)) + f (xs ! i) + sum_list (map f (drop (Suc i) xs))"
    by (metis (no_types, lifting) add.assoc list.simps(9) map_append sum_list.Cons sum_list_append)
  moreover have "xs[i := y] = take i xs @ y # drop (Suc i) xs" using assms by (simp add: upd_conv_take_nth_drop)
  ultimately show ?thesis by simp
qed

lemma sum_list_member:
  fixes f :: "'b \<Rightarrow> nat"
  shows "i < length xs \<Longrightarrow> f (xs ! i) \<le> sum_list (map f xs)"
  by (simp add: member_le_sum_list)

lemma sum_list_positive:
  fixes f :: "'b \<Rightarrow> nat"
  shows "0 < sum_list (map f xs) \<Longrightarrow> \<exists>i < length xs. 0 < f (xs ! i)"
  by (metis gr0I in_set_conv_nth sum_list_eq_0_iff list.set_map imageE less_irrefl)

text \<open>A machine with an initial state and a step relation; an inductive invariant holds in every reachable state.\<close>

locale machine =
  fixes start :: "'s \<Rightarrow> bool"
    and step :: "'s \<Rightarrow> 's \<Rightarrow> bool"
    and inv :: "'s \<Rightarrow> bool"
  assumes inv_start: "start s \<Longrightarrow> inv s"
    and inv_step: "inv s \<Longrightarrow> step s t \<Longrightarrow> inv t"
begin

inductive reach :: "'s \<Rightarrow> bool" where
  reach_start: "start s \<Longrightarrow> reach s"
| reach_step: "reach s \<Longrightarrow> step s t \<Longrightarrow> reach t"

lemma reach_inv: "reach s \<Longrightarrow> inv s"
  by (induction rule: reach.induct) (auto intro: inv_start inv_step)

lemma reach_rtranclp: "step\<^sup>*\<^sup>* s t \<Longrightarrow> reach s \<Longrightarrow> reach t"
  by (induction rule: rtranclp_induct) (auto intro: reach_step)

lemma star_inv: "step\<^sup>*\<^sup>* s t \<Longrightarrow> inv s \<Longrightarrow> inv t"
  by (induction rule: rtranclp_induct) (auto intro: inv_step)

end

end
