(* ===== verification/Endpoint.thy ===== *)
theory Endpoint
  imports Prelude
begin

text \<open>
  \<^verbatim>\<open>class EndPoint\<close> (include/net/endpoint.h, src/net/endpoint.cpp): the address of a
  peer in three fixed text fields and a port, its setters, its wire format and its text forms.
  The fields are the arrays as they lie in memory (with the NULs). \<^verbatim>\<open>gethostname(2)\<close> is a
  parameter (\<open>gethost\<close>: the host's name, or None when the call fails).
\<close>

definition MAX_HOSTNAME_LEN :: nat where "MAX_HOSTNAME_LEN = 32"
definition MAX_LOCATION_LEN :: nat where "MAX_LOCATION_LEN = 32"
definition MAX_SERVICE_LEN :: nat where "MAX_SERVICE_LEN = 16"

lemmas endpoint_lens = MAX_HOSTNAME_LEN_def MAX_LOCATION_LEN_def MAX_SERVICE_LEN_def

record endpoint =
  mHostName :: string
  mLocation :: string
  mService :: string
  mPort :: u32

definition DEFAULT_PORT :: u32 where "DEFAULT_PORT = -1"
definition DEFAULT_LOCATION :: string where "DEFAULT_LOCATION = ''default''"
definition DEFAULT_SERVICE :: string where "DEFAULT_SERVICE = ''unknown''"

text \<open>The setters.\<close>

definition setHostName :: "string \<Rightarrow> endpoint \<Rightarrow> endpoint" where
  "setHostName h ep = ep\<lparr>mHostName := cset MAX_HOSTNAME_LEN h\<rparr>"

definition setLocation :: "string \<Rightarrow> endpoint \<Rightarrow> endpoint" where
  "setLocation l ep = ep\<lparr>mLocation := cset MAX_LOCATION_LEN l\<rparr>"

definition setService :: "string \<Rightarrow> endpoint \<Rightarrow> endpoint" where
  "setService s ep = ep\<lparr>mService := cset MAX_SERVICE_LEN s\<rparr>"

definition setPort :: "u32 \<Rightarrow> endpoint \<Rightarrow> endpoint" where
  "setPort p ep = ep\<lparr>mPort := p\<rparr>"

definition setDefaultLocation :: "string \<Rightarrow> endpoint \<Rightarrow> endpoint" where
  "setDefaultLocation l ep =
     (if cstr (mLocation ep) = DEFAULT_LOCATION then setLocation l ep else ep)"

text \<open>
  \<^verbatim>\<open>getHostname(NULL, hostname)\<close> of src/net/lnet.cpp: the local host name, the caller's
  string unchanged on failure.
\<close>

definition getHostname_local :: "string option \<Rightarrow> string \<Rightarrow> int \<times> string" where
  "getHostname_local gethost hostname =
     (case gethost of None \<Rightarrow> (-1, hostname) | Some n \<Rightarrow> (0, cstr (take 256 n)))"

text \<open>The constructors: \<open>raw\<close> is the uninitialised object.\<close>

definition EndPoint_full :: "endpoint \<Rightarrow> string \<Rightarrow> string \<Rightarrow> string \<Rightarrow> u32 \<Rightarrow> endpoint" where
  "EndPoint_full raw host loc svc port =
     setPort port (setService svc (setLocation loc (setHostName host raw)))"

definition EndPoint_loc :: "endpoint \<Rightarrow> string \<Rightarrow> string \<Rightarrow> u32 \<Rightarrow> endpoint" where
  "EndPoint_loc raw host loc port =
     setPort port (setService DEFAULT_SERVICE (setLocation loc (setHostName host raw)))"

definition EndPoint_host :: "endpoint \<Rightarrow> string \<Rightarrow> u32 \<Rightarrow> endpoint" where
  "EndPoint_host raw host port =
     setPort port (setService DEFAULT_SERVICE (setLocation DEFAULT_LOCATION (setHostName host raw)))"

definition EndPoint_port :: "string option \<Rightarrow> endpoint \<Rightarrow> u32 \<Rightarrow> endpoint" where
  "EndPoint_port gethost raw port =
     (let hostname = snd (getHostname_local gethost ''localhost'')
      in setPort port (setService DEFAULT_SERVICE (setLocation DEFAULT_LOCATION
           (setHostName hostname raw))))"

definition EndPoint_default :: "string option \<Rightarrow> endpoint \<Rightarrow> endpoint" where
  "EndPoint_default gethost raw =
     (let hostname = snd (getHostname_local gethost ''localhost'')
      in setPort DEFAULT_PORT (setService DEFAULT_SERVICE (setLocation DEFAULT_LOCATION
           (setHostName hostname raw))))"

text \<open>The wire format: host (32), location (32), service (16), port (4).\<close>

definition EndPoint_getSerialSize :: nat where
  "EndPoint_getSerialSize = MAX_HOSTNAME_LEN + MAX_LOCATION_LEN + MAX_SERVICE_LEN + 4"

definition EndPoint_serialize :: "endpoint \<Rightarrow> string \<Rightarrow> int \<times> string" where
  "EndPoint_serialize ep buffer =
     (let usedBufLen = MAX_HOSTNAME_LEN + MAX_LOCATION_LEN + MAX_SERVICE_LEN + 4
      in if length buffer < usedBufLen then (-1, buffer)
         else let b0 = poke 0 (replicate usedBufLen NUL) buffer;
                  b1 = poke 0 (strncpy MAX_HOSTNAME_LEN (mHostName ep)) b0;
                  b2 = poke MAX_HOSTNAME_LEN (strncpy MAX_LOCATION_LEN (mLocation ep)) b1;
                  b3 = poke (MAX_HOSTNAME_LEN + MAX_LOCATION_LEN)
                         (strncpy MAX_SERVICE_LEN (mService ep)) b2;
                  b4 = poke (MAX_HOSTNAME_LEN + MAX_LOCATION_LEN + MAX_SERVICE_LEN)
                         (put32 (mPort ep)) b3
              in (int usedBufLen, b4))"

definition EndPoint_deserialize :: "endpoint \<Rightarrow> string \<Rightarrow> int \<times> endpoint" where
  "EndPoint_deserialize ep buffer =
     (let usedBufLen = MAX_HOSTNAME_LEN + MAX_LOCATION_LEN + MAX_SERVICE_LEN + 4
      in if length buffer < usedBufLen then (-1, ep)
         else let e1 = setHostName buffer ep;
                  e2 = setLocation (drop MAX_HOSTNAME_LEN buffer) e1;
                  e3 = setService (drop (MAX_HOSTNAME_LEN + MAX_LOCATION_LEN) buffer) e2;
                  e4 = setPort (get32 (peek (MAX_HOSTNAME_LEN + MAX_LOCATION_LEN + MAX_SERVICE_LEN)
                          4 buffer)) e3
              in (int usedBufLen, e4))"

text \<open>The text forms; \<^verbatim>\<open>toHostPortStr\<close> is the key of the connection manager.\<close>

definition EndPoint_toString :: "endpoint \<Rightarrow> string" where
  "EndPoint_toString ep = cstr (mHostName ep) @ '','' @ cstr (mLocation ep) @ '',''
     @ cstr (mService ep) @ '','' @ dec_int (sint (mPort ep))"

definition toHostPortStr :: "endpoint \<Rightarrow> string" where
  "toHostPortStr ep = cstr (mHostName ep) @ ''@'' @ dec_int (sint (mPort ep))"

section \<open>Well-formed end points\<close>

definition endpoint_wf :: "endpoint \<Rightarrow> bool" where
  "endpoint_wf ep \<longleftrightarrow> cfield MAX_HOSTNAME_LEN (mHostName ep) \<and> cfield MAX_LOCATION_LEN (mLocation ep)
     \<and> cfield MAX_SERVICE_LEN (mService ep)"

lemmas endpoint_setters = setHostName_def setLocation_def setService_def setPort_def
  setDefaultLocation_def

lemma endpoint_lens_pos [simp]: "0 < MAX_HOSTNAME_LEN" "0 < MAX_LOCATION_LEN" "0 < MAX_SERVICE_LEN"
  by (simp_all add: endpoint_lens)

lemma endpoint_wf_set [simp]:
  "endpoint_wf ep \<Longrightarrow> endpoint_wf (setHostName s ep)"
  "endpoint_wf ep \<Longrightarrow> endpoint_wf (setLocation s ep)"
  "endpoint_wf ep \<Longrightarrow> endpoint_wf (setService s ep)"
  "endpoint_wf ep \<Longrightarrow> endpoint_wf (setPort p ep)"
  "endpoint_wf ep \<Longrightarrow> endpoint_wf (setDefaultLocation s ep)"
  by (simp_all add: endpoint_wf_def endpoint_setters cfield_cset)

lemma endpoint_wf_construct:
  "endpoint_wf (EndPoint_full raw h l s p)" "endpoint_wf (EndPoint_loc raw h l p)"
  "endpoint_wf (EndPoint_host raw h p)" "endpoint_wf (EndPoint_port g raw p)"
  "endpoint_wf (EndPoint_default g raw)"
  by (simp_all add: endpoint_wf_def EndPoint_full_def EndPoint_loc_def EndPoint_host_def
      EndPoint_port_def EndPoint_default_def endpoint_setters cfield_cset Let_def)

lemma endpoint_wf_deserialize:
  "endpoint_wf ep \<Longrightarrow> endpoint_wf (snd (EndPoint_deserialize ep buf))"
  by (simp add: EndPoint_deserialize_def Let_def)

section \<open>The serializable contract\<close>

lemma EndPoint_deserialize_fields:
  assumes "84 \<le> length buf"
  shows "EndPoint_deserialize ep buf = (84, ep\<lparr>mHostName := cset 32 (peek 0 32 buf),
    mLocation := cset 32 (peek 32 32 buf), mService := cset 16 (peek 64 16 buf),
    mPort := get32 (peek 80 4 buf)\<rparr>)"
  using assms cset_peek [of 32 0 buf] cset_peek [of 32 32 buf] cset_peek [of 16 64 buf]
  by (simp add: EndPoint_deserialize_def endpoint_lens endpoint_setters Let_def)

lemma EndPoint_serialize_image:
  assumes "84 \<le> length buf"
  shows "fst (EndPoint_serialize x buf) = 84" "length (snd (EndPoint_serialize x buf)) = length buf"
    "drop 84 (snd (EndPoint_serialize x buf)) = drop 84 buf"
    "peek 0 32 (snd (EndPoint_serialize x buf)) = strncpy 32 (mHostName x)"
    "peek 32 32 (snd (EndPoint_serialize x buf)) = strncpy 32 (mLocation x)"
    "peek 64 16 (snd (EndPoint_serialize x buf)) = strncpy 16 (mService x)"
    "peek 80 4 (snd (EndPoint_serialize x buf)) = put32 (mPort x)"
  using assms by (simp_all add: EndPoint_serialize_def endpoint_lens Let_def wire)

interpretation endpoint_wire: serializable EndPoint_getSerialSize EndPoint_serialize
  EndPoint_deserialize endpoint_wf "\<lambda>_ _. True"
proof
  fix x y :: endpoint and buf :: string
  assume "EndPoint_getSerialSize \<le> length buf" "endpoint_wf x" "endpoint_wf y"
  then show "snd (EndPoint_deserialize y (snd (EndPoint_serialize x buf))) = x"
    by (simp add: EndPoint_deserialize_fields EndPoint_serialize_image EndPoint_getSerialSize_def
        endpoint_lens endpoint_wf_def cfield_strncpy cset_cfield)
qed (simp_all add: EndPoint_serialize_image EndPoint_deserialize_fields
    EndPoint_getSerialSize_def endpoint_lens peek_take,
    simp_all add: EndPoint_serialize_def EndPoint_deserialize_def endpoint_lens Let_def)

section \<open>The connection key\<close>

lemma toHostPortStr_inj:
  "toHostPortStr a = toHostPortStr b \<longleftrightarrow>
     cstr (mHostName a) = cstr (mHostName b) \<and> mPort a = mPort b"
proof
  have at: "CHR ''@'' \<notin> set (dec_int i)" for i by (auto dest: dec_int_chars)
  assume e: "toHostPortStr a = toHostPortStr b"
  have "cstr (mHostName a) = cstr (mHostName b) \<and>
      dec_int (sint (mPort a)) = dec_int (sint (mPort b))"
  proof -
    have r: "rev (toHostPortStr c) = rev (dec_int (sint (mPort c))) @ CHR ''@'' # rev (cstr (mHostName c))" for c
      by (simp add: toHostPortStr_def)
    have t: "takeWhile (\<lambda>x. x \<noteq> CHR ''@'') (rev (toHostPortStr c)) = rev (dec_int (sint (mPort c)))"
      and d: "dropWhile (\<lambda>x. x \<noteq> CHR ''@'') (rev (toHostPortStr c)) = CHR ''@'' # rev (cstr (mHostName c))" for c
      unfolding r using at by (auto simp: takeWhile_append dropWhile_append)
    show ?thesis using t [of a] t [of b] d [of a] d [of b] e by simp
  qed
  then show "cstr (mHostName a) = cstr (mHostName b) \<and> mPort a = mPort b"
    by (auto simp: dec_int_inj intro: signed_word_eqI)
qed (simp add: toHostPortStr_def)

end
