(* ===== verification/Messages.thy ===== *)
theory Messages
  imports Endpoint
begin

text \<open>
  The messages on the wire (include/comm/message.h, request.h, response.h, packageinfo.h):
  \<^verbatim>\<open>Message\<close> and the classes that extend it, as records that extend each other, with the
  (non-virtual) base calls \<^verbatim>\<open>Message::serialize\<close> made on the base part of the object. Fields are
  kept at their width; \<^verbatim>\<open>mType\<close> is \<^verbatim>\<open>const\<close> in the code and no operation changes it.
\<close>

definition MESSAGE_BASIC :: u32 where "MESSAGE_BASIC = 100"
definition MESSAGE_BASIC_REQUEST :: u32 where "MESSAGE_BASIC_REQUEST = 1000"
definition MESSAGE_BASIC_RESPONSE :: u32 where "MESSAGE_BASIC_RESPONSE = -1000"

record message =
  mType :: u32
  mVersion :: u32
  mId :: u64

definition Message_getSerialSize :: nat where
  "Message_getSerialSize = 4 + 4 + 8"

definition Message_serialize :: "'z message_scheme \<Rightarrow> string \<Rightarrow> int \<times> string" where
  "Message_serialize m buffer =
     (if length buffer < Message_getSerialSize then (-1, buffer)
      else let b1 = poke 0 (put32 (mType m)) buffer;
               b2 = poke 4 (put32 (mVersion m)) b1;
               b3 = poke 8 (put64 (mId m)) b2
           in (0, b3))"

definition Message_deserialize :: "'z message_scheme \<Rightarrow> string \<Rightarrow> int \<times> 'z message_scheme" where
  "Message_deserialize m buffer =
     (if length buffer < Message_getSerialSize then (-1, m)
      else (0, m\<lparr>mVersion := get32 (peek 4 4 buffer), mId := get64 (peek 8 8 buffer)\<rparr>))"

definition Message_toString :: "'z message_scheme \<Rightarrow> string \<Rightarrow> string" where
  "Message_toString m output = output @ ''type:'' @ dec_int (sint (mType m))
     @ '',version:'' @ dec_nat (unat (mVersion m)) @ '',id:'' @ dec_nat (unat (mId m))"

section \<open>Requests\<close>

definition MAX_PROTOCAL_LEN :: nat where "MAX_PROTOCAL_LEN = 32"

record request = message +
  mSourceEp :: endpoint
  mProtocal :: string

definition Request_getSerialSize :: nat where
  "Request_getSerialSize = Message_getSerialSize + EndPoint_getSerialSize + MAX_PROTOCAL_LEN"

definition Request_serialize :: "request \<Rightarrow> string \<Rightarrow> int \<times> string" where
  "Request_serialize r buffer =
     (if length buffer < Request_getSerialSize then (-1, buffer)
      else let b1 = snd (Message_serialize r buffer);
               b2 = take Message_getSerialSize b1
                    @ snd (EndPoint_serialize (mSourceEp r) (drop Message_getSerialSize b1));
               temp = Message_getSerialSize + EndPoint_getSerialSize;
               b3 = poke temp (strncpy MAX_PROTOCAL_LEN (mProtocal r)) b2;
               b4 = poke (temp + MAX_PROTOCAL_LEN - 1) [NUL] b3
           in (0, b4))"

definition Request_deserialize :: "request \<Rightarrow> string \<Rightarrow> int \<times> request" where
  "Request_deserialize r buffer =
     (if length buffer < Request_getSerialSize then (-1, r)
      else let r1 = snd (Message_deserialize r buffer);
               ep = snd (EndPoint_deserialize (mSourceEp r1) (drop Message_getSerialSize buffer));
               temp = Message_getSerialSize + EndPoint_getSerialSize;
               p = strncpy MAX_PROTOCAL_LEN (drop temp buffer);
               p' = p[MAX_PROTOCAL_LEN - 1 := NUL]
           in (0, r1\<lparr>mSourceEp := ep, mProtocal := p'\<rparr>))"

definition Request_toString :: "request \<Rightarrow> string \<Rightarrow> string" where
  "Request_toString r output =
     (let o1 = Message_toString r output;
          o2 = o1 @ '','';
          o3 = EndPoint_toString (mSourceEp r)
      in o3 @ '',protocal:'' @ cstr (mProtocal r))"

section \<open>Responses\<close>

definition MAX_ERROR_MSG_LEN :: nat where "MAX_ERROR_MSG_LEN = 128"

record response = message +
  mStatus :: u32
  mErrMsg :: string

text \<open>The constructor with status and text, over an uninitialised object \<open>raw\<close>.\<close>

definition Response_new :: "response \<Rightarrow> u32 \<Rightarrow> string \<Rightarrow> response" where
  "Response_new raw status msg = raw\<lparr>mType := MESSAGE_BASIC_RESPONSE, mStatus := status,
     mErrMsg := cset MAX_ERROR_MSG_LEN msg\<rparr>"

definition setErrMsg :: "string \<Rightarrow> response \<Rightarrow> response" where
  "setErrMsg msg r = r\<lparr>mErrMsg := cset MAX_ERROR_MSG_LEN msg\<rparr>"

definition Response_getSerialSize :: nat where
  "Response_getSerialSize = Message_getSerialSize + 4 + MAX_ERROR_MSG_LEN"

definition Response_serialize :: "response \<Rightarrow> string \<Rightarrow> int \<times> string" where
  "Response_serialize r buffer =
     (if length buffer < Response_getSerialSize then (-1, buffer)
      else let b1 = snd (Message_serialize r buffer);
               b2 = poke Message_getSerialSize (put32 (mStatus r)) b1;
               b3 = poke (Message_getSerialSize + 4) (strncpy MAX_ERROR_MSG_LEN (mErrMsg r)) b2;
               b4 = poke (Message_getSerialSize + 4 + MAX_ERROR_MSG_LEN - 1) [NUL] b3
           in (0, b4))"

definition Response_deserialize :: "response \<Rightarrow> string \<Rightarrow> int \<times> response" where
  "Response_deserialize r buffer =
     (if length buffer < Response_getSerialSize then (-1, r)
      else let r1 = snd (Message_deserialize r buffer);
               st = get32 (peek Message_getSerialSize 4 buffer);
               e = strncpy MAX_ERROR_MSG_LEN (drop (Message_getSerialSize + 4) buffer);
               e' = e[MAX_ERROR_MSG_LEN - 1 := NUL]
           in (0, r1\<lparr>mStatus := st, mErrMsg := e'\<rparr>))"

definition Response_toString :: "response \<Rightarrow> string \<Rightarrow> string" where
  "Response_toString r output = Message_toString r output
     @ '',status:'' @ dec_int (sint (mStatus r)) @ '',errMsg:'' @ cstr (mErrMsg r)"

section \<open>The package header\<close>

text \<open>\<^verbatim>\<open>struct PackHeader\<close>, in the binary form (\<^verbatim>\<open>RPC_HEAD_USE_STRING\<close> is 0).\<close>

definition HDR_TYPE_LEN :: nat where "HDR_TYPE_LEN = 8"

definition HDR_LEN :: nat where
  "HDR_LEN = HDR_TYPE_LEN + (7 + 1) + (7 + 1) + (7 + 1)"

record pack_header =
  hType :: string
  hMsgLen :: u64
  hAttLen :: u64
  hFileLen :: u64

definition header_bytes :: "pack_header \<Rightarrow> string" where
  "header_bytes h = hType h @ put64 (hMsgLen h) @ put64 (hAttLen h) @ put64 (hFileLen h)"

definition header_read :: "string \<Rightarrow> pack_header" where
  "header_read b = \<lparr>hType = peek 0 HDR_TYPE_LEN b, hMsgLen = get64 (peek 8 8 b),
     hAttLen = get64 (peek 16 8 b), hFileLen = get64 (peek 24 8 b)\<rparr>"

lemma length_header_bytes [simp]:
  "length (hType h) = HDR_TYPE_LEN \<Longrightarrow> length (header_bytes h) = HDR_LEN"
  by (simp add: header_bytes_def HDR_LEN_def HDR_TYPE_LEN_def)

lemma header_read_bytes:
  "length (hType h) = HDR_TYPE_LEN \<Longrightarrow> header_read (header_bytes h @ rest) = h"
  by (simp add: header_read_def header_bytes_def HDR_TYPE_LEN_def peek_def)

section \<open>The contracts\<close>

lemmas message_lens = Message_getSerialSize_def Request_getSerialSize_def Response_getSerialSize_def
  EndPoint_getSerialSize_def MAX_PROTOCAL_LEN_def MAX_ERROR_MSG_LEN_def endpoint_lens

lemma Message_serialize_image:
  assumes "16 \<le> length buf"
  shows "fst (Message_serialize m buf) = 0" "length (snd (Message_serialize m buf)) = length buf"
    "16 \<le> k \<Longrightarrow> drop k (snd (Message_serialize m buf)) = drop k buf"
    "peek 0 4 (snd (Message_serialize m buf)) = put32 (mType m)"
    "peek 4 4 (snd (Message_serialize m buf)) = put32 (mVersion m)"
    "peek 8 8 (snd (Message_serialize m buf)) = put64 (mId m)"
  using assms by (simp_all add: Message_serialize_def message_lens Let_def wire)

interpretation message_wire: serializable Message_getSerialSize
  "Message_serialize :: message \<Rightarrow> _" Message_deserialize "\<lambda>_. True" "\<lambda>x y. mType x = mType y"
  by unfold_locales
    (simp_all add: Message_serialize_image Message_deserialize_def message_lens peek_take,
     simp_all add: Message_serialize_def message_lens)

lemma last_NUL_strncpy:
  "0 < n \<Longrightarrow> (strncpy n s)[n - 1 := NUL] = cset n s"
proof -
  assume n: "0 < n"
  let ?t = "cstr s"
  show ?thesis
  proof (cases "length ?t < n")
    case True
    then have "strncpy n s = strncpy (n - 1) s @ [NUL]"
      by (cases n) (auto simp: strncpy_def Let_def replicate_append_same Suc_diff_le
          simp flip: replicate_Suc)
    then show ?thesis using length_strncpy [of "n - 1" s] by (metis cset_def list_update_length)
  next
    case False
    then have "strncpy n s = take n ?t" "strncpy (n - 1) s = take (n - 1) ?t"
      by (simp_all add: strncpy_def Let_def)
    then show ?thesis using n False
      by (cases n) (simp_all add: cset_def take_Suc_conv_app_nth list_update_append)
  qed
qed

text \<open>Overwriting the last byte of a text field on the wire is the same as bounding it first.\<close>

lemma poke_last:
  assumes "0 < k" "length bs = k" "n + k \<le> length buf"
  shows "poke (n + k - 1) [c] (poke n bs buf) = poke n (bs[k - 1 := c]) buf"
proof -
  obtain cs b where bs: "bs = cs @ [b]" "length cs = k - 1"
    using assms(1,2) by (metis append_butlast_last_id length_0_conv length_butlast less_irrefl)
  with assms show ?thesis by (simp add: poke_def list_update_append)
qed

lemma poke_field_last:
  "0 < k \<Longrightarrow> n + k \<le> length buf \<Longrightarrow>
     poke (n + k - 1) [NUL] (poke n (strncpy k s) buf) = poke n (cset k s) buf"
  using poke_last [of k "strncpy k s" n buf NUL] last_NUL_strncpy [of k s] by simp

lemma Request_serialize_image:
  assumes "132 \<le> length buf"
  shows "fst (Request_serialize r buf) = 0" "length (snd (Request_serialize r buf)) = length buf"
    "drop 132 (snd (Request_serialize r buf)) = drop 132 buf"
    "peek 0 4 (snd (Request_serialize r buf)) = put32 (mType r)"
    "peek 4 4 (snd (Request_serialize r buf)) = put32 (mVersion r)"
    "peek 8 8 (snd (Request_serialize r buf)) = put64 (mId r)"
    "peek 16 84 (snd (Request_serialize r buf)) =
       take 84 (snd (EndPoint_serialize (mSourceEp r) (drop 16 buf)))"
    "peek 100 32 (snd (Request_serialize r buf)) = cset 32 (mProtocal r)"
proof -
  let ?m = "snd (Message_serialize r buf)"
  let ?e = "snd (EndPoint_serialize (mSourceEp r) (drop 16 buf))"
  let ?b = "take 16 ?m @ ?e"
  have l: "length ?m = length buf" "length ?e = length buf - 16" "drop 16 ?m = drop 16 buf"
    "drop 84 ?e = drop 100 buf"
    using assms EndPoint_serialize_image [of "drop 16 buf" "mSourceEp r"]
    by (simp_all add: Message_serialize_image)
  have e: "Request_serialize r buf = (0, poke 100 (cset 32 (mProtocal r)) ?b)"
    using assms poke_field_last [of 32 100 ?b "mProtocal r"] l
    by (simp add: Request_serialize_def message_lens Let_def)
  have lb: "length ?b = length buf" using l assms by simp
  show "fst (Request_serialize r buf) = 0" by (simp add: e)
  show "length (snd (Request_serialize r buf)) = length buf" using assms lb by (simp add: e)
  show "drop 132 (snd (Request_serialize r buf)) = drop 132 buf"
  proof -
    have "drop 32 (drop 84 ?e) = drop 32 (drop 100 buf)" by (simp only: l(4))
    then have "drop 116 ?e = drop 132 buf" by simp
    then show ?thesis using assms l lb by (simp add: e drop_poke)
  qed
  have pre: "peek k j (snd (Request_serialize r buf)) = peek k j ?m" if "k + j \<le> 16" for k j
    using that assms lb l by (simp add: e peek_poke_before peek_append peek_take)
  show "peek 0 4 (snd (Request_serialize r buf)) = put32 (mType r)"
    "peek 4 4 (snd (Request_serialize r buf)) = put32 (mVersion r)"
    "peek 8 8 (snd (Request_serialize r buf)) = put64 (mId r)"
    using assms by (simp_all add: pre Message_serialize_image)
  show "peek 16 84 (snd (Request_serialize r buf)) = take 84 ?e"
    using assms lb l by (simp add: e peek_poke_before peek_append_after) (simp add: peek_def)
  show "peek 100 32 (snd (Request_serialize r buf)) = cset 32 (mProtocal r)"
    using assms lb by (simp add: e peek_poke_same)
qed

lemma Response_serialize_image:
  assumes "148 \<le> length buf"
  shows "fst (Response_serialize r buf) = 0" "length (snd (Response_serialize r buf)) = length buf"
    "drop 148 (snd (Response_serialize r buf)) = drop 148 buf"
    "peek 0 4 (snd (Response_serialize r buf)) = put32 (mType r)"
    "peek 4 4 (snd (Response_serialize r buf)) = put32 (mVersion r)"
    "peek 8 8 (snd (Response_serialize r buf)) = put64 (mId r)"
    "peek 16 4 (snd (Response_serialize r buf)) = put32 (mStatus r)"
    "peek 20 128 (snd (Response_serialize r buf)) = cset 128 (mErrMsg r)"
proof -
  let ?m = "snd (Message_serialize r buf)"
  let ?b = "poke 16 (put32 (mStatus r)) ?m"
  have l: "length ?b = length buf" "length ?m = length buf"
    using assms by (simp_all add: Message_serialize_image)
  have e: "Response_serialize r buf = (0, poke 20 (cset 128 (mErrMsg r)) ?b)"
    using assms poke_field_last [of 128 20 ?b "mErrMsg r"] l
    by (simp add: Response_serialize_def message_lens Let_def)
  show "fst (Response_serialize r buf) = 0" "length (snd (Response_serialize r buf)) = length buf"
    "drop 148 (snd (Response_serialize r buf)) = drop 148 buf"
    "peek 0 4 (snd (Response_serialize r buf)) = put32 (mType r)"
    "peek 4 4 (snd (Response_serialize r buf)) = put32 (mVersion r)"
    "peek 8 8 (snd (Response_serialize r buf)) = put64 (mId r)"
    "peek 16 4 (snd (Response_serialize r buf)) = put32 (mStatus r)"
    "peek 20 128 (snd (Response_serialize r buf)) = cset 128 (mErrMsg r)"
    using assms l by (simp_all add: e wire Message_serialize_image)
qed

text \<open>What the fields of a well-formed request and response are.\<close>

definition request_wf :: "request \<Rightarrow> bool" where
  "request_wf r \<longleftrightarrow> endpoint_wf (mSourceEp r) \<and> cfield MAX_PROTOCAL_LEN (mProtocal r)"

definition response_wf :: "response \<Rightarrow> bool" where
  "response_wf r \<longleftrightarrow> cfield MAX_ERROR_MSG_LEN (mErrMsg r)"

lemma Request_deserialize_fields:
  assumes "132 \<le> length buf"
  shows "Request_deserialize r buf = (0, r\<lparr>mVersion := get32 (peek 4 4 buf),
    mId := get64 (peek 8 8 buf),
    mSourceEp := snd (EndPoint_deserialize (mSourceEp r) (peek 16 84 buf)),
    mProtocal := cset 32 (peek 100 32 buf)\<rparr>)"
proof -
  have "EndPoint_deserialize e (drop 16 buf) = EndPoint_deserialize e (peek 16 84 buf)" for e
    using assms endpoint_wire.deser_prefix [of "drop 16 buf" e]
    by (simp add: EndPoint_getSerialSize_def endpoint_lens peek_def)
  moreover have "(strncpy 32 (drop 100 buf))[31 := NUL] = cset 32 (peek 100 32 buf)"
    using last_NUL_strncpy [of 32 "drop 100 buf"] cset_peek [of 32 100 buf] by simp
  ultimately show ?thesis using assms
    by (simp add: Request_deserialize_def Message_deserialize_def message_lens Let_def)
qed

lemma Response_deserialize_fields:
  assumes "148 \<le> length buf"
  shows "Response_deserialize r buf = (0, r\<lparr>mVersion := get32 (peek 4 4 buf),
    mId := get64 (peek 8 8 buf), mStatus := get32 (peek 16 4 buf),
    mErrMsg := cset 128 (peek 20 128 buf)\<rparr>)"
proof -
  have "(strncpy 128 (drop 20 buf))[127 := NUL] = cset 128 (peek 20 128 buf)"
    using last_NUL_strncpy [of 128 "drop 20 buf"] cset_peek [of 128 20 buf] by simp
  then show ?thesis using assms
    by (simp add: Response_deserialize_def Message_deserialize_def message_lens Let_def)
qed

lemma EndPoint_image_roundtrip:
  assumes "84 \<le> length buf" "endpoint_wf ep"
  shows "snd (EndPoint_deserialize e (take 84 (snd (EndPoint_serialize ep buf)))) = ep"
proof -
  have "length (snd (EndPoint_serialize ep buf)) = length buf"
    using assms by (simp add: EndPoint_serialize_image)
  with assms show ?thesis
    by (simp add: EndPoint_deserialize_fields EndPoint_serialize_image peek_take endpoint_wf_def
        endpoint_lens cfield_strncpy cset_cfield)
qed

interpretation request_wire: serializable Request_getSerialSize Request_serialize
  Request_deserialize request_wf "\<lambda>x y. mType x = mType y"
proof
  fix x y :: request and buf :: string
  assume "Request_getSerialSize \<le> length buf" "request_wf x" "mType x = mType y"
  then show "snd (Request_deserialize y (snd (Request_serialize x buf))) = x"
    by (simp add: Request_deserialize_fields Request_serialize_image message_lens request_wf_def
        EndPoint_image_roundtrip cset_cfield)
qed (simp_all add: Request_serialize_image Request_deserialize_fields message_lens peek_take,
    simp_all add: Request_serialize_def Request_deserialize_def message_lens)

interpretation response_wire: serializable Response_getSerialSize Response_serialize
  Response_deserialize response_wf "\<lambda>x y. mType x = mType y"
proof
  fix x y :: response and buf :: string
  assume "Response_getSerialSize \<le> length buf" "response_wf x" "mType x = mType y"
  then show "snd (Response_deserialize y (snd (Response_serialize x buf))) = x"
    by (simp add: Response_deserialize_fields Response_serialize_image message_lens response_wf_def
        cset_cfield)
qed (simp_all add: Response_serialize_image Response_deserialize_fields message_lens peek_take,
    simp_all add: Response_serialize_def Response_deserialize_def message_lens)

lemma Response_new_wf: "response_wf (Response_new raw s m)" "response_wf (setErrMsg m r)"
  by (simp_all add: response_wf_def Response_new_def setErrMsg_def cfield_cset MAX_ERROR_MSG_LEN_def)

lemma Request_deserialize_wf:
  "request_wf r \<Longrightarrow> request_wf (snd (Request_deserialize r buf))"
  by (cases "length buf < Request_getSerialSize")
    (simp_all add: Request_deserialize_fields request_wf_def cfield_cset endpoint_wf_deserialize
      message_lens, simp add: Request_deserialize_def message_lens)

lemma Response_deserialize_wf:
  "response_wf r \<Longrightarrow> response_wf (snd (Response_deserialize r buf))"
  by (cases "length buf < Response_getSerialSize")
    (simp_all add: Response_deserialize_fields response_wf_def cfield_cset message_lens,
      simp add: Response_deserialize_def message_lens)

section \<open>Round trips\<close>

lemma request_wire_back:
  assumes "Request_getSerialSize \<le> length buf" "request_wf x" "mType x = mType y"
  shows "snd (Request_deserialize y (snd (Request_serialize x buf))) = x"
  using assms by (simp add: Request_deserialize_fields Request_serialize_image message_lens request_wf_def
      EndPoint_image_roundtrip cset_cfield)

lemma response_wire_back:
  assumes "Response_getSerialSize \<le> length buf" "response_wf x" "mType x = mType y"
  shows "snd (Response_deserialize y (snd (Response_serialize x buf))) = x"
  using assms by (simp add: Response_deserialize_fields Response_serialize_image message_lens response_wf_def cset_cfield)

text \<open>C27: A request survives the wire: written into a buffer that has room and read back into any request object of
  the same type, from the bytes of its length alone, it is the request that was written; the rest of the buffer is
  untouched, and a buffer without room is refused by both sides.\<close>

theorem request_roundtrip:
  assumes "request_wf x" "mType y = mType x"
  shows "if Request_getSerialSize \<le> length buf
    then snd (Request_deserialize y (take Request_getSerialSize (snd (Request_serialize x buf)))) = x \<and>
      fst (Request_serialize x buf) = 0 \<and> drop Request_getSerialSize (snd (Request_serialize x buf)) = drop Request_getSerialSize buf
    else Request_serialize x buf = (-1, buf) \<and> Request_deserialize y buf = (-1, y)"
proof (cases "Request_getSerialSize \<le> length buf")
  case True
  let ?b = "snd (Request_serialize x buf)"
  have l: "Request_getSerialSize \<le> length ?b" using True request_wire.ser_length [OF True assms(1)] by simp
  have "Request_deserialize y (take Request_getSerialSize ?b) = Request_deserialize y ?b"
    using request_wire.deser_prefix [OF l] by simp
  then show ?thesis
    using True request_wire_back [OF True assms(1)] assms(2) request_wire.ser_rest [OF True assms(1)]
    by (simp add: Request_serialize_image message_lens)
qed (use request_wire.ser_short request_wire.deser_short in simp)

text \<open>The same for responses.\<close>

theorem response_roundtrip:
  assumes "response_wf x" "mType y = mType x"
  shows "if Response_getSerialSize \<le> length buf
    then snd (Response_deserialize y (take Response_getSerialSize (snd (Response_serialize x buf)))) = x \<and>
      fst (Response_serialize x buf) = 0 \<and> drop Response_getSerialSize (snd (Response_serialize x buf)) = drop Response_getSerialSize buf
    else Response_serialize x buf = (-1, buf) \<and> Response_deserialize y buf = (-1, y)"
proof (cases "Response_getSerialSize \<le> length buf")
  case True
  let ?b = "snd (Response_serialize x buf)"
  have l: "Response_getSerialSize \<le> length ?b" using True response_wire.ser_length [OF True assms(1)] by simp
  have "Response_deserialize y (take Response_getSerialSize ?b) = Response_deserialize y ?b"
    using response_wire.deser_prefix [OF l] by simp
  then show ?thesis
    using True response_wire_back [OF True assms(1)] assms(2) response_wire.ser_rest [OF True assms(1)]
    by (simp add: Response_serialize_image message_lens)
qed (use response_wire.ser_short response_wire.deser_short in simp)

text \<open>C28: Whatever bytes come from the network, the text fields of the objects read from them stay C strings inside
  their arrays: every constructor and setter makes such fields and no buffer can break them.\<close>

theorem fields_stay_bounded:
  "endpoint_wf (EndPoint_full raw h l s p) \<and> endpoint_wf (EndPoint_default g raw) \<and>
   (endpoint_wf ep \<longrightarrow> endpoint_wf (setHostName h ep) \<and> endpoint_wf (setLocation h ep) \<and> endpoint_wf (setService h ep) \<and>
      endpoint_wf (snd (EndPoint_deserialize ep buf))) \<and>
   response_wf (Response_new rraw st m) \<and> response_wf (setErrMsg m rsp) \<and>
   (request_wf req \<longrightarrow> request_wf (snd (Request_deserialize req buf))) \<and>
   (response_wf rsp \<longrightarrow> response_wf (snd (Response_deserialize rsp buf)))"
  using endpoint_wf_construct endpoint_wf_deserialize Response_new_wf Request_deserialize_wf Response_deserialize_wf by simp

definition wf_req :: request where
  "wf_req = \<lparr>mType = MESSAGE_BASIC_REQUEST, mVersion = 0, mId = 7,
     mSourceEp = \<lparr>mHostName = cset MAX_HOSTNAME_LEN ''a'', mLocation = cset MAX_LOCATION_LEN [], mService = cset MAX_SERVICE_LEN [],
       mPort = 80\<rparr>, mProtocal = cset MAX_PROTOCAL_LEN ''p''\<rparr>"

lemma wf_req_ok: "request_wf wf_req" "mType wf_req = MESSAGE_BASIC_REQUEST"
  by (simp_all add: request_wf_def endpoint_wf_def wf_req_def cfield_cset MAX_PROTOCAL_LEN_def)

theorem request_roundtrip_witness:
  "snd (Request_deserialize (wf_req\<lparr>mId := 0\<rparr>) (take 132 (snd (Request_serialize wf_req (replicate 140 NUL))))) = wf_req"
  using request_roundtrip [OF wf_req_ok(1), of "wf_req\<lparr>mId := 0\<rparr>" "replicate 140 NUL"] by (simp add: message_lens)

definition wf_rsp :: response where
  "wf_rsp = \<lparr>mType = MESSAGE_BASIC_RESPONSE, mVersion = 0, mId = 7, mStatus = 4, mErrMsg = cset MAX_ERROR_MSG_LEN ''bad''\<rparr>"

lemma wf_rsp_ok: "response_wf wf_rsp"
  by (simp add: response_wf_def wf_rsp_def cfield_cset MAX_ERROR_MSG_LEN_def)

theorem response_roundtrip_witness:
  "snd (Response_deserialize (wf_rsp\<lparr>mId := 0\<rparr>) (take 148 (snd (Response_serialize wf_rsp (replicate 160 NUL))))) = wf_rsp"
  using response_roundtrip [OF wf_rsp_ok, of "wf_rsp\<lparr>mId := 0\<rparr>" "replicate 160 NUL"] by (simp add: message_lens)

theorem fields_stay_bounded_witness:
  "request_wf (snd (Request_deserialize wf_req ''junk'')) \<and> response_wf (snd (Response_deserialize wf_rsp (replicate 160 CHR ''x'')))"
  using fields_stay_bounded [of _ _ _ _ _ _ "mSourceEp wf_req" "''junk''" _ _ _ wf_rsp wf_req]
    fields_stay_bounded [of _ _ _ _ _ _ "mSourceEp wf_req" "replicate 160 CHR ''x''" _ _ _ wf_rsp wf_req] wf_req_ok(1) wf_rsp_ok by blast

end
