(* ===== verification/Events.thy ===== *)
theory Events
  imports Prelude
begin

text \<open>
  Stage events and their completion callbacks (src/seda/stageevent.cpp, callback.cpp,
  src/time/timeoutinfo.cpp). Stages, contexts, events and timeout records are identified by
  numbers that stand for their addresses. A callback is the linked node of the code (its next
  pointer included); an event that runs out of callbacks deletes itself. A failed
  \<^verbatim>\<open>ASSERT\<close> aborts the process: operations that contain one return \<open>Inl\<close>.
\<close>

datatype fault = Assert_failed | Dangling | Blocked   \<comment> \<open>an assertion, a bad memory access, a wait for another thread\<close>

text \<open>The result of code that can fault, and can also wait or run for ever (\<open>None\<close>).\<close>

type_synonym 'a res = "(fault + 'a) option"

definition thenr :: "'a res \<Rightarrow> ('a \<Rightarrow> 'b res) \<Rightarrow> 'b res" where
  "thenr m f = (case m of None \<Rightarrow> None | Some (Inl e) \<Rightarrow> Some (Inl e) | Some (Inr x) \<Rightarrow> f x)"

abbreviation ret :: "'a \<Rightarrow> 'a res" where "ret x \<equiv> Some (Inr x)"

lemma thenr_simps [simp]: "thenr None f = None" "thenr (Some (Inl e)) f = Some (Inl e)" "thenr (ret x) f = f x"
  by (simp_all add: thenr_def)

lemma thenr_ret: "thenr m f = ret y \<longleftrightarrow> (\<exists>x. m = ret x \<and> f x = ret y)"
  by (auto simp: thenr_def split: option.splits sum.splits)

type_synonym stage_id = nat
type_synonym event_id = nat

section \<open>Completion callbacks\<close>

datatype callback =
  Callback (targetStage: stage_id) (cbContext: "nat option") (nextCb: "callback option")
    (evHistFlag: bool)

definition CompletionCallback :: "bool \<Rightarrow> stage_id \<Rightarrow> nat option \<Rightarrow> callback" where
  "CompletionCallback history trgt ctx = Callback trgt ctx None history"

fun cb_pushCallback :: "callback \<Rightarrow> callback option \<Rightarrow> fault + callback" where
  "cb_pushCallback (Callback s c nx h) next =
     (if nx \<noteq> None then Inl Assert_failed else Inr (Callback s c next h))"

fun cb_popCallback :: "callback \<Rightarrow> callback option \<times> callback" where
  "cb_popCallback (Callback s c nx h) = (nx, Callback s c None h)"

section \<open>Events\<close>

datatype hist_type = HANDLE_EV | CALLBACK_EV | TIMEOUT_EV

record stage_event =
  compCB :: "callback option"
  ud :: "nat option"
  cbFlag :: bool
  history :: "(stage_id \<times> hist_type) list option"
  stageHops :: u32
  tmInfo :: "nat option"

definition StageEvent :: stage_event where
  "StageEvent = \<lparr>compCB = None, ud = None, cbFlag = False, history = None, stageHops = 0,
     tmInfo = None\<rparr>"

definition pushCallback :: "callback \<Rightarrow> stage_event \<Rightarrow> fault + stage_event" where
  "pushCallback cb ev = (case cb_pushCallback cb (compCB ev) of
      Inl e \<Rightarrow> Inl e
    | Inr cb' \<Rightarrow> Inr (ev\<lparr>compCB := Some cb'\<rparr>))"

definition setUserData :: "nat option \<Rightarrow> stage_event \<Rightarrow> stage_event" where
  "setUserData u ev = ev\<lparr>ud := u\<rparr>"

definition getUserData :: "stage_event \<Rightarrow> nat option" where
  "getUserData ev = ud ev"

definition isCallback :: "stage_event \<Rightarrow> bool" where
  "isCallback ev = cbFlag ev"

definition saveStage :: "u32 \<Rightarrow> stage_id \<Rightarrow> hist_type \<Rightarrow> stage_event \<Rightarrow> fault + stage_event" where
  "saveStage maxHops stg ty ev =
     (let h = (case history ev of None \<Rightarrow> [] | Some h \<Rightarrow> h);
          ev' = ev\<lparr>history := Some (h @ [(stg, ty)]), stageHops := stageHops ev + 1\<rparr>
      in if stageHops ev' \<le> maxHops then Inr ev' else Inl Assert_failed)"

text \<open>
  What an operation that completes (part of) an event ends in: the event is queued again at a
  stage, a stage's callback or timeout handler is called with it, or it is deleted.
\<close>

datatype outcome =
    Rescheduled stage_event stage_id
  | Callback_called stage_event stage_id "nat option"
  | Timeout_called stage_event stage_id "nat option"
  | Deleted "nat option"  \<comment> \<open>the timeout record the destructor detaches from\<close>

definition eventReschedule :: "callback \<Rightarrow> stage_event \<Rightarrow> outcome" where
  "eventReschedule cb ev = Rescheduled ev (targetStage cb)"

definition eventDone :: "u32 \<Rightarrow> callback \<Rightarrow> stage_event \<Rightarrow> fault + outcome" where
  "eventDone maxHops cb ev =
     (case (if evHistFlag cb then saveStage maxHops (targetStage cb) CALLBACK_EV ev else Inr ev) of
        Inl e \<Rightarrow> Inl e
      | Inr ev' \<Rightarrow> Inr (Callback_called ev' (targetStage cb) (cbContext cb)))"

definition eventTimeout :: "u32 \<Rightarrow> callback \<Rightarrow> stage_event \<Rightarrow> fault + outcome" where
  "eventTimeout maxHops cb ev =
     (case (if evHistFlag cb then saveStage maxHops (targetStage cb) TIMEOUT_EV ev else Inr ev) of
        Inl e \<Rightarrow> Inl e
      | Inr ev' \<Rightarrow> Inr (Timeout_called ev' (targetStage cb) (cbContext cb)))"

definition event_done :: "stage_event \<Rightarrow> outcome" where
  "event_done ev = (case compCB ev of
      Some cb \<Rightarrow> eventReschedule cb (ev\<lparr>cbFlag := True\<rparr>)
    | None \<Rightarrow> Deleted (tmInfo ev))"

definition doneImmediate :: "u32 \<Rightarrow> stage_event \<Rightarrow> fault + outcome" where
  "doneImmediate maxHops ev = (case compCB ev of
      Some cb \<Rightarrow>
        (let ev1 = ev\<lparr>cbFlag := False\<rparr>;
             (nx, cb') = cb_popCallback cb;
             ev2 = ev1\<lparr>compCB := nx\<rparr>
         in eventDone maxHops cb' ev2)
    | None \<Rightarrow> Inr (Deleted (tmInfo ev)))"

definition doneTimeout :: "u32 \<Rightarrow> stage_event \<Rightarrow> fault + outcome" where
  "doneTimeout maxHops ev = (case compCB ev of
      Some cb \<Rightarrow>
        (let ev1 = ev\<lparr>cbFlag := False\<rparr>;
             (nx, cb') = cb_popCallback cb;
             ev2 = ev1\<lparr>compCB := nx\<rparr>
         in eventTimeout maxHops cb' ev2)
    | None \<Rightarrow> Inr (Deleted (tmInfo ev)))"

section \<open>The callback stack\<close>

text \<open>The linked callbacks as the list of their targets and contexts, top first.\<close>

fun cb_stack :: "callback \<Rightarrow> (stage_id \<times> nat option) list" where
  "cb_stack (Callback s c nx h) = (s, c) # (case nx of None \<Rightarrow> [] | Some n \<Rightarrow> cb_stack n)"

definition ev_stack :: "stage_event \<Rightarrow> (stage_id \<times> nat option) list" where
  "ev_stack ev = (case compCB ev of None \<Rightarrow> [] | Some c \<Rightarrow> cb_stack c)"

fun cb_quiet :: "callback \<Rightarrow> bool" where
  "cb_quiet (Callback s c nx h) = (\<not> h \<and> (case nx of None \<Rightarrow> True | Some n \<Rightarrow> cb_quiet n))"

definition ev_quiet :: "stage_event \<Rightarrow> bool" where
  "ev_quiet ev = (case compCB ev of None \<Rightarrow> True | Some c \<Rightarrow> cb_quiet c)"

lemma cb_pop_stack:
  "cb_stack cb = (targetStage cb, cbContext cb) # (case nextCb cb of None \<Rightarrow> [] | Some n \<Rightarrow> cb_stack n)"
  by (cases cb) simp

lemma cb_pop_simps [simp]:
  "fst (cb_popCallback cb) = nextCb cb" "targetStage (snd (cb_popCallback cb)) = targetStage cb"
  "cbContext (snd (cb_popCallback cb)) = cbContext cb" "nextCb (snd (cb_popCallback cb)) = None"
  "evHistFlag (snd (cb_popCallback cb)) = evHistFlag cb"
  by (cases cb; simp)+

lemma ev_stack_empty [simp]: "ev_stack ev = [] \<longleftrightarrow> compCB ev = None"
  by (auto simp: ev_stack_def split: option.split) (metis cb_pop_stack list.distinct(1))

lemma pushCallback_fresh:
  "nextCb cb = None \<Longrightarrow> \<exists>ev'. pushCallback cb ev = Inr ev' \<and>
     ev_stack ev' = (targetStage cb, cbContext cb) # ev_stack ev \<and> tmInfo ev' = tmInfo ev \<and>
     cbFlag ev' = cbFlag ev"
  by (cases cb) (auto simp: pushCallback_def ev_stack_def)

lemma pushCallback_twice: "nextCb cb \<noteq> None \<Longrightarrow> pushCallback cb ev = Inl Assert_failed"
  by (cases cb) (auto simp: pushCallback_def)

lemma event_done_empty: "ev_stack ev = [] \<Longrightarrow> event_done ev = Deleted (tmInfo ev)"
  by (simp add: event_done_def)

lemma event_done_top: "ev_stack ev = (s, c) # st \<Longrightarrow> event_done ev = Rescheduled (ev\<lparr>cbFlag := True\<rparr>) s"
  by (cases "compCB ev") (auto simp: event_done_def eventReschedule_def ev_stack_def cb_pop_stack)

lemma doneImmediate_quiet:
  assumes "ev_stack ev = (s, c) # st" "ev_quiet ev"
  shows "\<exists>ev'. doneImmediate m ev = Inr (Callback_called ev' s c) \<and> ev_stack ev' = st \<and>
    ev_quiet ev' \<and> \<not> cbFlag ev' \<and> tmInfo ev' = tmInfo ev"
proof -
  obtain s' c' nx h where cb: "compCB ev = Some (Callback s' c' nx h)"
    using assms(1) by (metis ev_stack_empty list.distinct(1) option.exhaust callback.exhaust)
  with assms show ?thesis
    by (auto simp: doneImmediate_def eventDone_def ev_stack_def ev_quiet_def split: option.splits)
qed

text \<open>
  An event that its stages complete at once: \<^verbatim>\<open>done()\<close> puts it back on the queue of the top
  callback's stage, the thread pool runs \<^verbatim>\<open>doneImmediate()\<close>, and the callback handler calls
  \<^verbatim>\<open>done()\<close> again. The trace is the list of callback handlers called, with their contexts; the
  flag says that the event has been deleted.
\<close>

fun complete_all :: "nat \<Rightarrow> u32 \<Rightarrow> stage_event \<Rightarrow> (stage_id \<times> nat option) list \<times> bool" where
  "complete_all 0 m ev = ([], False)"
| "complete_all (Suc n) m ev = (case event_done ev of
     Rescheduled ev1 s \<Rightarrow> (case doneImmediate m ev1 of
         Inr (Callback_called ev2 s' c) \<Rightarrow>
           (let (tr, del) = complete_all n m ev2 in ((s', c) # tr, del))
       | Inr (Deleted t) \<Rightarrow> ([], True)
       | _ \<Rightarrow> ([], False))
   | Deleted t \<Rightarrow> ([], True)
   | _ \<Rightarrow> ([], False))"

lemma complete_all_stack:
  assumes "ev_quiet ev" "length (ev_stack ev) < n"
  shows "complete_all n m ev = (ev_stack ev, True)"
  using assms
proof (induction n arbitrary: ev)
  case 0
  then show ?case by simp
next
  case (Suc n)
  show ?case
  proof (cases "ev_stack ev")
    case Nil
    then show ?thesis by (simp add: event_done_empty del: ev_stack_empty)
  next
    case (Cons p st)
    obtain s c where p: "p = (s, c)" by (cases p)
    let ?e = "ev\<lparr>cbFlag := True\<rparr>"
    have "ev_stack ?e = (s, c) # st" "ev_quiet ?e"
      using Cons p Suc.prems(1) by (simp_all add: ev_stack_def ev_quiet_def)
    then obtain ev' where e: "doneImmediate m ?e = Inr (Callback_called ev' s c)"
      "ev_stack ev' = st" "ev_quiet ev'"
      using doneImmediate_quiet by blast
    then have "complete_all n m ev' = (st, True)"
      using Suc.IH [of ev'] Suc.prems(2) Cons by simp
    then show ?thesis using Cons p e by (simp add: event_done_top)
  qed
qed

section \<open>Shared timeout records\<close>

record timeout_info =
  deadline :: int
  isTimedOut :: bool
  refCnt :: int

type_synonym tm_heap = "nat \<Rightarrow> timeout_info option"

definition TimeoutInfo :: "int \<Rightarrow> timeout_info" where
  "TimeoutInfo dl = \<lparr>deadline = dl, isTimedOut = False, refCnt = 0\<rparr>"

definition tm_attach :: "nat \<Rightarrow> tm_heap \<Rightarrow> fault + tm_heap" where
  "tm_attach t h = (case h t of None \<Rightarrow> Inl Dangling
     | Some i \<Rightarrow> Inr (h(t \<mapsto> i\<lparr>refCnt := refCnt i + 1\<rparr>)))"

definition tm_detach :: "nat \<Rightarrow> tm_heap \<Rightarrow> fault + tm_heap" where
  "tm_detach t h = (case h t of None \<Rightarrow> Inl Dangling
     | Some i \<Rightarrow> (let i' = i\<lparr>refCnt := refCnt i - 1\<rparr>
                 in if refCnt i' = 0 then Inr (h(t := None)) else Inr (h(t \<mapsto> i'))))"

definition tm_hasTimedOut :: "int \<Rightarrow> nat \<Rightarrow> tm_heap \<Rightarrow> fault + (bool \<times> tm_heap)" where
  "tm_hasTimedOut now t h = (case h t of None \<Rightarrow> Inl Dangling
     | Some i \<Rightarrow> (if isTimedOut i then Inr (True, h)
                 else (let r = (now \<ge> deadline i) in Inr (r, h(t \<mapsto> i\<lparr>isTimedOut := r\<rparr>)))))"

text \<open>The three \<^verbatim>\<open>setTimeoutInfo\<close> overloads, \<^verbatim>\<open>hasTimedOut\<close> and the destructor of an event.\<close>

definition setTimeoutInfo :: "nat option \<Rightarrow> stage_event \<Rightarrow> tm_heap \<Rightarrow> fault + (stage_event \<times> tm_heap)" where
  "setTimeoutInfo tmi ev h =
     (case (case tmInfo ev of None \<Rightarrow> Inr h | Some t \<Rightarrow> tm_detach t h) of
        Inl e \<Rightarrow> Inl e
      | Inr h1 \<Rightarrow>
          (case (case tmi of None \<Rightarrow> Inr h1 | Some t \<Rightarrow> tm_attach t h1) of
             Inl e \<Rightarrow> Inl e
           | Inr h2 \<Rightarrow> Inr (ev\<lparr>tmInfo := tmi\<rparr>, h2)))"

definition setTimeoutInfo_deadline ::
    "nat \<Rightarrow> int \<Rightarrow> stage_event \<Rightarrow> tm_heap \<Rightarrow> fault + (stage_event \<times> tm_heap)" where
  "setTimeoutInfo_deadline fresh dl ev h = setTimeoutInfo (Some fresh) ev (h(fresh \<mapsto> TimeoutInfo dl))"

definition setTimeoutInfo_from ::
    "stage_event \<Rightarrow> stage_event \<Rightarrow> tm_heap \<Rightarrow> fault + (stage_event \<times> tm_heap)" where
  "setTimeoutInfo_from src ev h = setTimeoutInfo (tmInfo src) ev h"

definition event_hasTimedOut :: "int \<Rightarrow> stage_event \<Rightarrow> tm_heap \<Rightarrow> fault + (bool \<times> tm_heap)" where
  "event_hasTimedOut now ev h = (case tmInfo ev of None \<Rightarrow> Inr (False, h)
     | Some t \<Rightarrow> tm_hasTimedOut now t h)"

definition event_destroy :: "stage_event \<Rightarrow> tm_heap \<Rightarrow> fault + tm_heap" where
  "event_destroy ev h = (case tmInfo ev of None \<Rightarrow> Inr h | Some t \<Rightarrow> tm_detach t h)"

text \<open>
  The counts agree with the events: a record is live exactly while some event of the program
  points to it, and its count is the number of those events.
\<close>

definition tm_users :: "(event_id \<Rightarrow> stage_event option) \<Rightarrow> nat \<Rightarrow> event_id set" where
  "tm_users evs t = {e. \<exists>ev. evs e = Some ev \<and> tmInfo ev = Some t}"

definition refs_ok :: "(event_id \<Rightarrow> stage_event option) \<Rightarrow> tm_heap \<Rightarrow> bool" where
  "refs_ok evs h \<longleftrightarrow> finite (dom evs) \<and>
     (\<forall>t. case h t of None \<Rightarrow> tm_users evs t = {}
        | Some i \<Rightarrow> tm_users evs t \<noteq> {} \<and> refCnt i = int (card (tm_users evs t)))"

lemma tm_users_finite: "finite (dom evs) \<Longrightarrow> finite (tm_users evs t)"
  by (rule finite_subset [of _ "dom evs"]) (auto simp: tm_users_def)

lemma tm_users_upd:
  "tm_users (evs(e \<mapsto> ev)) t = (if tmInfo ev = Some t then insert e (tm_users evs t)
     else tm_users evs t - {e})"
  by (auto simp: tm_users_def)

lemma tm_users_del: "tm_users (evs(e := None)) t = tm_users evs t - {e}"
  by (auto simp: tm_users_def)

lemma refs_ok_live: "refs_ok evs h \<Longrightarrow> evs e = Some ev \<Longrightarrow> tmInfo ev = Some t \<Longrightarrow> h t \<noteq> None"
  by (auto simp: refs_ok_def dest!: spec [of _ t] split: option.splits) (auto simp: tm_users_def)

text \<open>Detaching an event's record, seen as the event having no record any more.\<close>

lemma tm_detach_refs:
  assumes ok: "refs_ok evs h" and e: "evs e = Some ev" "tmInfo ev = Some t"
  shows "\<exists>h'. tm_detach t h = Inr h' \<and> refs_ok (evs(e \<mapsto> ev\<lparr>tmInfo := None\<rparr>)) h' \<and>
    (\<forall>t'. t' \<noteq> t \<longrightarrow> h' t' = h t') \<and> (h' t = None \<longleftrightarrow> tm_users evs t = {e})"
proof -
  have u: "e \<in> tm_users evs t" using e by (simp add: tm_users_def)
  have fin: "finite (tm_users evs t)" using ok tm_users_finite by (simp add: refs_ok_def)
  obtain i where i: "h t = Some i" using refs_ok_live [OF ok e] by auto
  have "case h t of None \<Rightarrow> tm_users evs t = {}
      | Some i \<Rightarrow> tm_users evs t \<noteq> {} \<and> refCnt i = int (card (tm_users evs t))"
    using ok unfolding refs_ok_def by blast
  then have c: "refCnt i = int (card (tm_users evs t))" by (simp add: i)
  define h' where "h' = (if refCnt i - 1 = 0 then h(t := None) else h(t \<mapsto> i\<lparr>refCnt := refCnt i - 1\<rparr>))"
  have d: "tm_detach t h = Inr h'" by (simp add: tm_detach_def i h'_def Let_def)
  have card: "int (card (tm_users evs t - {e})) = refCnt i - 1"
    using u fin c card_Diff_singleton [of e "tm_users evs t"] card_gt_0_iff [of "tm_users evs t"]
    by auto
  have z: "refCnt i - 1 = 0 \<longleftrightarrow> tm_users evs t - {e} = {}"
    using card fin by (metis card_eq_0_iff finite_Diff of_nat_eq_0_iff)
  have "refs_ok (evs(e \<mapsto> ev\<lparr>tmInfo := None\<rparr>)) h'"
    unfolding refs_ok_def
  proof (intro conjI allI)
    show "finite (dom (evs(e \<mapsto> ev\<lparr>tmInfo := None\<rparr>)))" using ok by (simp add: refs_ok_def)
    fix t'
    have s: "tm_users (evs(e \<mapsto> ev\<lparr>tmInfo := None\<rparr>)) t' = tm_users evs t' - {e}"
      by (simp add: tm_users_upd)
    have o: "t' \<noteq> t \<Longrightarrow> tm_users evs t' - {e} = tm_users evs t'" using e by (auto simp: tm_users_def)
    show "case h' t' of None \<Rightarrow> tm_users (evs(e \<mapsto> ev\<lparr>tmInfo := None\<rparr>)) t' = {}
        | Some i \<Rightarrow> tm_users (evs(e \<mapsto> ev\<lparr>tmInfo := None\<rparr>)) t' \<noteq> {} \<and>
            refCnt i = int (card (tm_users (evs(e \<mapsto> ev\<lparr>tmInfo := None\<rparr>)) t'))"
    proof (cases "t' = t")
      case True
      then show ?thesis unfolding s using z card by (simp add: h'_def)
    next
      case False
      then have "h' t' = h t'" by (simp add: h'_def)
      then show ?thesis unfolding s o [OF False] using ok unfolding refs_ok_def by presburger
    qed
  qed
  moreover have "h' t = None \<longleftrightarrow> tm_users evs t = {e}"
    using z u by (auto simp: h'_def)
  ultimately show ?thesis using d by (auto simp: h'_def)
qed

lemma tm_attach_refs:
  assumes ok: "refs_ok evs h" and e: "evs e = Some ev" "tmInfo ev = None" and t: "h t = Some i"
  shows "\<exists>h'. tm_attach t h = Inr h' \<and> refs_ok (evs(e \<mapsto> ev\<lparr>tmInfo := Some t\<rparr>)) h'"
proof -
  have fin: "finite (tm_users evs t)" using ok tm_users_finite by (simp add: refs_ok_def)
  have ne: "e \<notin> tm_users evs t'" for t' using e by (simp add: tm_users_def)
  let ?h = "h(t \<mapsto> i\<lparr>refCnt := refCnt i + 1\<rparr>)" and ?evs = "evs(e \<mapsto> ev\<lparr>tmInfo := Some t\<rparr>)"
  have all: "case h t' of None \<Rightarrow> tm_users evs t' = {}
      | Some i \<Rightarrow> tm_users evs t' \<noteq> {} \<and> refCnt i = int (card (tm_users evs t'))" for t'
    using ok unfolding refs_ok_def by blast
  have "case ?h t' of None \<Rightarrow> tm_users ?evs t' = {}
      | Some i \<Rightarrow> tm_users ?evs t' \<noteq> {} \<and> refCnt i = int (card (tm_users ?evs t'))" for t'
  proof (cases "t' = t")
    case True
    then show ?thesis using all [of t] ne [of t] fin t by (simp add: tm_users_upd)
  next
    case False
    then have u: "tm_users ?evs t' = tm_users evs t'" using ne [of t'] by (simp add: tm_users_upd)
    have "?h t' = h t'" using False by simp
    then show ?thesis using all [of t'] unfolding u by simp
  qed
  then have "refs_ok ?evs ?h" using ok by (simp add: refs_ok_def)
  then show ?thesis by (simp add: tm_attach_def t)
qed

lemma refs_ok_same: "refs_ok evs h \<Longrightarrow> evs e = Some ev \<Longrightarrow> refs_ok (evs(e \<mapsto> ev)) h"
  by (simp add: fun_upd_idem)

text \<open>Dropping the event's own record, whether it has one or not.\<close>

lemma drop_refs:
  assumes ok: "refs_ok evs h" and e: "evs e = Some ev"
  shows "\<exists>h1. (case tmInfo ev of None \<Rightarrow> Inr h | Some t \<Rightarrow> tm_detach t h) = Inr h1 \<and>
    refs_ok (evs(e \<mapsto> ev\<lparr>tmInfo := None\<rparr>)) h1 \<and>
    (\<forall>t. tm_users evs t - {e} \<noteq> {} \<longrightarrow> h1 t \<noteq> None)"
proof (cases "tmInfo ev")
  case None
  then have eq: "ev\<lparr>tmInfo := None\<rparr> = ev" by simp
  have "refs_ok (evs(e \<mapsto> ev\<lparr>tmInfo := None\<rparr>)) h" unfolding eq by (rule refs_ok_same [OF ok e])
  moreover have "h t \<noteq> None" if "tm_users evs t - {e} \<noteq> {}" for t
  proof -
    have "case h t of None \<Rightarrow> tm_users evs t = {}
      | Some i \<Rightarrow> tm_users evs t \<noteq> {} \<and> refCnt i = int (card (tm_users evs t))"
      using ok unfolding refs_ok_def by blast
    with that show ?thesis by (auto split: option.splits)
  qed
  ultimately show ?thesis using None by simp
next
  case (Some t)
  obtain h' where h': "tm_detach t h = Inr h'" "refs_ok (evs(e \<mapsto> ev\<lparr>tmInfo := None\<rparr>)) h'"
    "\<forall>t'. t' \<noteq> t \<longrightarrow> h' t' = h t'" "h' t = None \<longleftrightarrow> tm_users evs t = {e}"
    using tm_detach_refs [OF ok e Some] by (elim exE conjE) (rule that)
  have "h' t2 \<noteq> None" if u: "tm_users evs t2 - {e} \<noteq> {}" for t2
  proof (cases "t2 = t")
    case True
    with u h'(4) show ?thesis by auto
  next
    case False
    have "case h t2 of None \<Rightarrow> tm_users evs t2 = {}
      | Some i \<Rightarrow> tm_users evs t2 \<noteq> {} \<and> refCnt i = int (card (tm_users evs t2))"
      using ok unfolding refs_ok_def by blast
    with False u h'(3) show ?thesis by (auto split: option.splits)
  qed
  with h' Some show ?thesis by auto
qed

lemma setTimeoutInfo_refs:
  assumes ok: "refs_ok evs h" and e: "evs e = Some ev"
    and t: "\<And>t. tmi = Some t \<Longrightarrow> tm_users evs t - {e} \<noteq> {}"
  shows "\<exists>ev' h'. setTimeoutInfo tmi ev h = Inr (ev', h') \<and> ev' = ev\<lparr>tmInfo := tmi\<rparr> \<and>
    refs_ok (evs(e \<mapsto> ev')) h'"
proof -
  obtain h1 where h1: "(case tmInfo ev of None \<Rightarrow> Inr h | Some t \<Rightarrow> tm_detach t h) = Inr h1"
    "refs_ok (evs(e \<mapsto> ev\<lparr>tmInfo := None\<rparr>)) h1"
    "\<forall>t. tm_users evs t - {e} \<noteq> {} \<longrightarrow> h1 t \<noteq> None"
    using drop_refs [OF ok e] by blast
  show ?thesis
  proof (cases tmi)
    case None
    then show ?thesis using h1 by (simp add: setTimeoutInfo_def)
  next
    case (Some t)
    then obtain i where "h1 t = Some i" using assms(3) h1(3) by blast
    from tm_attach_refs [OF h1(2) _ _ this, of e "ev\<lparr>tmInfo := None\<rparr>"]
    obtain h2 where "tm_attach t h1 = Inr h2" "refs_ok (evs(e \<mapsto> ev\<lparr>tmInfo := Some t\<rparr>)) h2"
      by auto
    then show ?thesis using h1(1) Some by (simp add: setTimeoutInfo_def)
  qed
qed

fun push_all :: "(stage_id \<times> nat option) list \<Rightarrow> stage_event \<Rightarrow> fault + stage_event" where
  "push_all [] ev = Inr ev"
| "push_all ((s, c) # ps) ev = (case pushCallback (CompletionCallback False s c) ev of
     Inl e \<Rightarrow> Inl e | Inr ev' \<Rightarrow> push_all ps ev')"

lemma push_all_stack:
  "ev_quiet ev \<Longrightarrow> \<exists>ev'. push_all ps ev = Inr ev' \<and> ev_stack ev' = rev ps @ ev_stack ev \<and> ev_quiet ev'"
proof (induction ps arbitrary: ev)
  case (Cons p ps)
  obtain s c where p: "p = (s, c)" by (cases p)
  let ?e = "ev\<lparr>compCB := Some (Callback s c (compCB ev) False)\<rparr>"
  have "pushCallback (CompletionCallback False s c) ev = Inr ?e"
    by (simp add: pushCallback_def CompletionCallback_def)
  moreover have "ev_stack ?e = (s, c) # ev_stack ev" "ev_quiet ?e"
    using Cons.prems by (simp_all add: ev_stack_def ev_quiet_def)
  ultimately show ?case using Cons.IH [of ?e] p by auto
qed simp

section \<open>Properties\<close>


text \<open>C13: giving an event the timeout record of another live event keeps every reference count
  equal to the number of events that use the record (so no record is freed while used, and none
  leaks), and never touches a freed record.\<close>

theorem timeout_share_counts:
  assumes "refs_ok evs h" "evs e = Some ev" "evs e2 = Some src" "e \<noteq> e2"
  shows "\<exists>ev' h'. setTimeoutInfo_from src ev h = Inr (ev', h') \<and> tmInfo ev' = tmInfo src \<and>
    refs_ok (evs(e \<mapsto> ev')) h'"
proof -
  have "tm_users evs t - {e} \<noteq> {}" if "tmInfo src = Some t" for t
    using that assms(3,4) by (auto simp: tm_users_def)
  from setTimeoutInfo_refs [OF assms(1,2) this]
  obtain ev' h' where "setTimeoutInfo (tmInfo src) ev h = Inr (ev', h')"
    "ev' = ev\<lparr>tmInfo := tmInfo src\<rparr>" "refs_ok (evs(e \<mapsto> ev')) h'" by blast
  then show ?thesis unfolding setTimeoutInfo_from_def by auto
qed

theorem timeout_share_counts_witness:
  "\<exists>ev' h'. setTimeoutInfo_from (StageEvent\<lparr>tmInfo := Some 7\<rparr>) StageEvent
     [7 \<mapsto> \<lparr>deadline = 5, isTimedOut = False, refCnt = 1\<rparr>] = Inr (ev', h') \<and>
     tmInfo ev' = tmInfo (StageEvent\<lparr>tmInfo := Some 7\<rparr>) \<and>
     refs_ok ([1 \<mapsto> StageEvent, 2 \<mapsto> StageEvent\<lparr>tmInfo := Some 7\<rparr>](1 \<mapsto> ev')) h'"
proof (rule timeout_share_counts)
  have "tm_users [1 \<mapsto> StageEvent, 2 \<mapsto> StageEvent\<lparr>tmInfo := Some 7\<rparr>] t = (if t = 7 then {2} else {})" for t
    by (auto simp: tm_users_def StageEvent_def)
  then show "refs_ok [1 \<mapsto> StageEvent, 2 \<mapsto> StageEvent\<lparr>tmInfo := Some 7\<rparr>]
      [7 \<mapsto> \<lparr>deadline = 5, isTimedOut = False, refCnt = 1\<rparr>]"
    by (auto simp: refs_ok_def)
qed (auto simp: StageEvent_def)

text \<open>Destroying an event releases its timeout record and keeps all counts right; the record
  is freed exactly when the event was its last user.\<close>

lemma event_destroy_counts:
  assumes "refs_ok evs h" "evs e = Some ev"
  shows "\<exists>h'. event_destroy ev h = Inr h' \<and> refs_ok (evs(e := None)) h' \<and>
    (\<forall>t. h' t = None \<longleftrightarrow> tm_users evs t - {e} = {})"
proof -
  obtain h1 where h1: "event_destroy ev h = Inr h1"
    "refs_ok (evs(e \<mapsto> ev\<lparr>tmInfo := None\<rparr>)) h1"
    "\<forall>t. tm_users evs t - {e} \<noteq> {} \<longrightarrow> h1 t \<noteq> None"
    using drop_refs [OF assms] unfolding event_destroy_def by blast
  have u: "tm_users (evs(e \<mapsto> ev\<lparr>tmInfo := None\<rparr>)) t = tm_users (evs(e := None)) t" for t
    by (simp add: tm_users_upd tm_users_del)
  have r: "refs_ok (evs(e := None)) h1"
    using h1(2) unfolding refs_ok_def u by simp
  have "h1 t = None" if "tm_users evs t - {e} = {}" for t
  proof -
    have "case h1 t of None \<Rightarrow> tm_users (evs(e := None)) t = {}
      | Some i \<Rightarrow> tm_users (evs(e := None)) t \<noteq> {} \<and> refCnt i = int (card (tm_users (evs(e := None)) t))"
      using r unfolding refs_ok_def by blast
    with that show ?thesis by (auto simp: tm_users_del split: option.splits)
  qed
  with h1 r show ?thesis by blast
qed

text \<open>A timeout, once seen, stays: the answer does not follow the clock back.\<close>

lemma timeout_latched:
  assumes "tm_hasTimedOut now t h = Inr (True, h')"
  shows "tm_hasTimedOut later t h' = Inr (True, h')"
  using assms by (auto simp: tm_hasTimedOut_def Let_def split: option.splits if_splits)

text \<open>An event that is handed its own record while it is the only user of it reads freed memory:
  the old record is detached, and so deleted, before the new one is attached.\<close>

lemma setTimeoutInfo_self:
  assumes "h t = Some i" "refCnt i = 1" "tmInfo ev = Some t"
  shows "setTimeoutInfo_from ev ev h = Inl Dangling"
  using assms by (simp add: setTimeoutInfo_from_def setTimeoutInfo_def tm_detach_def tm_attach_def)

end
