(* ===== verification/Seda.thy ===== *)
theory Seda
  imports Events
begin

text \<open>
  Stages and thread pools (src/seda/stage.cpp, threadpool.cpp, killthread.cpp). The first part
  has the operations of a stage and of a pool as functions on their state, the second their
  interleaving as a step relation: what a thread does while it holds a mutex is one step, and
  between two steps any other thread may run.
\<close>

section \<open>A stage\<close>

record stage =
  eventList :: "event_id list"
  connected :: bool
  eventRef :: nat        \<comment> \<open>unsigned long\<close>
  thPool :: "nat option"
  nextStageList :: "stage_id list"

definition Stage_new :: stage where
  "Stage_new = \<lparr>eventList = [], connected = False, eventRef = 0, thPool = None, nextStageList = []\<rparr>"

definition setPool :: "nat \<Rightarrow> stage \<Rightarrow> fault + stage" where
  "setPool th s = (if connected s then Inl Assert_failed else Inr (s\<lparr>thPool := Some th\<rparr>))"

definition pushStage :: "stage_id \<Rightarrow> stage \<Rightarrow> fault + stage" where
  "pushStage st s = (if connected s then Inl Assert_failed
     else Inr (s\<lparr>nextStageList := nextStageList s @ [st]\<rparr>))"

text \<open>
  \<^verbatim>\<open>connect()\<close>: \<open>init\<close> is what the virtual \<^verbatim>\<open>initialize()\<close> answers; the second
  component is the number of times the pool has to be called with this stage.
\<close>

definition Stage_connect :: "bool \<Rightarrow> stage \<Rightarrow> fault + (stage \<times> nat \<times> bool)" where
  "Stage_connect init s =
     (if connected s \<or> thPool s = None then Inl Assert_failed
      else if init then
        (let backlog = length (eventList s)
         in Inr (s\<lparr>eventRef := backlog, connected := True\<rparr>, backlog, True))
      else Inr (s, 0, False))"

text \<open>\<^verbatim>\<open>disconnect()\<close> up to its wait, and from the end of its wait.\<close>

definition disconnect_begin :: "stage \<Rightarrow> fault + stage" where
  "disconnect_begin s = (if connected s then Inr (s\<lparr>connected := False\<rparr>) else Inl Assert_failed)"

definition disconnect_end :: "stage \<Rightarrow> stage" where
  "disconnect_end s = s\<lparr>thPool := None, nextStageList := []\<rparr>"

text \<open>\<^verbatim>\<open>addEvent\<close>: the flag tells whether the pool is to be called.\<close>

definition addEvent :: "event_id \<Rightarrow> stage \<Rightarrow> fault + (stage \<times> bool)" where
  "addEvent ev s =
     (let s1 = s\<lparr>eventList := eventList s @ [ev]\<rparr>
      in if connected s1 then
           (if thPool s1 = None then Inl Assert_failed
            else Inr (s1\<lparr>eventRef := eventRef s1 + 1\<rparr>, True))
         else Inr (s1, False))"

definition qlen :: "stage \<Rightarrow> nat" where
  "qlen s = length (eventList s)"

definition qempty :: "stage \<Rightarrow> bool" where
  "qempty s = (eventList s = [])"

definition removeEvent :: "stage \<Rightarrow> fault + (event_id \<times> stage)" where
  "removeEvent s = (case eventList s of [] \<Rightarrow> Inl Assert_failed
     | se # es \<Rightarrow> Inr (se, s\<lparr>eventList := es\<rparr>))"

text \<open>\<^verbatim>\<open>releaseEvent\<close>: the flag is the signal to the disconnecting thread; the counter is unsigned.\<close>

definition releaseEvent :: "stage \<Rightarrow> stage \<times> bool" where
  "releaseEvent s =
     (let r = (if eventRef s = 0 then 2 ^ 64 - 1 else eventRef s - 1);
          s' = s\<lparr>eventRef := r\<rparr>
      in (s', \<not> connected s' \<and> r = 0))"

section \<open>A thread pool\<close>

record pool =
  runQueue :: "stage_id list"
  nIdles :: nat
  nthreads :: nat
  threadsToKill :: nat

definition pool_new :: pool where
  "pool_new = \<lparr>runQueue = [], nIdles = 0, nthreads = 0, threadsToKill = 0\<rparr>"

text \<open>
  \<^verbatim>\<open>schedule\<close>: \<open>own\<close> says that the caller is a thread of this pool, \<open>qe\<close> is the
  stage's \<^verbatim>\<open>qempty()\<close>; the flag is the signal to a waiting thread.
\<close>

definition schedule :: "bool \<Rightarrow> bool \<Rightarrow> stage_id \<Rightarrow> pool \<Rightarrow> fault + (pool \<times> bool)" where
  "schedule own qe stageP p =
     (if qe then Inl Assert_failed
      else let wasEmpty = (runQueue p = []);
               p' = p\<lparr>runQueue := runQueue p @ [stageP]\<rparr>;
               signal = ((\<not> wasEmpty \<or> \<not> own) \<and> nIdles p' > 0)
           in Inr (p', signal))"

text \<open>The worker loop under \<^verbatim>\<open>runMutex\<close>: go to sleep, come back from sleep, take a stage.\<close>

definition run_sleep :: "pool \<Rightarrow> pool" where
  "run_sleep p = p\<lparr>nIdles := nIdles p + 1\<rparr>"

definition run_wake :: "pool \<Rightarrow> pool" where
  "run_wake p = p\<lparr>nIdles := nIdles p - 1\<rparr>"

definition run_take :: "pool \<Rightarrow> (stage_id \<times> pool) option" where
  "run_take p = (case runQueue p of [] \<Rightarrow> None | s # q \<Rightarrow> Some (s, p\<lparr>runQueue := q\<rparr>))"

text \<open>
  \<^verbatim>\<open>addThreads\<close>: \<open>created\<close> lists the answers of \<^verbatim>\<open>pthread_create\<close>; the loop stops at
  the first failure.
\<close>

definition addThreads :: "nat \<Rightarrow> bool list \<Rightarrow> pool \<Rightarrow> pool \<times> nat" where
  "addThreads threads created p =
     (let i = length (takeWhile id (take threads created))
      in (p\<lparr>nthreads := nthreads p + i\<rparr>, i))"

text \<open>
  \<^verbatim>\<open>killThreads\<close> up to its wait on \<^verbatim>\<open>threadCond\<close>: None when a kill is already under way,
  else the number of kill events handed to the killer stage. \<open>alloc\<close> is how many events
  \<^verbatim>\<open>new\<close> can make.
\<close>

definition genKillThreadEvents :: "nat \<Rightarrow> nat \<Rightarrow> nat" where
  "genKillThreadEvents alloc toKill = min alloc toKill"

definition killThreads_begin :: "nat \<Rightarrow> nat \<Rightarrow> pool \<Rightarrow> pool \<times> nat option" where
  "killThreads_begin alloc threads p =
     (if threadsToKill p > 0 then (p, None)
      else let threads' = (if threads > nthreads p then nthreads p else threads);
               i = genKillThreadEvents alloc threads'
           in (p\<lparr>threadsToKill := i\<rparr>, Some i))"

text \<open>\<^verbatim>\<open>threadKill\<close>, run by a worker that handles a kill event; the flag signals \<^verbatim>\<open>threadCond\<close>.\<close>

definition threadKill :: "pool \<Rightarrow> pool \<times> bool" where
  "threadKill p = (let p' = p\<lparr>nthreads := nthreads p - 1, threadsToKill := threadsToKill p - 1\<rparr>
     in (p', threadsToKill p' = 0))"

section \<open>The queues are first-in first-out\<close>

definition stage_enq :: "event_id \<Rightarrow> stage \<Rightarrow> stage" where
  "stage_enq ev s = (case addEvent ev s of Inr (s', _) \<Rightarrow> s' | Inl _ \<Rightarrow> s)"

definition stage_deq :: "stage \<Rightarrow> (event_id \<times> stage) option" where
  "stage_deq s = (case removeEvent s of Inr r \<Rightarrow> Some r | Inl _ \<Rightarrow> None)"

definition stage_ok :: "stage \<Rightarrow> bool" where
  "stage_ok s \<longleftrightarrow> (connected s \<longrightarrow> thPool s \<noteq> None)"

interpretation stage_q: fifo stage_enq stage_deq eventList stage_ok
  by unfold_locales
    (auto simp: stage_enq_def stage_deq_def stage_ok_def addEvent_def removeEvent_def Let_def
      split: list.splits if_splits)

definition pool_enq :: "stage_id \<Rightarrow> pool \<Rightarrow> pool" where
  "pool_enq st p = (case schedule True False st p of Inr (p', _) \<Rightarrow> p' | Inl _ \<Rightarrow> p)"

interpretation run_q: fifo pool_enq run_take runQueue "\<lambda>_. True"
  by unfold_locales (auto simp: pool_enq_def schedule_def run_take_def Let_def split: list.splits)

section \<open>The pool, its workers and the stages they serve, step by step\<close>

text \<open>
  A worker is at the top of its loop, asleep in \<^verbatim>\<open>pthread_cond_wait\<close>, woken but not yet
  counted out of \<^verbatim>\<open>nIdles\<close>, holding a stage it took from the run queue, handling an event of
  a stage (with the \<^verbatim>\<open>schedule\<close> calls it still has to make for the event it added), between
  \<^verbatim>\<open>threadKill\<close> and the end of the kill handler, or gone.
\<close>

datatype phase = Top | Waiting | Woken | Picked stage_id | Handling stage_id event_id "stage_id list"
  | Dying event_id | Exited

text \<open>The killer stage of the pool (\<^verbatim>\<open>KillThreadStage\<close>), whose handler ends its thread.\<close>

abbreviation (input) killer :: stage_id where "killer \<equiv> 0"

record sys =
  stg :: "stage_id \<Rightarrow> stage"
  pl :: pool
  thr :: "phase list"
  ext :: "stage_id list"          \<comment> \<open>\<^verbatim>\<open>schedule\<close> calls other threads have still to make\<close>
  disc :: "stage_id \<Rightarrow> bool"     \<comment> \<open>a thread waits in \<^verbatim>\<open>disconnect()\<close> of this stage\<close>
  kwait :: bool                   \<comment> \<open>a thread waits on \<^verbatim>\<open>threadCond\<close> in \<^verbatim>\<open>killThreads\<close>\<close>

text \<open>\<^verbatim>\<open>pthread_cond_signal\<close>: wakes one waiting thread if there is one.\<close>

definition signalled :: "bool \<Rightarrow> phase list \<Rightarrow> phase list \<Rightarrow> bool" where
  "signalled sig ts ts' \<longleftrightarrow>
     (if sig \<and> Waiting \<in> set ts then \<exists>as bs. ts = as @ Waiting # bs \<and> ts' = as @ Woken # bs
      else ts' = ts)"

text \<open>The \<^verbatim>\<open>addEvent\<close> calls of \<^verbatim>\<open>genKillThreadEvents\<close> on the connected killer stage.\<close>

fun addEvents :: "event_id list \<Rightarrow> stage \<Rightarrow> fault + stage" where
  "addEvents [] s = Inr s"
| "addEvents (e # es) s = (case addEvent e s of Inl f \<Rightarrow> Inl f | Inr (s', _) \<Rightarrow> addEvents es s')"

inductive seda_step :: "sys \<Rightarrow> sys \<Rightarrow> bool" where
  ext_add: "s \<noteq> killer \<Longrightarrow> addEvent e (stg x s) = Inr (st', sched) \<Longrightarrow>
     seda_step x (x\<lparr>stg := (stg x)(s := st'), ext := ext x @ (if sched then [s] else [])\<rparr>)"
| ext_schedule: "ext x = es @ s # fs \<Longrightarrow> schedule False (qempty (stg x s)) s (pl x) = Inr (p', sig) \<Longrightarrow>
     signalled sig (thr x) ts \<Longrightarrow>
     seda_step x (x\<lparr>pl := p', thr := ts, ext := es @ fs\<rparr>)"
| worker_add: "thr x = as @ Handling s e [] # bs \<Longrightarrow> s \<noteq> killer \<Longrightarrow> s2 \<noteq> killer \<Longrightarrow>
     addEvent e' (stg x s2) = Inr (st', sched) \<Longrightarrow>
     seda_step x (x\<lparr>stg := (stg x)(s2 := st'),
        thr := as @ Handling s e (if sched then [s2] else []) # bs\<rparr>)"
| worker_schedule: "thr x = as @ Handling s e (s2 # os) # bs \<Longrightarrow> s \<noteq> killer \<Longrightarrow>
     schedule True (qempty (stg x s2)) s2 (pl x) = Inr (p', sig) \<Longrightarrow>
     signalled sig (as @ Handling s e os # bs) ts \<Longrightarrow>
     seda_step x (x\<lparr>pl := p', thr := ts\<rparr>)"
| worker_sleep: "thr x = as @ Top # bs \<Longrightarrow> runQueue (pl x) = [] \<Longrightarrow>
     seda_step x (x\<lparr>pl := run_sleep (pl x), thr := as @ Waiting # bs\<rparr>)"
| worker_spurious: "thr x = as @ Waiting # bs \<Longrightarrow>
     seda_step x (x\<lparr>thr := as @ Woken # bs\<rparr>)"
| worker_wake: "thr x = as @ Woken # bs \<Longrightarrow>
     seda_step x (x\<lparr>pl := run_wake (pl x), thr := as @ Top # bs\<rparr>)"
| worker_take: "thr x = as @ Top # bs \<Longrightarrow> run_take (pl x) = Some (s, p') \<Longrightarrow>
     seda_step x (x\<lparr>pl := p', thr := as @ Picked s # bs\<rparr>)"
| worker_remove: "thr x = as @ Picked s # bs \<Longrightarrow> removeEvent (stg x s) = Inr (e, st') \<Longrightarrow>
     seda_step x (x\<lparr>stg := (stg x)(s := st'), thr := as @ Handling s e [] # bs\<rparr>)"
| worker_release: "thr x = as @ Handling s e [] # bs \<Longrightarrow> s \<noteq> killer \<Longrightarrow>
     seda_step x (x\<lparr>stg := (stg x)(s := fst (releaseEvent (stg x s))), thr := as @ Top # bs\<rparr>)"
| worker_kill: "thr x = as @ Handling killer e [] # bs \<Longrightarrow> threadKill (pl x) = (p', sig) \<Longrightarrow>
     seda_step x (x\<lparr>pl := p', thr := as @ Dying e # bs, kwait := (kwait x \<and> \<not> sig)\<rparr>)"
| worker_exit: "thr x = as @ Dying e # bs \<Longrightarrow>
     seda_step x (x\<lparr>stg := (stg x)(killer := fst (releaseEvent (stg x killer))), thr := as @ Exited # bs\<rparr>)"
| spawn: "addThreads n created (pl x) = (p', i) \<Longrightarrow>
     seda_step x (x\<lparr>pl := p', thr := thr x @ replicate i Top\<rparr>)"
| kill: "setPool th (stg x killer) = Inr s1 \<Longrightarrow> \<not> disc x killer \<Longrightarrow> Stage_connect True s1 = Inr (s2, b, r) \<Longrightarrow>
     killThreads_begin alloc n (pl x) = (p', Some (length es)) \<Longrightarrow> addEvents es s2 = Inr s3 \<Longrightarrow>
     seda_step x (x\<lparr>stg := (stg x)(killer := s3), pl := p', ext := ext x @ replicate b killer @ replicate (length es) killer,
        kwait := True\<rparr>)"
| set_pool: "\<not> disc x s \<Longrightarrow> setPool th (stg x s) = Inr st' \<Longrightarrow>
     seda_step x (x\<lparr>stg := (stg x)(s := st')\<rparr>)"
| connect: "s \<noteq> killer \<Longrightarrow> \<not> disc x s \<Longrightarrow> Stage_connect ini (stg x s) = Inr (st', n, r) \<Longrightarrow>
     seda_step x (x\<lparr>stg := (stg x)(s := st'), ext := ext x @ replicate n s\<rparr>)"
| disconnect: "(s = killer \<longrightarrow> \<not> kwait x) \<Longrightarrow> disconnect_begin (stg x s) = Inr st' \<Longrightarrow>
     seda_step x (x\<lparr>stg := (stg x)(s := st'), disc := (disc x)(s := True)\<rparr>)"
| disconnected: "disc x s \<Longrightarrow> eventRef (stg x s) = 0 \<Longrightarrow>
     seda_step x (x\<lparr>stg := (stg x)(s := disconnect_end (stg x s)), disc := (disc x)(s := False)\<rparr>)"

definition seda_start :: "sys \<Rightarrow> bool" where
  "seda_start x \<longleftrightarrow> x = \<lparr>stg = (\<lambda>_. Stage_new), pl = pool_new, thr = [], ext = [],
     disc = (\<lambda>_. False), kwait = False\<rparr>"

section \<open>The invariant\<close>

text \<open>How often a worker stands for a pending \<^verbatim>\<open>removeEvent\<close> of a stage, and for an event in hand.\<close>

fun w_sched :: "stage_id \<Rightarrow> phase \<Rightarrow> nat" where
  "w_sched s (Picked s') = (if s = s' then 1 else 0)"
| "w_sched s (Handling s' e os) = count_list os s"
| "w_sched s _ = 0"

fun w_hand :: "stage_id \<Rightarrow> phase \<Rightarrow> nat" where
  "w_hand s (Handling s' e os) = (if s = s' then 1 else 0)"
| "w_hand s (Dying e) = (if s = killer then 1 else 0)"
| "w_hand s _ = 0"

fun w_idle :: "phase \<Rightarrow> nat" where
  "w_idle Waiting = 1" | "w_idle Woken = 1" | "w_idle _ = 0"

text \<open>A worker that will look at the run queue again, one that handles a kill event, and one \<^verbatim>\<open>nthreads\<close> counts.\<close>

fun w_awake :: "phase \<Rightarrow> nat" where
  "w_awake Top = 1" | "w_awake Woken = 1"
| "w_awake (Picked s) = (if s = killer then 0 else 1)"
| "w_awake (Handling s e os) = (if s = killer then 0 else 1)"
| "w_awake _ = 0"

fun w_kill :: "phase \<Rightarrow> nat" where
  "w_kill (Handling s e os) = (if s = killer then 1 else 0)" | "w_kill _ = 0"

fun w_live :: "phase \<Rightarrow> nat" where
  "w_live (Dying e) = 0" | "w_live Exited = 0" | "w_live _ = 1"

primrec total :: "(phase \<Rightarrow> nat) \<Rightarrow> phase list \<Rightarrow> nat" where
  "total f [] = 0"
| "total f (p # ts) = f p + total f ts"

definition n_sched :: "sys \<Rightarrow> stage_id \<Rightarrow> nat" where
  "n_sched x s = count_list (runQueue (pl x)) s + count_list (ext x) s + total (w_sched s) (thr x)"

definition n_hand :: "sys \<Rightarrow> stage_id \<Rightarrow> nat" where
  "n_hand x s = total (w_hand s) (thr x)"

text \<open>
  The event counter of a stage counts the events of its that are scheduled or in hand; a connected
  stage has every event of its list scheduled exactly once.
\<close>

definition stage_inv :: "sys \<Rightarrow> stage_id \<Rightarrow> bool" where
  "stage_inv x s \<longleftrightarrow> stage_ok (stg x s) \<and> (disc x s \<longrightarrow> \<not> connected (stg x s)) \<and>
     eventRef (stg x s) = n_sched x s + n_hand x s \<and>
     n_sched x s \<le> length (eventList (stg x s)) \<and>
     (connected (stg x s) \<longrightarrow> n_sched x s = length (eventList (stg x s))) \<and>
     (\<not> connected (stg x s) \<and> \<not> disc x s \<longrightarrow> eventRef (stg x s) = 0)"

definition pool_inv :: "sys \<Rightarrow> bool" where
  "pool_inv x \<longleftrightarrow> nIdles (pl x) = total w_idle (thr x) \<and>
     (Waiting \<in> set (thr x) \<longrightarrow> length (runQueue (pl x)) \<le> total w_awake (thr x))"

definition kill_inv :: "sys \<Rightarrow> bool" where
  "kill_inv x \<longleftrightarrow> nthreads (pl x) = total w_live (thr x) \<and>
     threadsToKill (pl x) = length (eventList (stg x killer)) + total w_kill (thr x) \<and>
     threadsToKill (pl x) \<le> nthreads (pl x) \<and>
     (kwait x \<longrightarrow> connected (stg x killer))"

definition seda_inv :: "sys \<Rightarrow> bool" where
  "seda_inv x \<longleftrightarrow> (\<forall>s. stage_inv x s) \<and> pool_inv x \<and> kill_inv x"

lemma total_append [simp]: "total f (as @ bs) = total f as + total f bs"
  by (induction as) auto

lemma total_replicate [simp]: "total f (replicate n p) = n * f p"
  by (induction n) auto

lemma count_list_replicate': "count_list (replicate n a) b = (if a = b then n else 0)"
  by (induction n) auto

lemma signalled_total:
  assumes "signalled sig ts ts'" "f Waiting = f Woken"
  shows "total f ts' = total f ts"
  using assms by (auto simp: signalled_def split: if_splits)

lemma signalled_awake:
  "signalled sig ts ts' \<Longrightarrow> total w_awake ts' = total w_awake ts + (if sig \<and> Waiting \<in> set ts then 1 else 0)"
  by (auto simp: signalled_def split: if_splits)

lemma signalled_Waiting: "signalled sig ts ts' \<Longrightarrow> Waiting \<in> set ts' \<Longrightarrow> Waiting \<in> set ts"
  by (auto simp: signalled_def split: if_splits)

lemma signalled_exists: "\<exists>ts'. signalled sig ts ts'"
  unfolding signalled_def by (cases "sig \<and> Waiting \<in> set ts") (auto dest: split_list)

lemma Waiting_idle: "Waiting \<in> set ts \<Longrightarrow> 0 < total w_idle ts"
  by (induction ts) auto

lemma signalled_totals:
  assumes "signalled sig ts ts'"
  shows "total (w_sched s) ts' = total (w_sched s) ts" "total (w_hand s) ts' = total (w_hand s) ts"
    "total w_idle ts' = total w_idle ts" "total w_kill ts' = total w_kill ts" "total w_live ts' = total w_live ts"
  by (auto intro!: signalled_total [OF assms])

lemma schedule_Inr: "schedule own qe s p = Inr (p', sig) \<longleftrightarrow>
    \<not> qe \<and> p' = p\<lparr>runQueue := runQueue p @ [s]\<rparr> \<and> (sig \<longleftrightarrow> (runQueue p \<noteq> [] \<or> \<not> own) \<and> 0 < nIdles p)"
  by (auto simp: schedule_def Let_def)

lemma addEvent_Inr: "addEvent e s = Inr (s', sched) \<longleftrightarrow> (connected s \<longrightarrow> thPool s \<noteq> None) \<and> sched = connected s \<and>
    s' = s\<lparr>eventList := eventList s @ [e], eventRef := eventRef s + (if sched then 1 else 0)\<rparr>"
  by (auto simp: addEvent_def Let_def)

lemma connect_Inr: "Stage_connect ini s = Inr (s', n, r) \<longleftrightarrow> \<not> connected s \<and> thPool s \<noteq> None \<and> r = ini \<and>
    (if ini then n = length (eventList s) \<and> s' = s\<lparr>eventRef := n, connected := True\<rparr> else n = 0 \<and> s' = s)"
  by (auto simp: Stage_connect_def Let_def)

lemma setPool_Inr: "setPool th s = Inr s' \<longleftrightarrow> \<not> connected s \<and> s' = s\<lparr>thPool := Some th\<rparr>"
  by (auto simp: setPool_def)

lemma kill_begin_Some: "killThreads_begin alloc n p = (p', Some i) \<longleftrightarrow>
    threadsToKill p = 0 \<and> i = min alloc (min n (nthreads p)) \<and> p' = p\<lparr>threadsToKill := i\<rparr>"
  by (auto simp: killThreads_begin_def genKillThreadEvents_def Let_def min_def)

lemmas stage_ops = schedule_Inr addEvent_Inr connect_Inr kill_begin_Some setPool_Inr removeEvent_def releaseEvent_def
  disconnect_begin_def disconnect_end_def run_take_def run_sleep_def run_wake_def
  threadKill_def qempty_def stage_ok_def

lemmas seda_counts = stage_inv_def n_sched_def n_hand_def pool_inv_def kill_inv_def

lemma addEvents_effect:
  "addEvents es s = Inr s' \<Longrightarrow> connected s \<Longrightarrow>
     s' = s\<lparr>eventList := eventList s @ es, eventRef := eventRef s + length es\<rparr>"
proof (induction es arbitrary: s)
  case (Cons e es)
  from Cons.prems obtain s1 f where s1: "addEvent e s = Inr (s1, f)" and r: "addEvents es s1 = Inr s'"
    by (auto split: sum.splits)
  from s1 Cons.prems(2) have e: "s1 = s\<lparr>eventList := eventList s @ [e], eventRef := eventRef s + 1\<rparr>"
    by (auto simp: addEvent_def Let_def split: if_splits)
  with Cons.prems(2) have "connected s1" by simp
  from Cons.IH [OF r this] show ?case unfolding e by simp
qed simp

lemma stage_step:
  assumes "seda_step x y" "\<forall>s. stage_inv x s" "kill_inv x"
  shows "stage_inv y s"
  using assms
proof (cases rule: seda_step.cases)
  case (ext_add s2 e st' sched)
  then show ?thesis using assms(2) [rule_format, of s]
    by (auto simp: stage_ops seda_counts Let_def split: if_splits)
next
  case (ext_schedule es s2 fs p' sig ts)
  note t = signalled_totals [OF this(4)]
  show ?thesis using assms(2) [rule_format, of s] ext_schedule(1-3)
    by (auto simp: schedule_Inr qempty_def seda_counts t split: if_splits)
next
  case (worker_add as s1 e bs s2 e' st' sched)
  then show ?thesis using assms(2) [rule_format, of s]
    by (auto simp: stage_ops seda_counts Let_def split: if_splits)
next
  case (worker_schedule as s1 e s2 os bs p' sig ts)
  note t = signalled_totals [OF this(5)]
  show ?thesis using assms(2) [rule_format, of s] worker_schedule(1-4)
    by (auto simp: schedule_Inr qempty_def seda_counts t split: if_splits)
next
  case (worker_sleep as bs)
  then show ?thesis using assms(2) [rule_format, of s]
    by (auto simp: stage_ops seda_counts)
next
  case (worker_spurious as bs)
  then show ?thesis using assms(2) [rule_format, of s]
    by (auto simp: stage_ops seda_counts)
next
  case (worker_wake as bs)
  then show ?thesis using assms(2) [rule_format, of s]
    by (auto simp: stage_ops seda_counts)
next
  case (worker_take as bs s2 p')
  then show ?thesis using assms(2) [rule_format, of s]
    by (auto simp: stage_ops seda_counts split: list.splits)
next
  case (worker_remove as s2 bs e st')
  then show ?thesis using assms(2) [rule_format, of s]
    by (auto simp: stage_ops seda_counts split: list.splits)
next
  case (worker_release as s2 e bs)
  then show ?thesis using assms(2) [rule_format, of s]
    by (auto simp: stage_ops seda_counts Let_def)
next
  case (worker_kill as e bs p' sig)
  then show ?thesis using assms(2) [rule_format, of s]
    by (auto simp: stage_ops seda_counts Let_def)
next
  case (worker_exit as e bs)
  then show ?thesis using assms(2) [rule_format, of s]
    by (auto simp: stage_ops seda_counts Let_def)
next
  case (spawn n created p' i)
  then show ?thesis using assms(2) [rule_format, of s]
    by (auto simp: stage_ops seda_counts addThreads_def Let_def sum_list_replicate)
next
  case (kill th s1 s2 b r alloc n p' es s3)
  have c: "connected s2" using kill(4) by (simp add: connect_Inr)
  have q: "runQueue p' = runQueue (pl x)" and z: "threadsToKill (pl x) = 0"
    using kill(5) by (simp_all add: kill_begin_Some)
  show ?thesis
  proof (cases "s = killer")
    case True
    show ?thesis
      using assms(2) [rule_format, of s] assms(3) True kill(1-4) addEvents_effect [OF kill(6) c] q z
      by (auto simp: seda_counts stage_ok_def connect_Inr setPool_Inr count_list_replicate')
  next
    case False
    then show ?thesis using kill(1) assms(2) [rule_format, of s] q
      by (auto simp: seda_counts stage_ok_def count_list_replicate')
  qed
next
  case (set_pool s2 th st')
  then show ?thesis using assms(2) [rule_format, of s]
    by (auto simp: stage_ops seda_counts split: if_splits)
next
  case (connect s2 ini st' n r)
  then show ?thesis using assms(2) [rule_format, of s]
    by (auto simp: stage_ops seda_counts Let_def count_list_replicate' split: if_splits)
next
  case (disconnect s2 st')
  then show ?thesis using assms(2) [rule_format, of s]
    by (auto simp: stage_ops seda_counts split: if_splits)
next
  case (disconnected s2)
  then show ?thesis using assms(2) [rule_format, of s]
    by (auto simp: stage_ops seda_counts)
qed

lemma pool_step:
  assumes "seda_step x y" "pool_inv x"
  shows "pool_inv y"
  using assms(1)
proof (cases rule: seda_step.cases)
  case (ext_add s2 e st' sched)
  then show ?thesis using assms(2)
    by (auto simp: stage_ops pool_inv_def addThreads_def Let_def split: if_splits list.splits)
next
  case (ext_schedule es s2 fs p' sig ts)
  note t = signalled_totals [OF this(4)] signalled_awake [OF this(4)]
  show ?thesis using assms(2) ext_schedule(1-3) signalled_Waiting [OF ext_schedule(4)] Waiting_idle [of "thr x"]
    by (auto simp: schedule_Inr pool_inv_def t)
next
  case (worker_add as s1 e bs s2 e' st' sched)
  then show ?thesis using assms(2)
    by (auto simp: stage_ops pool_inv_def addThreads_def Let_def split: if_splits list.splits)
next
  case (worker_schedule as s1 e s2 os bs p' sig ts)
  note t = signalled_totals [OF this(5)] signalled_awake [OF this(5)]
  show ?thesis using assms(2) worker_schedule(1-4) signalled_Waiting [OF worker_schedule(5)] Waiting_idle [of "thr x"]
    by (auto simp: schedule_Inr pool_inv_def t)
next
  case (worker_sleep as bs)
  then show ?thesis using assms(2)
    by (auto simp: stage_ops pool_inv_def addThreads_def Let_def split: if_splits list.splits)
next
  case (worker_spurious as bs)
  then show ?thesis using assms(2)
    by (auto simp: stage_ops pool_inv_def addThreads_def Let_def split: if_splits list.splits)
next
  case (worker_wake as bs)
  then show ?thesis using assms(2)
    by (auto simp: stage_ops pool_inv_def addThreads_def Let_def split: if_splits list.splits)
next
  case (worker_take as bs s2 p')
  then show ?thesis using assms(2)
    by (auto simp: stage_ops pool_inv_def addThreads_def Let_def split: if_splits list.splits)
next
  case (worker_remove as s2 bs e st')
  then show ?thesis using assms(2)
    by (auto simp: stage_ops pool_inv_def addThreads_def Let_def split: if_splits list.splits)
next
  case (worker_release as s2 e bs)
  then show ?thesis using assms(2)
    by (auto simp: stage_ops pool_inv_def addThreads_def Let_def split: if_splits list.splits)
next
  case (worker_kill as e bs p' sig)
  then show ?thesis using assms(2)
    by (auto simp: stage_ops pool_inv_def addThreads_def Let_def split: if_splits list.splits)
next
  case (worker_exit as e bs)
  then show ?thesis using assms(2)
    by (auto simp: stage_ops pool_inv_def addThreads_def Let_def split: if_splits list.splits)
next
  case (spawn n created p' i)
  then show ?thesis using assms(2)
    by (auto simp: stage_ops pool_inv_def addThreads_def Let_def split: if_splits list.splits)
next
  case (kill th s1 s2 b r alloc n p' es s3)
  then show ?thesis using assms(2)
    by (auto simp: stage_ops pool_inv_def addThreads_def Let_def split: if_splits list.splits)
next
  case (set_pool s2 th st')
  then show ?thesis using assms(2)
    by (auto simp: stage_ops pool_inv_def addThreads_def Let_def split: if_splits list.splits)
next
  case (connect s2 ini st' n r)
  then show ?thesis using assms(2)
    by (auto simp: stage_ops pool_inv_def addThreads_def Let_def split: if_splits list.splits)
next
  case (disconnect s2 st')
  then show ?thesis using assms(2)
    by (auto simp: stage_ops pool_inv_def addThreads_def Let_def split: if_splits list.splits)
next
  case (disconnected s2)
  then show ?thesis using assms(2)
    by (auto simp: stage_ops pool_inv_def addThreads_def Let_def split: if_splits list.splits)
qed

lemma kill_step:
  assumes "seda_step x y" "\<forall>s. stage_inv x s" "kill_inv x"
  shows "kill_inv y"
  using assms(1)
proof (cases rule: seda_step.cases)
  case (ext_add s2 e st' sched)
  then show ?thesis using assms(2) [rule_format, of killer] assms(3)
    by (auto simp: stage_ops kill_inv_def addThreads_def Let_def signalled_totals split: if_splits list.splits)
next
  case (ext_schedule es s2 fs p' sig ts)
  note t = signalled_totals [OF this(4)]
  show ?thesis using assms(2) [rule_format, of killer] assms(3) ext_schedule(1-3)
    by (auto simp: schedule_Inr kill_inv_def t)
next
  case (worker_add as s1 e bs s2 e' st' sched)
  then show ?thesis using assms(2) [rule_format, of killer] assms(3)
    by (auto simp: stage_ops kill_inv_def addThreads_def Let_def signalled_totals split: if_splits list.splits)
next
  case (worker_schedule as s1 e s2 os bs p' sig ts)
  note t = signalled_totals [OF this(5)]
  show ?thesis using assms(2) [rule_format, of killer] assms(3) worker_schedule(1-4)
    by (auto simp: schedule_Inr kill_inv_def t)
next
  case (worker_sleep as bs)
  then show ?thesis using assms(2) [rule_format, of killer] assms(3)
    by (auto simp: stage_ops kill_inv_def addThreads_def Let_def signalled_totals split: if_splits list.splits)
next
  case (worker_spurious as bs)
  then show ?thesis using assms(2) [rule_format, of killer] assms(3)
    by (auto simp: stage_ops kill_inv_def addThreads_def Let_def signalled_totals split: if_splits list.splits)
next
  case (worker_wake as bs)
  then show ?thesis using assms(2) [rule_format, of killer] assms(3)
    by (auto simp: stage_ops kill_inv_def addThreads_def Let_def signalled_totals split: if_splits list.splits)
next
  case (worker_take as bs s2 p')
  then show ?thesis using assms(2) [rule_format, of killer] assms(3)
    by (auto simp: stage_ops kill_inv_def addThreads_def Let_def signalled_totals split: if_splits list.splits)
next
  case (worker_remove as s2 bs e st')
  then show ?thesis using assms(2) [rule_format, of killer] assms(3)
    by (auto simp: stage_ops kill_inv_def addThreads_def Let_def signalled_totals split: if_splits list.splits)
next
  case (worker_release as s2 e bs)
  then show ?thesis using assms(2) [rule_format, of killer] assms(3)
    by (auto simp: stage_ops kill_inv_def addThreads_def Let_def signalled_totals split: if_splits list.splits)
next
  case (worker_kill as e bs p' sig)
  then show ?thesis using assms(2) [rule_format, of killer] assms(3)
    by (auto simp: stage_ops kill_inv_def addThreads_def Let_def signalled_totals split: if_splits list.splits)
next
  case (worker_exit as e bs)
  then show ?thesis using assms(2) [rule_format, of killer] assms(3)
    by (auto simp: stage_ops kill_inv_def addThreads_def Let_def signalled_totals split: if_splits list.splits)
next
  case (spawn n created p' i)
  then show ?thesis using assms(2) [rule_format, of killer] assms(3)
    by (auto simp: stage_ops kill_inv_def addThreads_def Let_def signalled_totals split: if_splits list.splits)
next
  case (kill th s1 s2 b r alloc n p' es s3)
  have c: "connected s2" using kill(4) by (simp add: connect_Inr)
  show ?thesis using assms(2) [rule_format, of killer] assms(3) kill addEvents_effect [OF kill(6) c]
    by (auto simp: stage_ops kill_inv_def)
next
  case (set_pool s2 th st')
  then show ?thesis using assms(2) [rule_format, of killer] assms(3)
    by (auto simp: stage_ops kill_inv_def addThreads_def Let_def signalled_totals split: if_splits list.splits)
next
  case (connect s2 ini st' n r)
  then show ?thesis using assms(2) [rule_format, of killer] assms(3)
    by (auto simp: stage_ops kill_inv_def addThreads_def Let_def signalled_totals split: if_splits list.splits)
next
  case (disconnect s2 st')
  then show ?thesis using assms(2) [rule_format, of killer] assms(3)
    by (auto simp: stage_ops kill_inv_def addThreads_def Let_def signalled_totals split: if_splits list.splits)
next
  case (disconnected s2)
  then show ?thesis using assms(2) [rule_format, of killer] assms(3)
    by (auto simp: stage_ops kill_inv_def addThreads_def Let_def signalled_totals split: if_splits list.splits)
qed

interpretation seda: machine seda_start seda_step seda_inv
proof
  fix s assume "seda_start s"
  then show "seda_inv s"
    by (auto simp: seda_start_def seda_inv_def seda_counts Stage_new_def pool_new_def stage_ok_def)
next
  fix x y assume "seda_inv x" "seda_step x y"
  then show "seda_inv y" using stage_step pool_step kill_step unfolding seda_inv_def by blast
qed

lemma reach_stage: "seda.reach x \<Longrightarrow> stage_inv x s"
  using seda.reach_inv [of x] by (simp add: seda_inv_def)

lemma reach_pool: "seda.reach x \<Longrightarrow> pool_inv x" and reach_kill: "seda.reach x \<Longrightarrow> kill_inv x"
  using seda.reach_inv [of x] by (simp_all add: seda_inv_def)

lemma total_member: "p \<in> set ts \<Longrightarrow> f p \<le> total f ts"
  by (induction ts) auto

lemma n_sched_pos:
  assumes "s \<in> set (runQueue (pl x)) \<or> s \<in> set (ext x) \<or> (\<exists>p \<in> set (thr x). 0 < w_sched s p)"
  shows "0 < n_sched x s"
proof -
  have "n_sched x s \<noteq> 0"
  proof
    assume "n_sched x s = 0"
    then have z: "count_list (runQueue (pl x)) s = 0" "count_list (ext x) s = 0" "total (w_sched s) (thr x) = 0"
      by (simp_all add: n_sched_def)
    have "w_sched s p = 0" if "p \<in> set (thr x)" for p
      using total_member [OF that, of "w_sched s"] z(3) by simp
    with assms z(1,2) show False by (auto simp: count_list_0_iff)
  qed
  then show ?thesis by simp
qed

lemma n_hand_pos: "p \<in> set (thr x) \<Longrightarrow> 0 < w_hand s p \<Longrightarrow> 0 < n_hand x s"
  unfolding n_hand_def using total_member [of p "thr x" "w_hand s"] by simp

text \<open>A pending schedule stands for an event of the list.\<close>

lemma pending_nonempty:
  assumes "seda.reach x" "0 < n_sched x s"
  shows "eventList (stg x s) \<noteq> []"
  using reach_stage [OF assms(1), of s] assms(2) by (auto simp: stage_inv_def)

section \<open>A run of one worker over one stage\<close>

definition demo_stage :: stage where
  "demo_stage = \<lparr>eventList = [7], connected = True, eventRef = 1, thPool = Some 0, nextStageList = []\<rparr>"

definition demo :: sys where
  "demo = \<lparr>stg = (\<lambda>_. Stage_new)(1 := demo_stage), pl = \<lparr>runQueue = [], nIdles = 0, nthreads = 1, threadsToKill = 0\<rparr>,
     thr = [Picked 1], ext = [], disc = (\<lambda>_. False), kwait = False\<rparr>"

abbreviation boot :: "(stage_id \<Rightarrow> stage) \<Rightarrow> pool \<Rightarrow> phase list \<Rightarrow> stage_id list \<Rightarrow> sys" where
  "boot st p ts ex \<equiv> \<lparr>stg = st, pl = p, thr = ts, ext = ex, disc = (\<lambda>_. False), kwait = False\<rparr>"

lemma demo_boot: "seda.reach (boot (\<lambda>_. Stage_new) pool_new [] [])"
  by (rule seda.reach_start) (simp add: seda_start_def)

lemma demo_wait: "seda.reach (boot ((\<lambda>_. Stage_new)(1 := demo_stage)) (pool_new\<lparr>nthreads := 1\<rparr>) [Top] [1])"
proof -
  let ?s1 = "Stage_new\<lparr>thPool := Some 0\<rparr>" and ?s2 = "Stage_new\<lparr>thPool := Some 0, connected := True\<rparr>"
  have a: "seda.reach (boot ((\<lambda>_. Stage_new)(1 := ?s1)) pool_new [] [])"
    by (rule seda.reach_step [OF demo_boot])
      (use seda_step.set_pool [of "boot (\<lambda>_. Stage_new) pool_new [] []" 1 0 ?s1] in
        \<open>simp add: setPool_Inr Stage_new_def\<close>)
  have b: "seda.reach (boot ((\<lambda>_. Stage_new)(1 := ?s2)) pool_new [] [])"
    by (rule seda.reach_step [OF a])
      (use seda_step.connect [of 1 "boot ((\<lambda>_. Stage_new)(1 := ?s1)) pool_new [] []" True ?s2 0 True] in
        \<open>simp add: connect_Inr Stage_new_def\<close>)
  have c: "seda.reach (boot ((\<lambda>_. Stage_new)(1 := demo_stage)) pool_new [] [1])"
    by (rule seda.reach_step [OF b])
      (use seda_step.ext_add [of 1 7 "boot ((\<lambda>_. Stage_new)(1 := ?s2)) pool_new [] []" demo_stage True] in
        \<open>simp add: addEvent_Inr Stage_new_def demo_stage_def\<close>)
  show ?thesis
    by (rule seda.reach_step [OF c])
      (use seda_step.spawn [of 1 "[True]" "boot ((\<lambda>_. Stage_new)(1 := demo_stage)) pool_new [] [1]" "pool_new\<lparr>nthreads := 1\<rparr>" 1] in
        \<open>simp add: addThreads_def pool_new_def\<close>)
qed

lemma demo_reach: "seda.reach demo"
proof -
  let ?p = "pool_new\<lparr>nthreads := 1\<rparr>" and ?st = "(\<lambda>_. Stage_new)(1 := demo_stage)"
  have d: "seda.reach (boot ?st (?p\<lparr>runQueue := [1]\<rparr>) [Top] [])"
    by (rule seda.reach_step [OF demo_wait])
      (use seda_step.ext_schedule [of "boot ?st ?p [Top] [1]" "[]" 1 "[]" "?p\<lparr>runQueue := [1]\<rparr>" False "[Top]"] in
        \<open>simp add: schedule_Inr pool_new_def qempty_def demo_stage_def signalled_def\<close>)
  show ?thesis
    by (rule seda.reach_step [OF d])
      (use seda_step.worker_take [of "boot ?st (?p\<lparr>runQueue := [1]\<rparr>) [Top] []" "[]" "[]" 1 "?p\<lparr>runQueue := []\<rparr>"] in
        \<open>simp add: run_take_def demo_def pool_new_def\<close>)
qed

section \<open>What holds in every reachable state\<close>

text \<open>C4: In every reachable state none of the assertions of the event path can fail: a connected stage has
  its pool when an event is added, a \<^verbatim>\<open>schedule\<close> call still to be made finds the stage non-empty, and the
  stage a worker took from the run queue has an event to remove.\<close>

theorem seda_assertions_hold:
  assumes "seda.reach x"
  shows "addEvent e (stg x s) \<noteq> Inl Assert_failed \<and>
    (s \<in> set (ext x) \<longrightarrow> schedule False (qempty (stg x s)) s (pl x) \<noteq> Inl Assert_failed) \<and>
    (Handling s' e' (s # os) \<in> set (thr x) \<longrightarrow> schedule True (qempty (stg x s)) s (pl x) \<noteq> Inl Assert_failed) \<and>
    (s \<in> set (runQueue (pl x)) \<longrightarrow> \<not> qempty (stg x s)) \<and>
    (Picked s \<in> set (thr x) \<longrightarrow> removeEvent (stg x s) \<noteq> Inl Assert_failed)"
proof (intro conjI impI)
  note pos = pending_nonempty [OF assms n_sched_pos]
  show "addEvent e (stg x s) \<noteq> Inl Assert_failed"
    using reach_stage [OF assms, of s] by (auto simp: addEvent_def stage_inv_def stage_ok_def Let_def)
  show "schedule False (qempty (stg x s)) s (pl x) \<noteq> Inl Assert_failed" if "s \<in> set (ext x)"
    using that pos by (auto simp: schedule_def qempty_def Let_def)
  show "schedule True (qempty (stg x s)) s (pl x) \<noteq> Inl Assert_failed" if "Handling s' e' (s # os) \<in> set (thr x)"
    using that pos by (force simp: schedule_def qempty_def Let_def)
  show "\<not> qempty (stg x s)" if "s \<in> set (runQueue (pl x))" using that pos by (auto simp: qempty_def)
  show "removeEvent (stg x s) \<noteq> Inl Assert_failed" if "Picked s \<in> set (thr x)"
    using that pos by (force simp: removeEvent_def split: list.splits)
qed

theorem seda_assertions_hold_witness:
  "Picked 1 \<in> set (thr demo) \<and> removeEvent (stg demo 1) \<noteq> Inl Assert_failed \<and>
     removeEvent (stg demo 1) = Inr (7, demo_stage\<lparr>eventList := []\<rparr>)"
proof -
  have "Picked 1 \<in> set (thr demo)" by (simp add: demo_def)
  with seda_assertions_hold [OF demo_reach] show ?thesis
    by (simp add: demo_def demo_stage_def removeEvent_def)
qed

text \<open>C2: Events are neither lost nor served twice: in every reachable state each event queued on a connected
  stage has exactly one pending service (an entry of the run queue, a \<^verbatim>\<open>schedule\<close> call still to be made, or a
  worker about to remove it), and \<^verbatim>\<open>eventRef\<close> is the number of pending services and events in hand.\<close>

theorem seda_event_accounting:
  assumes "seda.reach x"
  shows "(connected (stg x s) \<longrightarrow> n_sched x s = qlen (stg x s)) \<and> eventRef (stg x s) = n_sched x s + n_hand x s"
  using reach_stage [OF assms, of s] by (auto simp: stage_inv_def qlen_def)

theorem seda_event_accounting_witness:
  "connected (stg demo 1) \<and> n_sched demo 1 = qlen (stg demo 1) \<and> eventRef (stg demo 1) = 1"
  using seda_event_accounting [OF demo_reach, of 1] by (simp add: demo_def demo_stage_def qlen_def)

text \<open>C7: No wake-up is lost: in every reachable state in which a worker sleeps, the run queue holds no more
  stages than there are awake workers that will come back to it (a signal that was skipped is covered by the
  caller itself or by a worker on its way).\<close>

theorem seda_no_lost_wakeup:
  assumes "seda.reach x" "Waiting \<in> set (thr x)"
  shows "length (runQueue (pl x)) \<le> total w_awake (thr x) \<and>
    (runQueue (pl x) \<noteq> [] \<longrightarrow> (\<exists>p \<in> set (thr x). 0 < w_awake p)) \<and>
    nIdles (pl x) = length (filter (\<lambda>p. p = Waiting \<or> p = Woken) (thr x))"
proof (intro conjI impI)
  show a: "length (runQueue (pl x)) \<le> total w_awake (thr x)"
    using reach_pool [OF assms(1)] assms(2) by (simp add: pool_inv_def)
  have pos: "0 < total f ts \<Longrightarrow> \<exists>p \<in> set ts. 0 < f p" for f ts by (induction ts) auto
  show "\<exists>p \<in> set (thr x). 0 < w_awake p" if "runQueue (pl x) \<noteq> []"
    by (rule pos) (use a that in \<open>cases "runQueue (pl x)"; simp\<close>)
  have idle: "w_idle p = (if p = Waiting \<or> p = Woken then 1 else 0)" for p by (cases p) auto
  have "total w_idle ts = length (filter (\<lambda>p. p = Waiting \<or> p = Woken) ts)" for ts
    by (induction ts) (auto simp: idle)
  then show "nIdles (pl x) = length (filter (\<lambda>p. p = Waiting \<or> p = Woken) (thr x))"
    using reach_pool [OF assms(1)] by (simp add: pool_inv_def)
qed

text \<open>A worker that sleeps while another thread is about to schedule.\<close>

definition demo_sleep :: sys where
  "demo_sleep = boot ((\<lambda>_. Stage_new)(1 := demo_stage)) (pool_new\<lparr>nthreads := 1, nIdles := 1\<rparr>) [Waiting] [1]"

definition demo_woken :: sys where
  "demo_woken = boot ((\<lambda>_. Stage_new)(1 := demo_stage)) (pool_new\<lparr>nthreads := 1, nIdles := 1, runQueue := [1]\<rparr>) [Woken] []"

lemma demo_sleep_reach: "seda.reach demo_sleep"
  by (rule seda.reach_step [OF demo_wait])
    (use seda_step.worker_sleep [of "boot ((\<lambda>_. Stage_new)(1 := demo_stage)) (pool_new\<lparr>nthreads := 1\<rparr>) [Top] [1]" "[]" "[]"] in
      \<open>simp add: demo_sleep_def pool_new_def run_sleep_def\<close>)

lemma signalled_wake: "signalled True [Waiting] [Woken]"
  unfolding signalled_def by (auto intro!: exI [of _ "[]"])

text \<open>There the call that comes must signal, and does.\<close>

lemma demo_sleep_woken: "seda_step demo_sleep demo_woken"
  using signalled_wake seda_step.ext_schedule [of demo_sleep "[]" 1 "[]" "(pl demo_sleep)\<lparr>runQueue := [1]\<rparr>" True "[Woken]"]
  by (simp add: demo_sleep_def demo_woken_def schedule_Inr qempty_def pool_new_def demo_stage_def)

theorem seda_no_lost_wakeup_witness:
  "Waiting \<in> set (thr demo_sleep) \<and> length (runQueue (pl demo_sleep)) \<le> total w_awake (thr demo_sleep)"
proof -
  have "Waiting \<in> set (thr demo_sleep)" by (simp add: demo_sleep_def)
  with seda_no_lost_wakeup [OF demo_sleep_reach this] show ?thesis by simp
qed


text \<open>An idle stage that is connected and disconnected again.\<close>

definition demo_disc :: sys where
  "demo_disc = (boot ((\<lambda>_. Stage_new)(1 := Stage_new\<lparr>thPool := Some 0\<rparr>)) pool_new [] [])\<lparr>disc := (\<lambda>_. False)(1 := True)\<rparr>"

lemma demo_disc_reach: "seda.reach demo_disc"
proof -
  let ?s1 = "Stage_new\<lparr>thPool := Some 0\<rparr>" and ?s2 = "Stage_new\<lparr>thPool := Some 0, connected := True\<rparr>"
  have a: "seda.reach (boot ((\<lambda>_. Stage_new)(1 := ?s1)) pool_new [] [])"
    by (rule seda.reach_step [OF demo_boot])
      (use seda_step.set_pool [of "boot (\<lambda>_. Stage_new) pool_new [] []" 1 0 ?s1] in
        \<open>simp add: setPool_Inr Stage_new_def\<close>)
  have b: "seda.reach (boot ((\<lambda>_. Stage_new)(1 := ?s2)) pool_new [] [])"
    by (rule seda.reach_step [OF a])
      (use seda_step.connect [of 1 "boot ((\<lambda>_. Stage_new)(1 := ?s1)) pool_new [] []" True ?s2 0 True] in
        \<open>simp add: connect_Inr Stage_new_def\<close>)
  show ?thesis
    by (rule seda.reach_step [OF b])
      (use seda_step.disconnect [of 1 "boot ((\<lambda>_. Stage_new)(1 := ?s2)) pool_new [] []" ?s1] in
        \<open>simp add: disconnect_begin_def Stage_new_def demo_disc_def\<close>)
qed


text \<open>C15: The kill protocol keeps its counts: \<^verbatim>\<open>nthreads\<close> is the number of threads of the pool that have not
  handled a kill event, \<^verbatim>\<open>threadsToKill\<close> is the number of kill events not handled yet and never exceeds it,
  so neither unsigned counter wraps in \<^verbatim>\<open>threadKill\<close>.\<close>

theorem seda_kill_counts:
  assumes "seda.reach x"
  shows "nthreads (pl x) = total w_live (thr x) \<and>
    threadsToKill (pl x) = qlen (stg x killer) + total w_kill (thr x) \<and>
    threadsToKill (pl x) \<le> nthreads (pl x) \<and>
    (Handling killer e os \<in> set (thr x) \<longrightarrow> 0 < threadsToKill (pl x) \<and> 0 < nthreads (pl x))"
  using reach_kill [OF assms] total_member [of "Handling killer e os" "thr x" w_kill]
  by (auto simp: kill_inv_def qlen_def)

theorem seda_kill_counts_witness:
  "nthreads (pl demo) = 1 \<and> total w_live (thr demo) = 1 \<and> threadsToKill (pl demo) \<le> nthreads (pl demo)"
  using seda_kill_counts [OF demo_reach] by (simp add: demo_def)

text \<open>A \<^verbatim>\<open>killThreads\<close> that has no thread to kill never returns: once it waits on \<^verbatim>\<open>threadCond\<close> with no
  kill event outstanding, it waits in every later state.\<close>

theorem killThreads_zero_hangs:
  assumes "seda_step\<^sup>*\<^sup>* x y" "seda.reach x" "kwait x" "threadsToKill (pl x) = 0"
  shows "kwait y \<and> threadsToKill (pl y) = 0"
proof -
  have step': "kwait v \<and> threadsToKill (pl v) = 0"
    if st: "seda_step u v" and u: "kwait u" "threadsToKill (pl u) = 0" and r: "seda.reach u" for u v
  proof -
    have k: "kill_inv u" by (rule reach_kill [OF r])
    have c: "connected (stg u killer)" using k u by (simp add: kill_inv_def)
    have no: "thr u \<noteq> as @ Handling killer e [] # bs" for as e bs
      using k u(2) by (auto simp: kill_inv_def)
    from st show ?thesis
      by (cases rule: seda_step.cases)
        (use u c no in \<open>auto simp: schedule_Inr run_sleep_def run_wake_def run_take_def addThreads_def Let_def setPool_Inr split: list.splits\<close>)
  qed
  from assms have "kwait y \<and> threadsToKill (pl y) = 0 \<and> seda.reach y"
  proof (induction rule: rtranclp_induct)
    case (step y z)
    then have "kwait y" "threadsToKill (pl y) = 0" "seda.reach y" by simp_all
    with step' [OF step(2)] seda.reach_step [OF _ step(2)] show ?case by simp
  qed simp
  then show ?thesis by simp
qed

text \<open>\<^verbatim>\<open>killThreads(0)\<close> on a pool without threads.\<close>

definition demo_hang :: sys where
  "demo_hang = (boot ((\<lambda>_. Stage_new)(0 := Stage_new\<lparr>thPool := Some 0, connected := True\<rparr>)) pool_new [] [])\<lparr>kwait := True\<rparr>"

lemma demo_hang_reach: "seda.reach demo_hang"
  by (rule seda.reach_step [OF demo_boot])
    (use seda_step.kill [of 0 "boot (\<lambda>_. Stage_new) pool_new [] []" "Stage_new\<lparr>thPool := Some 0\<rparr>"
        "Stage_new\<lparr>thPool := Some 0, connected := True\<rparr>" 0 True 0 0 pool_new "[]"
        "Stage_new\<lparr>thPool := Some 0, connected := True\<rparr>"] in
      \<open>simp add: setPool_Inr connect_Inr kill_begin_Some Stage_new_def pool_new_def demo_hang_def\<close>)

theorem killThreads_zero_hangs_witness:
  "seda.reach demo_hang \<and> kwait demo_hang \<and> threadsToKill (pl demo_hang) = 0"
proof -
  have "kwait demo_hang" "threadsToKill (pl demo_hang) = 0" by (simp_all add: demo_hang_def pool_new_def)
  with killThreads_zero_hangs [OF rtranclp.rtrancl_refl demo_hang_reach this] demo_hang_reach show ?thesis by simp
qed

end
