(* ===== verification/Timer.thy ===== *)
theory Timer
  imports Events "HOL-Library.Multiset"
begin

text \<open>
  The timer stage (src/seda/timerstage.cpp, include/seda/timerstage.h): time values, tokens and
  their order, registration and cancellation of timers, the pass of the maintenance thread over
  the queue, and the handshake between the two over \<^verbatim>\<open>timer_condv\<close>.
\<close>

section \<open>Time values\<close>

datatype timeval = TV (tv_sec: int) (tv_usec: int)

abbreviation USEC_PER_SEC :: int where "USEC_PER_SEC \<equiv> 1000000"
abbreviation NSEC_PER_USEC :: int where "NSEC_PER_USEC \<equiv> 1000"

definition TIMEVAL_EQUAL :: "timeval \<Rightarrow> timeval \<Rightarrow> bool" where
  "TIMEVAL_EQUAL t1 t2 = (tv_sec t1 = tv_sec t2 \<and> tv_usec t1 = tv_usec t2)"

definition TIMEVAL_LESS_THAN :: "timeval \<Rightarrow> timeval \<Rightarrow> bool" where
  "TIMEVAL_LESS_THAN t1 t2 = (tv_sec t1 < tv_sec t2 \<or> (tv_sec t1 = tv_sec t2 \<and> tv_usec t1 < tv_usec t2))"

instantiation timeval :: linorder
begin

definition less_timeval_def: "(t1 :: timeval) < t2 \<longleftrightarrow> TIMEVAL_LESS_THAN t1 t2"
definition less_eq_timeval_def: "(t1 :: timeval) \<le> t2 \<longleftrightarrow> TIMEVAL_LESS_THAN t1 t2 \<or> TIMEVAL_EQUAL t1 t2"

instance
  by standard (auto simp: less_timeval_def less_eq_timeval_def TIMEVAL_LESS_THAN_def TIMEVAL_EQUAL_def
      intro: timeval.expand)

end

text \<open>The two normalisation loops.\<close>

function borrow_usec :: "int \<Rightarrow> int \<Rightarrow> timeval" where
  "borrow_usec s u = (if u < 0 then borrow_usec (s - 1) (u + USEC_PER_SEC) else TV s u)"
  by pat_completeness auto
termination by (relation "measure (\<lambda>(s, u). nat (- u))") auto

function carry_usec :: "int \<Rightarrow> int \<Rightarrow> timeval" where
  "carry_usec s u = (if u \<ge> USEC_PER_SEC then carry_usec (s + 1) (u - USEC_PER_SEC) else TV s u)"
  by pat_completeness auto
termination by (relation "measure (\<lambda>(s, u). nat u)") auto

declare borrow_usec.simps [simp del] carry_usec.simps [simp del]

definition subTimeval :: "timeval \<Rightarrow> timeval \<Rightarrow> timeval" where
  "subTimeval t1 t2 = borrow_usec (tv_sec t1 - tv_sec t2) (tv_usec t1 - tv_usec t2)"

definition addTimeval :: "timeval \<Rightarrow> timeval \<Rightarrow> timeval" where
  "addTimeval t1 t2 = carry_usec (tv_sec t1 + tv_sec t2) (tv_usec t1 + tv_usec t2)"

definition usecs :: "timeval \<Rightarrow> int" where "usecs t = tv_sec t * USEC_PER_SEC + tv_usec t"
definition normal :: "timeval \<Rightarrow> bool" where "normal t \<longleftrightarrow> 0 \<le> tv_usec t \<and> tv_usec t < USEC_PER_SEC"

lemma borrow_usec_value: "usecs (borrow_usec s u) = s * USEC_PER_SEC + u"
  by (induction s u rule: borrow_usec.induct) (subst borrow_usec.simps, auto simp: usecs_def algebra_simps)

lemma borrow_usec_normal: "u < USEC_PER_SEC \<Longrightarrow> normal (borrow_usec s u)"
  by (induction s u rule: borrow_usec.induct) (subst borrow_usec.simps, auto simp: normal_def)

lemma carry_usec_value: "usecs (carry_usec s u) = s * USEC_PER_SEC + u"
  by (induction s u rule: carry_usec.induct) (subst carry_usec.simps, auto simp: usecs_def algebra_simps)

lemma carry_usec_normal: "0 \<le> u \<Longrightarrow> normal (carry_usec s u)"
  by (induction s u rule: carry_usec.induct) (subst carry_usec.simps, auto simp: normal_def)

lemma usecs_inj: "normal a \<Longrightarrow> normal b \<Longrightarrow> usecs a = usecs b \<Longrightarrow> a = b"
proof -
  assume n: "normal a" "normal b" and e: "usecs a = usecs b"
  have "tv_sec a = usecs a div USEC_PER_SEC" "tv_sec b = usecs b div USEC_PER_SEC"
    using n by (simp_all add: usecs_def normal_def)
  with e have "tv_sec a = tv_sec b" by simp
  moreover from this e have "tv_usec a = tv_usec b" by (simp add: usecs_def)
  ultimately show "a = b" by (rule timeval.expand [OF conjI])
qed

lemma timeval_less_usecs: "normal a \<Longrightarrow> normal b \<Longrightarrow> a < b \<longleftrightarrow> usecs a < usecs b"
  by (auto simp: normal_def usecs_def less_timeval_def TIMEVAL_LESS_THAN_def)

text \<open>
  A wall-clock deadline on the monotonic clock; \<open>rt\<close> and \<open>mclk\<close> are the readings of the two
  clocks, the second in seconds and nanoseconds.
\<close>

definition realtimeToMonotonic :: "timeval \<Rightarrow> timeval \<Rightarrow> int \<times> int \<Rightarrow> timeval" where
  "realtimeToMonotonic time_RT rt mclk =
     addTimeval (TV (fst mclk) (snd mclk div NSEC_PER_USEC)) (subTimeval time_RT rt)"

section \<open>Tokens\<close>

datatype token = Token (time: timeval) (nonce: u64)

definition tokenLess :: "token \<Rightarrow> token \<Rightarrow> bool" where
  "tokenLess a b = (if TIMEVAL_LESS_THAN (time a) (time b) then True
     else if TIMEVAL_EQUAL (time a) (time b) then nonce a < nonce b else False)"

instantiation token :: linorder
begin

definition less_token_def: "(a :: token) < b \<longleftrightarrow> tokenLess a b"
definition less_eq_token_def: "(a :: token) \<le> b \<longleftrightarrow> tokenLess a b \<or> a = b"

instance
proof
  fix x y z :: token
  have eq: "x = y \<longleftrightarrow> time x = time y \<and> nonce x = nonce y" for x y by (cases x; cases y; simp)
  have less: "tokenLess x y \<longleftrightarrow> time x < time y \<or> (time x = time y \<and> nonce x < nonce y)" for x y
    by (auto simp: tokenLess_def TIMEVAL_EQUAL_def less_timeval_def intro: timeval.expand)
  show "x < y \<longleftrightarrow> x \<le> y \<and> \<not> y \<le> x" by (auto simp: less_token_def less_eq_token_def less)
  show "x \<le> x" by (simp add: less_eq_token_def)
  show "x \<le> y \<Longrightarrow> y \<le> z \<Longrightarrow> x \<le> z" by (auto simp: less_eq_token_def less)
  show "x \<le> y \<Longrightarrow> y \<le> x \<Longrightarrow> x = y" by (auto simp: less_eq_token_def less)
  show "x \<le> y \<or> y \<le> x" by (auto simp: less_eq_token_def less eq)
qed

end

lemma token_less: "(a :: token) < b \<longleftrightarrow> time a < time b \<or> (time a = time b \<and> nonce a < nonce b)"
  by (auto simp: less_token_def tokenLess_def TIMEVAL_EQUAL_def less_timeval_def intro: timeval.expand)

definition token_toString :: "token \<Rightarrow> string" where
  "token_toString t = dec_int (tv_sec (time t)) @ '':'' @ dec_int (tv_usec (time t)) @ ''-'' @ dec_nat (unat (nonce t))"

section \<open>Timer events\<close>

record timer_register =
  timer_cb :: "event_id option"   \<comment> \<open>None is NULL\<close>
  timer_when :: timeval
  cancel_token :: token

text \<open>
  A relative time is added in 64 bits: \<^verbatim>\<open>tv_usec\<close> is a \<^verbatim>\<open>long\<close> and the offset an \<^verbatim>\<open>u64_t\<close>.
\<close>

definition relative_when :: "int \<times> int \<Rightarrow> u64 \<Rightarrow> timeval" where
  "relative_when mclk d =
     (let u = sint (word_of_int (snd mclk div NSEC_PER_USEC) + d :: u64)
      in if u \<ge> USEC_PER_SEC then TV (fst mclk + u div USEC_PER_SEC) (u mod USEC_PER_SEC) else TV (fst mclk) u)"

definition TimerRegisterEvent_rel :: "event_id \<Rightarrow> u64 \<Rightarrow> int \<times> int \<Rightarrow> u64 \<Rightarrow> timer_register" where
  "TimerRegisterEvent_rel cb d mclk n =
     \<lparr>timer_cb = Some cb, timer_when = relative_when mclk d, cancel_token = Token (TV 0 0) n\<rparr>"

definition TimerRegisterEvent_abs :: "event_id \<Rightarrow> timeval \<Rightarrow> timeval \<Rightarrow> int \<times> int \<Rightarrow> u64 \<Rightarrow> timer_register" where
  "TimerRegisterEvent_abs cb t rt mclk n =
     \<lparr>timer_cb = Some cb, timer_when = realtimeToMonotonic t rt mclk, cancel_token = Token (TV 0 0) n\<rparr>"

definition adoptCallbackEvent :: "timer_register \<Rightarrow> event_id option \<times> timer_register" where
  "adoptCallbackEvent r = (timer_cb r, r\<lparr>timer_cb := None\<rparr>)"

record timer_cancel =
  ctoken :: token
  cancelled :: bool

definition TimerCancelEvent_new :: "token \<Rightarrow> timer_cancel" where
  "TimerCancelEvent_new t = \<lparr>ctoken = t, cancelled = False\<rparr>"

lemma relative_when_normal:
  assumes "0 \<le> snd mclk" "snd mclk < 1000000000" "uint d < 9223372036853775808"
  shows "normal (relative_when mclk d)"
    and "usecs (relative_when mclk d) = fst mclk * USEC_PER_SEC + snd mclk div NSEC_PER_USEC + uint d"
proof -
  let ?n = "snd mclk div NSEC_PER_USEC"
  have n: "0 \<le> ?n" "?n < USEC_PER_SEC" using assms(1,2) by auto
  note d = assms(3) uint_nonnegative [of d]
  have "sint (word_of_int ?n + d :: u64) = ?n + uint d"
  proof -
    have w: "word_of_int ?n + d = (word_of_int (?n + uint d) :: u64)" by (simp only: of_int_add word_of_int_uint)
    have "signed_take_bit 63 (?n + uint d) = ?n + uint d"
    proof (rule signed_take_bit_int_eq_self)
      show "- (2 ^ 63) \<le> ?n + uint d" using order_trans [OF _ add_nonneg_nonneg [OF n(1) d(2)], of "- (2 ^ 63)"] by simp
      show "?n + uint d < 2 ^ 63" using n(2) d(1) by simp
    qed
    then show ?thesis unfolding w sint_sbintrunc' by simp
  qed
  with n d show "normal (relative_when mclk d)"
    "usecs (relative_when mclk d) = fst mclk * USEC_PER_SEC + ?n + uint d"
    by (auto simp: relative_when_def Let_def normal_def usecs_def algebra_simps)
qed

section \<open>The queue\<close>

text \<open>
  \<^verbatim>\<open>std::map\<close> from tokens to events, as the list of its entries in the order of iteration.
  \<^verbatim>\<open>insert\<close> does not replace an entry; its flag tells whether it inserted.
\<close>

type_synonym event_ptr = "event_id option"   \<comment> \<open>None is NULL\<close>
type_synonym timer_queue = "(token \<times> event_ptr) list"

fun q_insert :: "token \<Rightarrow> event_ptr \<Rightarrow> timer_queue \<Rightarrow> timer_queue \<times> bool" where
  "q_insert t e [] = ([(t, e)], True)"
| "q_insert t e ((t', e') # q) =
     (if tokenLess t t' then ((t, e) # (t', e') # q, True)
      else if tokenLess t' t then (let (q', b) = q_insert t e q in ((t', e') # q', b))
      else ((t', e') # q, False))"

fun q_erase :: "token \<Rightarrow> timer_queue \<Rightarrow> timer_queue \<times> event_ptr option" where
  "q_erase t [] = ([], None)"
| "q_erase t ((t', e') # q) =
     (if tokenLess t' t then (let (q', r) = q_erase t q in ((t', e') # q', r))
      else if tokenLess t t' then ((t', e') # q, None) else (q, Some e'))"

record timer_stage =
  timer_queue :: timer_queue
  shutdown :: bool
  num_events :: u32
  nonce_cntr :: u64

definition TimerStage_new :: "u64 \<Rightarrow> timer_stage" where
  "TimerStage_new n = \<lparr>timer_queue = [], shutdown = False, num_events = 0, nonce_cntr = n\<rparr>"

definition nextNonce :: "timer_stage \<Rightarrow> u64 \<times> timer_stage" where
  "nextNonce s = (nonce_cntr s, s\<lparr>nonce_cntr := nonce_cntr s + 1\<rparr>)"

text \<open>
  \<^verbatim>\<open>registerTimer\<close>: the flag is the call of \<^verbatim>\<open>triggerTimerCheck\<close>, made when the new entry is the
  first. A callback event that was adopted before is NULL, and is queued as such.
\<close>

definition registerTimer :: "timer_register \<Rightarrow> timer_stage \<Rightarrow> fault + (timer_register \<times> timer_stage \<times> bool)" where
  "registerTimer reg s =
     (let (n, s1) = nextNonce s;
          tt = Token (timer_when reg) n;
          (cb, reg1) = adoptCallbackEvent reg;
          (q, inserted) = q_insert tt cb (timer_queue s1)
      in if \<not> inserted then Inl Assert_failed
         else Inr (reg1\<lparr>cancel_token := tt\<rparr>,
                   s1\<lparr>timer_queue := q, num_events := num_events s1 + 1\<rparr>,
                   fst (hd q) = tt))"

text \<open>\<^verbatim>\<open>cancelTimer\<close>: the last component is the event that is deleted.\<close>

definition cancelTimer :: "timer_cancel \<Rightarrow> timer_stage \<Rightarrow> timer_cancel \<times> timer_stage \<times> event_ptr option" where
  "cancelTimer c s =
     (case q_erase (ctoken c) (timer_queue s) of
        (q, Some e) \<Rightarrow> (c\<lparr>cancelled := True\<rparr>, s\<lparr>timer_queue := q, num_events := num_events s - 1\<rparr>, Some e)
      | (_, None) \<Rightarrow> (c\<lparr>cancelled := False\<rparr>, s, None))"

text \<open>
  One round of the loop of \<^verbatim>\<open>checkTimer\<close> at the clock reading \<open>now\<close>: the events whose \<^verbatim>\<open>done()\<close>
  is called, in this order, the stage after it, and what the thread does next.
\<close>

datatype after = Abandon | SleepForever | SleepUntil timeval

fun split_due :: "timeval \<Rightarrow> timer_queue \<Rightarrow> event_ptr list \<times> timer_queue" where
  "split_due now [] = ([], [])"
| "split_due now ((t, e) # q) = (if TIMEVAL_LESS_THAN now (time t) then ([], (t, e) # q)
     else (let (d, r) = split_due now q in (e # d, r)))"

definition checkTimer :: "timeval \<Rightarrow> timer_stage \<Rightarrow> event_ptr list \<times> timer_stage \<times> after" where
  "checkTimer now s =
     (let (d, q) = split_due now (timer_queue s);
          s' = s\<lparr>timer_queue := q, num_events := num_events s - of_nat (length d)\<rparr>
      in (d, s', if shutdown s' then Abandon
                 else case q of [] \<Rightarrow> SleepForever | (t, _) # _ \<Rightarrow> SleepUntil (time t)))"

definition disconnectPrepare :: "timer_stage \<Rightarrow> timer_stage" where
  "disconnectPrepare s = s\<lparr>shutdown := True\<rparr>"

definition timer_destroy :: "timer_stage \<Rightarrow> event_ptr list" where
  "timer_destroy s = map snd (timer_queue s)"

text \<open>\<^verbatim>\<open>handleEvent\<close> dispatches on the dynamic type.\<close>

datatype timer_event = Register timer_register | Cancel timer_cancel | OtherTimer | NotTimer

definition timer_handleEvent :: "timer_event \<Rightarrow> timer_stage \<Rightarrow> fault + (timer_event \<times> timer_stage \<times> event_ptr option \<times> bool)" where
  "timer_handleEvent ev s = (case ev of
      NotTimer \<Rightarrow> Inr (NotTimer, s, None, False)
    | Register r \<Rightarrow> (case registerTimer r s of Inl f \<Rightarrow> Inl f | Inr (r', s', sig) \<Rightarrow> Inr (Register r', s', None, sig))
    | Cancel c \<Rightarrow> (case cancelTimer c s of (c', s', d) \<Rightarrow> Inr (Cancel c', s', d, False))
    | OtherTimer \<Rightarrow> Inr (OtherTimer, s, None, False))"

section \<open>The queue is a sorted map\<close>

abbreviation tokens :: "timer_queue \<Rightarrow> token list" where "tokens q \<equiv> map fst q"

definition queue_wf :: "timer_queue \<Rightarrow> bool" where
  "queue_wf q \<longleftrightarrow> sorted_wrt (<) (tokens q)"

lemma queue_wf_Cons [simp]: "queue_wf (x # q) \<longleftrightarrow> (\<forall>y \<in> set q. fst x < fst y) \<and> queue_wf q"
  by (auto simp: queue_wf_def)

lemma queue_wf_Nil [simp]: "queue_wf []" by (simp add: queue_wf_def)

lemma tokenLess_iff [simp]: "tokenLess a b \<longleftrightarrow> a < b" by (simp add: less_token_def)

lemma q_insert_spec:
  assumes "queue_wf q"
  shows "snd (q_insert t e q) \<longleftrightarrow> t \<notin> fst ` set q"
    and "t \<notin> fst ` set q \<Longrightarrow> set (fst (q_insert t e q)) = insert (t, e) (set q)"
    and "t \<notin> fst ` set q \<Longrightarrow> mset (fst (q_insert t e q)) = add_mset (t, e) (mset q)"
    and "t \<notin> fst ` set q \<Longrightarrow> queue_wf (fst (q_insert t e q))"
proof -
  have a: "(snd (q_insert t e q) \<longleftrightarrow> t \<notin> fst ` set q) \<and> (t \<notin> fst ` set q \<longrightarrow>
      mset (fst (q_insert t e q)) = add_mset (t, e) (mset q) \<and> queue_wf (fst (q_insert t e q)))"
    using assms
  proof (induction q)
    case (Cons x q)
    obtain t' e' where x: "x = (t', e')" by (cases x)
    have above: "t' < y" if "y \<in> fst ` set q" for y using Cons.prems that x by auto
    have st: "mset r = add_mset (t, e) (mset q) \<Longrightarrow> set r = insert (t, e) (set q)" for r
      by (drule arg_cong [of _ _ set_mset]) simp
    consider "t < t'" | "t' < t" | "t = t'" by (rule linorder_cases)
    then show ?case
    proof cases
      case 1
      with above have "t \<notin> fst ` set (x # q)" by (auto simp: x dest: less_asym)
      moreover have "\<forall>y \<in> set (x # q). t < fst y" using 1 above less_trans by (fastforce simp: x)
      ultimately show ?thesis using 1 Cons.prems by (simp add: x)
    next
      case 2
      obtain q1 b where e: "q_insert t e q = (q1, b)" by (cases "q_insert t e q")
      have t: "t \<notin> fst ` set (x # q) \<longleftrightarrow> t \<notin> fst ` set q" using 2 by (auto simp: x)
      have r: "q_insert t e (x # q) = (x # q1, b)" using 2 e by (simp add: x less_not_sym)
      have i: "(b \<longleftrightarrow> t \<notin> fst ` set q) \<and> (t \<notin> fst ` set q \<longrightarrow> mset q1 = add_mset (t, e) (mset q) \<and> queue_wf q1)"
        using Cons.IH Cons.prems e by simp
      show ?thesis unfolding r t using i st [of q1] Cons.prems 2 by (auto simp: x)
    next
      case 3 then show ?thesis by (simp add: x)
    qed
  qed simp
  then show "snd (q_insert t e q) \<longleftrightarrow> t \<notin> fst ` set q"
    and m: "t \<notin> fst ` set q \<Longrightarrow> mset (fst (q_insert t e q)) = add_mset (t, e) (mset q)"
    and "t \<notin> fst ` set q \<Longrightarrow> queue_wf (fst (q_insert t e q))" by simp_all
  show "t \<notin> fst ` set q \<Longrightarrow> set (fst (q_insert t e q)) = insert (t, e) (set q)"
    using arg_cong [OF m, of set_mset] by simp
qed

lemma q_erase_Cons:
  "t < t' \<Longrightarrow> q_erase t ((t', e) # q) = ((t', e) # q, None)"
  "t' < t \<Longrightarrow> q_erase t ((t', e) # q) = ((t', e) # fst (q_erase t q), snd (q_erase t q))"
  "q_erase t ((t, e) # q) = (q, Some e)"
  by (auto dest: less_asym split: prod.splits)

lemma q_erase_spec:
  assumes "queue_wf q" "q_erase t q = (q', r)"
  shows "queue_wf q'" and "r = None \<longleftrightarrow> t \<notin> fst ` set q" and "r = None \<Longrightarrow> q' = q"
    and "r = Some e \<Longrightarrow> mset q = add_mset (t, e) (mset q')"
proof -
  have a: "queue_wf q' \<and> set q' \<subseteq> set q \<and> (r = None \<longleftrightarrow> t \<notin> fst ` set q) \<and> (r = None \<longrightarrow> q' = q) \<and>
      (r = Some e \<longrightarrow> mset q = add_mset (t, e) (mset q'))"
    using assms
  proof (induction q arbitrary: q' r)
    case (Cons x q)
    obtain t' e' where x: "x = (t', e')" by (cases x)
    have above: "t' < y" if "y \<in> fst ` set q" for y using Cons.prems(1) that x by auto
    consider "t < t'" | "t' < t" | "t = t'" by (rule linorder_cases)
    then show ?case
    proof cases
      case 1
      then have "q' = x # q" "r = None" using Cons.prems(2) by (simp_all add: x q_erase_Cons del: q_erase.simps)
      moreover have "t \<notin> fst ` set (x # q)" using 1 above by (auto simp: x dest: less_asym)
      ultimately show ?thesis using Cons.prems(1) by auto
    next
      case 2
      obtain q1 r1 where e: "q_erase t q = (q1, r1)" by (cases "q_erase t q")
      have q: "q' = x # q1" "r = r1" using Cons.prems(2) 2 e by (simp_all add: x q_erase_Cons del: q_erase.simps)
      have "t \<noteq> t'" using 2 by auto
      with Cons.IH [OF _ e] Cons.prems(1) show ?thesis unfolding q by (auto simp: x)
    next
      case 3
      then have "q' = q" "r = Some e'" using Cons.prems(2) by (simp_all add: x q_erase_Cons del: q_erase.simps)
      with 3 Cons.prems(1) show ?thesis by (auto simp: x)
    qed
  qed auto
  then show "queue_wf q'" "r = None \<longleftrightarrow> t \<notin> fst ` set q" "r = None \<Longrightarrow> q' = q"
    "r = Some e \<Longrightarrow> mset q = add_mset (t, e) (mset q')" by auto
qed

lemma split_due_spec:
  assumes "queue_wf q" "split_due now q = (d, r)"
  shows "d = map snd (filter (\<lambda>(t, e). time t \<le> now) q)" and "r = filter (\<lambda>(t, e). now < time t) q"
    and "queue_wf r" and "\<exists>p. q = p @ r \<and> d = map snd p \<and> (\<forall>x \<in> set p. time (fst x) \<le> now)"
proof -
  have a: "d = map snd (filter (\<lambda>(t, e). time t \<le> now) q) \<and> r = filter (\<lambda>(t, e). now < time t) q \<and> queue_wf r \<and>
      (\<exists>p. q = p @ r \<and> d = map snd p \<and> (\<forall>x \<in> set p. time (fst x) \<le> now))"
    using assms
  proof (induction q arbitrary: d)
    case (Cons x q)
    obtain t e where x: "x = (t, e)" by (cases x)
    have late: "now < time y" if "(y, z) \<in> set q" "now < time t" for y z
    proof -
      have "t < y" using Cons.prems(1) that(1) x by auto
      then have "time t \<le> time y" by (auto simp: token_less)
      with that(2) show ?thesis by simp
    qed
    show ?case
    proof (cases "now < time t")
      case True
      then have "r = x # q" "d = []" using Cons.prems(2) by (auto simp: x less_timeval_def)
      moreover have "filter (\<lambda>(t, e). now < time t) q = q" "filter (\<lambda>(t, e). time t \<le> now) q = []"
        using late True by (auto simp: filter_id_conv filter_empty_conv dest: leD)
      ultimately show ?thesis using True Cons.prems(1) x by simp
    next
      case False
      then obtain d' where d: "split_due now q = (d', r)" "d = e # d'"
        using Cons.prems(2) by (auto simp: x less_timeval_def split: prod.splits)
      obtain p where "q = p @ r" "d' = map snd p" "\<forall>x \<in> set p. time (fst x) \<le> now" using Cons.IH [OF _ d(1)] Cons.prems(1) by auto
      then have "x # q = (x # p) @ r \<and> d = map snd (x # p) \<and> (\<forall>y \<in> set (x # p). time (fst y) \<le> now)"
        using False by (simp add: d x not_less)
      then have p: "\<exists>p. x # q = p @ r \<and> d = map snd p \<and> (\<forall>x \<in> set p. time (fst x) \<le> now)" by blast
      have "queue_wf q" using Cons.prems(1) by simp
      from Cons.IH [OF this d(1)] have "d' = map snd (filter (\<lambda>(t, e). time t \<le> now) q)"
        "r = filter (\<lambda>(t, e). now < time t) q" "queue_wf r" by blast+
      then show ?thesis using p d(2) False by (simp add: x not_less)
    qed
  qed auto
  then show "d = map snd (filter (\<lambda>(t, e). time t \<le> now) q)" "r = filter (\<lambda>(t, e). now < time t) q"
    "queue_wf r" "\<exists>p. q = p @ r \<and> d = map snd p \<and> (\<forall>x \<in> set p. time (fst x) \<le> now)" by blast+
qed

section \<open>The stage\<close>

text \<open>
  Tokens in the queue carry nonces that were drawn before, and the event counter counts the
  queue; \<^verbatim>\<open>nextNonce\<close> wraps after \<open>2 ^ 64\<close> registrations, which the invariant leaves out.
\<close>

definition timer_inv :: "timer_stage \<Rightarrow> bool" where
  "timer_inv s \<longleftrightarrow> queue_wf (timer_queue s) \<and> (\<forall>t \<in> fst ` set (timer_queue s). nonce t < nonce_cntr s) \<and>
     num_events s = of_nat (length (timer_queue s))"

lemma timer_inv_new: "timer_inv (TimerStage_new n)"
  by (simp add: timer_inv_def TimerStage_new_def)

lemma nonce_Suc: "(n :: u64) \<noteq> -1 \<Longrightarrow> n < n + 1"
proof -
  assume "n \<noteq> -1"
  then have "1 + n \<noteq> 0" by (metis add.commute eq_neg_iff_add_eq_0)
  from unatSuc [OF this] show "n < n + 1" by (simp add: word_less_nat_alt add.commute)
qed

lemma registerTimer_spec:
  assumes "timer_inv s" "nonce_cntr s \<noteq> -1"
  obtains q where "registerTimer r s = Inr (r\<lparr>timer_cb := None, cancel_token := Token (timer_when r) (nonce_cntr s)\<rparr>,
      s\<lparr>nonce_cntr := nonce_cntr s + 1, timer_queue := q, num_events := num_events s + 1\<rparr>,
      fst (hd q) = Token (timer_when r) (nonce_cntr s))"
    and "mset q = add_mset (Token (timer_when r) (nonce_cntr s), timer_cb r) (mset (timer_queue s))"
    and "queue_wf q"
    and "timer_inv (s\<lparr>nonce_cntr := nonce_cntr s + 1, timer_queue := q, num_events := num_events s + 1\<rparr>)"
proof -
  let ?t = "Token (timer_when r) (nonce_cntr s)"
  let ?q = "fst (q_insert ?t (timer_cb r) (timer_queue s))"
  have wf: "queue_wf (timer_queue s)" using assms(1) by (simp add: timer_inv_def)
  have new: "?t \<notin> fst ` set (timer_queue s)"
    using assms(1) unfolding timer_inv_def by (metis token.sel(2) less_irrefl)
  note ins = q_insert_spec(1) [OF wf, of ?t "timer_cb r"] q_insert_spec(2-4) [OF wf new, of "timer_cb r"]
  have grow: "nonce_cntr s < nonce_cntr s + 1" by (rule nonce_Suc [OF assms(2)])
  have len: "length ?q = Suc (length (timer_queue s))"
    using arg_cong [OF ins(3), of size] by simp
  have reg: "registerTimer r s = Inr (r\<lparr>timer_cb := None, cancel_token := ?t\<rparr>,
      s\<lparr>nonce_cntr := nonce_cntr s + 1, timer_queue := ?q, num_events := num_events s + 1\<rparr>, fst (hd ?q) = ?t)"
    using ins(1) new by (auto simp: registerTimer_def nextNonce_def adoptCallbackEvent_def Let_def split: prod.splits)
  have "timer_inv (s\<lparr>nonce_cntr := nonce_cntr s + 1, timer_queue := ?q, num_events := num_events s + 1\<rparr>)"
    using assms(1) ins(2,4) grow len by (auto simp: timer_inv_def)
  with that [OF reg ins(3,4)] show thesis by blast
qed

lemma cancelTimer_spec:
  assumes "timer_inv s" "cancelTimer c s = (c', s', d)"
  shows "timer_inv s'" and "cancelled c' \<longleftrightarrow> ctoken c \<in> fst ` set (timer_queue s)" and "d = None \<longleftrightarrow> \<not> cancelled c'"
    and "d = Some e \<Longrightarrow> mset (timer_queue s) = add_mset (ctoken c, e) (mset (timer_queue s'))"
    and "d = None \<Longrightarrow> s' = s" and "nonce_cntr s' = nonce_cntr s"
proof -
  obtain q r where e: "q_erase (ctoken c) (timer_queue s) = (q, r)" by (cases "q_erase (ctoken c) (timer_queue s)")
  have wf: "queue_wf (timer_queue s)" using assms(1) by (simp add: timer_inv_def)
  note er = q_erase_spec [OF wf e]
  have len: "length (timer_queue s) = Suc (length q)" "set q \<subseteq> set (timer_queue s)" if "r = Some e" for e
    using arg_cong [OF er(4) [OF that], of size] arg_cong [OF er(4) [OF that], of set_mset] by auto
  have c: "(c', s', d) = (case r of Some e \<Rightarrow> (c\<lparr>cancelled := True\<rparr>, s\<lparr>timer_queue := q, num_events := num_events s - 1\<rparr>, Some e)
     | None \<Rightarrow> (c\<lparr>cancelled := False\<rparr>, s, None))"
    using assms(2) e by (auto simp: cancelTimer_def split: option.splits)
  show "timer_inv s'" using c assms(1) er(1) len by (cases r) (auto simp: timer_inv_def)
  show "cancelled c' \<longleftrightarrow> ctoken c \<in> fst ` set (timer_queue s)" "d = None \<longleftrightarrow> \<not> cancelled c'"
    using c er(2) by (cases r; simp)+
  show "d = Some e \<Longrightarrow> mset (timer_queue s) = add_mset (ctoken c, e) (mset (timer_queue s'))"
    using c er(4) [of e] by (cases r) auto
  show "d = None \<Longrightarrow> s' = s" "nonce_cntr s' = nonce_cntr s" using c by (cases r; simp)+
qed

lemma checkTimer_spec:
  assumes "timer_inv s" "checkTimer now s = (d, s', a)"
  shows "timer_inv s'" and "d = map snd (filter (\<lambda>(t, e). time t \<le> now) (timer_queue s))"
    and "timer_queue s' = filter (\<lambda>(t, e). now < time t) (timer_queue s)"
    and "nonce_cntr s' = nonce_cntr s" and "shutdown s' = shutdown s"
    and "a = (if shutdown s then Abandon else case timer_queue s' of [] \<Rightarrow> SleepForever | x # _ \<Rightarrow> SleepUntil (time (fst x)))"
    and "\<exists>p. timer_queue s = p @ timer_queue s' \<and> d = map snd p \<and> (\<forall>x \<in> set p. time (fst x) \<le> now)"
proof -
  obtain q where e: "split_due now (timer_queue s) = (d, q)" and
    s': "s' = s\<lparr>timer_queue := q, num_events := num_events s - of_nat (length d)\<rparr>" and
    a: "a = (if shutdown s then Abandon else case q of [] \<Rightarrow> SleepForever | x # _ \<Rightarrow> SleepUntil (time (fst x)))"
    using assms(2) by (auto simp: checkTimer_def Let_def split: prod.splits list.splits if_splits)
  have wf: "queue_wf (timer_queue s)" using assms(1) by (simp add: timer_inv_def)
  note sp = split_due_spec [OF wf e]
  obtain p where p: "timer_queue s = p @ q" "d = map snd p" "\<forall>x \<in> set p. time (fst x) \<le> now" using sp(4) by blast
  show "timer_inv s'" using assms(1) sp(3) p by (auto simp: timer_inv_def s')
  show "d = map snd (filter (\<lambda>(t, e). time t \<le> now) (timer_queue s))" by (rule sp(1))
  show "timer_queue s' = filter (\<lambda>(t, e). now < time t) (timer_queue s)" using sp(2) by (simp add: s')
  show "nonce_cntr s' = nonce_cntr s" "shutdown s' = shutdown s" by (simp_all add: s')
  show "a = (if shutdown s then Abandon else case timer_queue s' of [] \<Rightarrow> SleepForever | x # _ \<Rightarrow> SleepUntil (time (fst x)))"
    using a by (simp add: s')
  show "\<exists>p. timer_queue s = p @ timer_queue s' \<and> d = map snd p \<and> (\<forall>x \<in> set p. time (fst x) \<le> now)" using p by (auto simp: s')
qed

section \<open>A history of the stage\<close>

datatype timer_op = OpRegister timer_register | OpCancel timer_cancel | OpCheck timeval

text \<open>What became of the events so far: fired with the clock reading, or deleted by a cancellation.\<close>

record history =
  registered :: "(token \<times> event_ptr) list"
  fired :: "(timeval \<times> event_ptr) list"
  deleted :: "event_ptr list"

definition timer_exec :: "timer_op \<Rightarrow> timer_stage \<times> history \<Rightarrow> fault + (timer_stage \<times> history)" where
  "timer_exec oper = (\<lambda>(s, h). case oper of
      OpRegister r \<Rightarrow> (case registerTimer r s of Inl f \<Rightarrow> Inl f
        | Inr (r', s', _) \<Rightarrow> Inr (s', h\<lparr>registered := registered h @ [(cancel_token r', timer_cb r)]\<rparr>))
    | OpCancel c \<Rightarrow> (case cancelTimer c s of (_, s', d) \<Rightarrow>
        Inr (s', h\<lparr>deleted := deleted h @ (case d of None \<Rightarrow> [] | Some e \<Rightarrow> [e])\<rparr>))
    | OpCheck now \<Rightarrow> (case checkTimer now s of (d, s', _) \<Rightarrow> Inr (s', h\<lparr>fired := fired h @ map (Pair now) d\<rparr>)))"

fun timer_run :: "timer_op list \<Rightarrow> timer_stage \<times> history \<Rightarrow> fault + (timer_stage \<times> history)" where
  "timer_run [] sh = Inr sh"
| "timer_run (oper # ops) sh = (case timer_exec oper sh of Inl f \<Rightarrow> Inl f | Inr sh' \<Rightarrow> timer_run ops sh')"

definition history_inv :: "timer_stage \<times> history \<Rightarrow> bool" where
  "history_inv = (\<lambda>(s, h). timer_inv s \<and>
     image_mset snd (mset (registered h)) =
       image_mset snd (mset (fired h)) + mset (deleted h) + image_mset snd (mset (timer_queue s)) \<and>
     set (timer_queue s) \<subseteq> set (registered h) \<and>
     (\<forall>(now, e) \<in> set (fired h). \<exists>t. (t, e) \<in> set (registered h) \<and> time t \<le> now))"

lemma timer_exec_inv:
  assumes "history_inv (s, h)" "nonce_cntr s \<noteq> -1"
  shows "\<exists>s' h'. timer_exec oper (s, h) = Inr (s', h') \<and> history_inv (s', h') \<and>
    (nonce_cntr s' = nonce_cntr s \<or> nonce_cntr s' = nonce_cntr s + 1)"
proof (cases oper)
  case (OpRegister r)
  have inv: "timer_inv s" using assms(1) by (simp add: history_inv_def)
  obtain q where q: "registerTimer r s = Inr (r\<lparr>timer_cb := None, cancel_token := Token (timer_when r) (nonce_cntr s)\<rparr>,
      s\<lparr>nonce_cntr := nonce_cntr s + 1, timer_queue := q, num_events := num_events s + 1\<rparr>,
      fst (hd q) = Token (timer_when r) (nonce_cntr s))"
    "mset q = add_mset (Token (timer_when r) (nonce_cntr s), timer_cb r) (mset (timer_queue s))"
    "timer_inv (s\<lparr>nonce_cntr := nonce_cntr s + 1, timer_queue := q, num_events := num_events s + 1\<rparr>)"
    using registerTimer_spec [OF inv assms(2), of r] by metis
  have "set q = insert (Token (timer_when r) (nonce_cntr s), timer_cb r) (set (timer_queue s))"
    using arg_cong [OF q(2), of set_mset] by simp
  with q assms(1) show ?thesis
    by (auto simp: OpRegister timer_exec_def history_inv_def)
next
  case (OpCancel c)
  obtain c' s' d where e: "cancelTimer c s = (c', s', d)" by (cases "cancelTimer c s")
  have inv: "timer_inv s" using assms(1) by (simp add: history_inv_def)
  note sp = cancelTimer_spec [OF inv e]
  show ?thesis
  proof (cases d)
    case None then show ?thesis using sp assms(1) by (auto simp: OpCancel timer_exec_def e)
  next
    case (Some x)
    have "set (timer_queue s') \<subseteq> set (timer_queue s)"
      using arg_cong [OF sp(4) [OF Some], of set_mset] by auto
    then show ?thesis using sp(1,6) sp(4) [OF Some] assms(1) Some
      by (auto simp: OpCancel timer_exec_def e history_inv_def)
  qed
next
  case (OpCheck now)
  obtain d s' a where e: "checkTimer now s = (d, s', a)" by (cases "checkTimer now s")
  have inv: "timer_inv s" using assms(1) by (simp add: history_inv_def)
  note sp = checkTimer_spec [OF inv e]
  obtain p where p: "timer_queue s = p @ timer_queue s'" "d = map snd p" "\<forall>x \<in> set p. time (fst x) \<le> now"
    using sp(7) by blast
  have sub: "set p \<subseteq> set (registered h)" using assms(1) p(1) by (auto simp: history_inv_def)
  have m: "image_mset snd (mset (map (Pair now) d)) = mset d" for d :: "event_ptr list"
    by (induction d) auto
  have f: "\<exists>t. (t, e) \<in> set (registered h) \<and> time t \<le> now" if "e \<in> set d" for e
    using that p(2,3) sub by force
  show ?thesis using sp(1,4) p(1,2) f assms(1) m [of d]
    by (auto simp: OpCheck timer_exec_def e history_inv_def)
qed

lemma timer_run_inv:
  "history_inv (s, h) \<Longrightarrow> unat (nonce_cntr s) + length ops < 2 ^ 64 \<Longrightarrow>
     \<exists>s' h'. timer_run ops (s, h) = Inr (s', h') \<and> history_inv (s', h')"
proof (induction ops arbitrary: s h)
  case (Cons oper ops)
  have n: "nonce_cntr s \<noteq> -1"
  proof
    assume "nonce_cntr s = -1"
    then have "unat (nonce_cntr s) = 2 ^ 64 - 1" by (simp add: unsigned_minus_1_eq_mask mask_eq_exp_minus_1)
    with Cons.prems(2) show False by simp
  qed
  obtain s' h' where e: "timer_exec oper (s, h) = Inr (s', h')" "history_inv (s', h')"
    "nonce_cntr s' = nonce_cntr s \<or> nonce_cntr s' = nonce_cntr s + 1"
    using timer_exec_inv [OF Cons.prems(1) n] by metis
  have "unat (nonce_cntr s') \<le> Suc (unat (nonce_cntr s))"
    using e(3) nonce_Suc [OF n] by (auto simp: unat_word_ariths)
  with Cons.prems(2) Cons.IH [OF e(2)] e(1) show ?case by simp
qed simp

section \<open>The maintenance thread and the stages that wake it\<close>

text \<open>
  The mutex \<^verbatim>\<open>timer_mutex\<close> makes each registration, each cancellation and each round of the thread
  one step; the call of \<^verbatim>\<open>triggerTimerCheck\<close> comes later and is a step of its own. The wait may
  end by a signal, at its deadline or spuriously.
\<close>

datatype mthread = Round | Asleep "timeval option" | Ended

record tsys =
  tst :: timer_stage
  thread :: mthread
  triggers :: nat

definition wake :: "mthread \<Rightarrow> mthread" where
  "wake th = (case th of Asleep _ \<Rightarrow> Round | _ \<Rightarrow> th)"

inductive timer_step :: "tsys \<Rightarrow> tsys \<Rightarrow> bool" where
  t_register: "registerTimer r (tst x) = Inr (r', s', check) \<Longrightarrow>
     timer_step x (x\<lparr>tst := s', triggers := triggers x + (if check then 1 else 0)\<rparr>)"
| t_trigger: "0 < triggers x \<Longrightarrow> timer_step x (x\<lparr>thread := wake (thread x), triggers := triggers x - 1\<rparr>)"
| t_cancel: "cancelTimer c (tst x) = (c', s', d) \<Longrightarrow> timer_step x (x\<lparr>tst := s'\<rparr>)"
| t_round: "thread x = Round \<Longrightarrow> checkTimer now (tst x) = (d, s', a) \<Longrightarrow>
     timer_step x (x\<lparr>tst := s', thread := (case a of Abandon \<Rightarrow> Ended | SleepForever \<Rightarrow> Asleep None
        | SleepUntil t \<Rightarrow> Asleep (Some t))\<rparr>)"
| t_timeout: "thread x = Asleep t \<Longrightarrow> timer_step x (x\<lparr>thread := Round\<rparr>)"
| t_shutdown: "timer_step x (x\<lparr>tst := disconnectPrepare (tst x), thread := wake (thread x)\<rparr>)"

definition timer_start :: "tsys \<Rightarrow> bool" where
  "timer_start x \<longleftrightarrow> x = \<lparr>tst = TimerStage_new 0, thread = Round, triggers = 0\<rparr>"

text \<open>
  A thread that sleeps will not oversleep the earliest deadline, unless a trigger is on its way;
  and it does not sleep through a shutdown.
\<close>

definition covered :: "mthread \<Rightarrow> timer_queue \<Rightarrow> bool" where
  "covered th q = (case th of Asleep None \<Rightarrow> q = []
     | Asleep (Some t) \<Rightarrow> (\<forall>x \<in> set q. t \<le> time (fst x)) | _ \<Rightarrow> True)"

definition tsys_inv :: "tsys \<Rightarrow> bool" where
  "tsys_inv x \<longleftrightarrow> queue_wf (timer_queue (tst x)) \<and>
     (triggers x = 0 \<longrightarrow> covered (thread x) (timer_queue (tst x))) \<and>
     (shutdown (tst x) \<longrightarrow> thread x = Round \<or> thread x = Ended) \<and> (thread x = Ended \<longrightarrow> shutdown (tst x))"

lemma covered_wake [simp]: "covered (wake th) q"
  by (cases th) (auto simp: covered_def wake_def)

lemma register_covered:
  assumes "queue_wf q" "q_insert tt e q = (q', True)" "fst (hd q') \<noteq> tt" "covered th q"
  shows "covered th q'"
proof -
  have new: "tt \<notin> fst ` set q" using q_insert_spec(1) [OF assms(1), of tt e] assms(2) by simp
  note ins = q_insert_spec(2,4) [OF assms(1) new, of e]
  have st: "set q' = insert (tt, e) (set q)" and wf: "queue_wf q'" using ins assms(2) by simp_all
  obtain x r where q': "q' = x # r" using st by (cases q') auto
  have xq: "x \<in> set q" using st assms(3) q' by (metis fst_conv insertE list.sel(1) list.set_intros(1))
  have "(tt, e) \<in> set r" using st assms(3) q' by (metis fst_conv insertI1 list.sel(1) set_ConsD)
  then have "fst x < tt" using wf q' by auto
  then have "time (fst x) \<le> time tt" by (auto simp: token_less)
  with assms(4) xq st show ?thesis
    by (auto simp: covered_def split: mthread.splits option.splits intro: order_trans)
qed

lemma round_covered:
  assumes "queue_wf q"
  shows "covered (case (case q of [] \<Rightarrow> SleepForever | x # _ \<Rightarrow> SleepUntil (time (fst x))) of Abandon \<Rightarrow> Ended
    | SleepForever \<Rightarrow> Asleep None | SleepUntil t \<Rightarrow> Asleep (Some t)) q"
proof (cases q)
  case (Cons x r)
  have "time (fst x) \<le> time (fst y)" if "y \<in> set r" for y
    using assms that by (auto simp: Cons token_less)
  then show ?thesis by (simp add: Cons covered_def)
qed (simp add: covered_def)

interpretation timer: machine timer_start timer_step tsys_inv
proof
  fix x assume "timer_start x"
  then show "tsys_inv x" by (simp add: timer_start_def tsys_inv_def TimerStage_new_def covered_def)
next
  fix x y assume inv: "tsys_inv x" and "timer_step x y"
  from this(2) show "tsys_inv y"
  proof (cases rule: timer_step.cases)
    case (t_register r r' s' check)
    let ?tt = "Token (timer_when r) (nonce_cntr (tst x))"
    have wf: "queue_wf (timer_queue (tst x))" using inv by (simp add: tsys_inv_def)
    obtain q where q: "q_insert ?tt (timer_cb r) (timer_queue (tst x)) = (q, True)" "timer_queue s' = q"
      "check \<longleftrightarrow> fst (hd q) = ?tt" "shutdown s' = shutdown (tst x)"
      using t_register(2)
      by (auto simp: registerTimer_def nextNonce_def adoptCallbackEvent_def Let_def split: prod.splits if_splits)
    have new: "?tt \<notin> fst ` set (timer_queue (tst x))" using q_insert_spec(1) [OF wf, of ?tt "timer_cb r"] q(1) by simp
    have "queue_wf q" using q_insert_spec(4) [OF wf new, of "timer_cb r"] q(1) by simp
    then show ?thesis using register_covered [OF wf q(1)] inv q(2-4) by (auto simp: t_register tsys_inv_def)
  next
    case t_trigger
    then show ?thesis using inv by (auto simp: tsys_inv_def wake_def covered_def split: mthread.splits)
  next
    case (t_cancel c c' s' d)
    obtain q r where e: "q_erase (ctoken c) (timer_queue (tst x)) = (q, r)"
      by (cases "q_erase (ctoken c) (timer_queue (tst x))")
    have wf: "queue_wf (timer_queue (tst x))" using inv by (simp add: tsys_inv_def)
    note sp = q_erase_spec [OF wf e]
    have "set q \<subseteq> set (timer_queue (tst x))"
      using sp(3) arg_cong [OF sp(4), of _ set_mset] by (cases r) auto
    moreover have "timer_queue s' = q \<or> timer_queue s' = timer_queue (tst x)" "shutdown s' = shutdown (tst x)"
      using t_cancel(2) e by (auto simp: cancelTimer_def split: option.splits)
    ultimately show ?thesis using inv sp(1)
      by (auto simp: t_cancel tsys_inv_def covered_def split: mthread.splits option.splits)
  next
    case (t_round now d s' a)
    obtain q where e: "split_due now (timer_queue (tst x)) = (d, q)" "timer_queue s' = q" "shutdown s' = shutdown (tst x)"
      and a: "a = (if shutdown (tst x) then Abandon else case q of [] \<Rightarrow> SleepForever | x # _ \<Rightarrow> SleepUntil (time (fst x)))"
      using t_round(3) by (auto simp: checkTimer_def Let_def split: prod.splits list.splits if_splits)
    have wf: "queue_wf (timer_queue (tst x))" using inv by (simp add: tsys_inv_def)
    have q: "queue_wf q" by (rule split_due_spec(3) [OF wf e(1)])
    show ?thesis
    proof (cases "shutdown (tst x)")
      case True then show ?thesis using q e by (simp add: t_round a tsys_inv_def covered_def)
    next
      case False then show ?thesis using q e round_covered [OF q] inv
        by (simp add: t_round a tsys_inv_def split: list.splits)
    qed
  next
    case t_timeout
    then show ?thesis using inv by (auto simp: tsys_inv_def covered_def)
  next
    case t_shutdown
    then show ?thesis using inv by (auto simp: tsys_inv_def wake_def covered_def disconnectPrepare_def split: mthread.splits)
  qed
qed

section \<open>What the timer stage promises\<close>

text \<open>Sums and differences of time values are exact and normalised: the microseconds stay within a second and
  the value is the sum (difference) in microseconds; adding what was subtracted gives the value back.\<close>

theorem timeval_arithmetic:
  assumes "normal a" "normal b"
  shows "usecs (addTimeval a b) = usecs a + usecs b \<and> usecs (subTimeval a b) = usecs a - usecs b \<and>
    normal (addTimeval a b) \<and> normal (subTimeval a b) \<and> addTimeval b (subTimeval a b) = a"
proof (intro conjI)
  have s: "usecs (addTimeval a b) = usecs a + usecs b" "usecs (subTimeval a b) = usecs a - usecs b" for a b
    unfolding addTimeval_def subTimeval_def carry_usec_value borrow_usec_value by (simp_all add: usecs_def algebra_simps)
  have n: "normal (addTimeval a b)" if "normal a" "normal b" for a b
    unfolding addTimeval_def using that by (intro carry_usec_normal) (simp add: normal_def)
  show "usecs (addTimeval a b) = usecs a + usecs b" "usecs (subTimeval a b) = usecs a - usecs b" by (rule s)+
  show "normal (addTimeval a b)" by (rule n [OF assms])
  show m: "normal (subTimeval a b)"
    unfolding subTimeval_def using assms by (intro borrow_usec_normal) (simp add: normal_def)
  show "addTimeval b (subTimeval a b) = a"
    by (rule usecs_inj [OF n [OF assms(2) m] assms(1)]) (simp add: s)
qed

theorem timeval_arithmetic_witness:
  "addTimeval (TV 3 700000) (subTimeval (TV 5 200000) (TV 3 700000)) = TV 5 200000 \<and>
   usecs (subTimeval (TV 5 200000) (TV 3 700000)) = 1500000"
  using timeval_arithmetic [of "TV 5 200000" "TV 3 700000"]
  by (simp add: normal_def usecs_def)

text \<open>C5: Every timer is settled exactly once, and never early: after any sequence of registrations, cancellations
  and rounds of the maintenance thread (fewer than the nonces left), the callback events registered are, with
  multiplicity, those fired, those deleted by a cancellation and those still queued; each fired event had a
  registered deadline that the clock had reached; and \<^verbatim>\<open>num_events\<close> is the length of the queue.\<close>

theorem timer_exactly_once:
  assumes "unat n + length ops < 2 ^ 64"
  shows "\<exists>s h. timer_run ops (TimerStage_new n, \<lparr>registered = [], fired = [], deleted = []\<rparr>) = Inr (s, h) \<and>
     image_mset snd (mset (registered h)) =
       image_mset snd (mset (fired h)) + mset (deleted h) + image_mset snd (mset (timer_queue s)) \<and>
     (\<forall>(now, e) \<in> set (fired h). \<exists>t. (t, e) \<in> set (registered h) \<and> time t \<le> now) \<and>
     sorted_wrt (<) (map fst (timer_queue s)) \<and> num_events s = of_nat (length (timer_queue s))"
proof -
  have "history_inv (TimerStage_new n, \<lparr>registered = [], fired = [], deleted = []\<rparr>)"
    by (simp add: history_inv_def timer_inv_new) (simp add: TimerStage_new_def)
  from timer_run_inv [OF this, of ops] assms show ?thesis
    by (auto simp: history_inv_def timer_inv_def queue_wf_def TimerStage_new_def)
qed

theorem timer_exactly_once_witness:
  "\<exists>s h. timer_run [OpRegister (TimerRegisterEvent_rel 7 5 (1, 0) 0), OpCheck (TV 1 4), OpCheck (TV 1 5)]
      (TimerStage_new 0, \<lparr>registered = [], fired = [], deleted = []\<rparr>) = Inr (s, h) \<and> fired h = [(TV 1 5, Some 7)]"
  using timer_exactly_once [of 0 "[OpRegister (TimerRegisterEvent_rel 7 5 (1, 0) 0), OpCheck (TV 1 4), OpCheck (TV 1 5)]"]
  by (simp add: timer_exec_def registerTimer_def nextNonce_def adoptCallbackEvent_def TimerRegisterEvent_rel_def
      relative_when_def TimerStage_new_def checkTimer_def TIMEVAL_LESS_THAN_def Let_def)




text \<open>The thread finds an empty queue, sleeps, and a registration wakes it.\<close>

lemma demo_asleep: "timer.reach \<lparr>tst = TimerStage_new 0, thread = Asleep None, triggers = 0\<rparr>"
proof -
  have a: "timer.reach \<lparr>tst = TimerStage_new 0, thread = Round, triggers = 0\<rparr>"
    by (rule timer.reach_start) (simp add: timer_start_def)
  show ?thesis
    by (rule timer.reach_step [OF a])
      (use timer_step.t_round [of "\<lparr>tst = TimerStage_new 0, thread = Round, triggers = 0\<rparr>" "TV 0 0" "[]" "TimerStage_new 0" SleepForever]
        in \<open>simp add: checkTimer_def TimerStage_new_def\<close>)
qed


end
