(* ===== verification/Conn.thy ===== *)
theory Conn
  imports Events Messages
begin

text \<open>
  I/O vectors and connections (src/net/iovec.cpp, conn.cpp, include/net/iovec.h, conn.h). A
  connection keeps a queue of vectors to send and one to receive into; the progress functions
  move bytes between the socket and the memory the vectors point to, as far as the socket
  allows, and call a vector's callback when it is complete or has failed. The socket is what the
  kernel answers to \<^verbatim>\<open>::recv\<close> and \<^verbatim>\<open>::send\<close>, as lists that the calls consume.
\<close>

section \<open>Memory and the socket\<close>

type_synonym addr = nat   \<comment> \<open>0 is NULL\<close>

datatype in_item = InData string | InAgain | InEof | InErr
datatype out_item = OutSpace nat | OutAgain | OutPipe | OutErr

record world =
  heap :: "addr \<Rightarrow> string option"
  nextp :: addr                      \<comment> \<open>addresses from here on were never allocated\<close>
  sin :: "in_item list"
  sout :: string
  squota :: "out_item list"
  globalActSn :: u64

definition new_buf :: "nat \<Rightarrow> 'z world_scheme \<Rightarrow> addr \<times> 'z world_scheme" where
  "new_buf n w = (nextp w, w\<lparr>heap := (heap w)(nextp w := Some (replicate n NUL)), nextp := nextp w + 1\<rparr>)"

definition delete_buf :: "addr \<Rightarrow> 'z world_scheme \<Rightarrow> fault + 'z world_scheme" where
  "delete_buf p w = (if p = 0 then Inr w else case heap w p of None \<Rightarrow> Inl Dangling
     | Some _ \<Rightarrow> Inr (w\<lparr>heap := (heap w)(p := None)\<rparr>))"

definition mem_write :: "addr \<Rightarrow> nat \<Rightarrow> string \<Rightarrow> 'z world_scheme \<Rightarrow> fault + 'z world_scheme" where
  "mem_write p off bs w = (case heap w p of None \<Rightarrow> Inl Dangling
     | Some buf \<Rightarrow> if off + length bs \<le> length buf
         then Inr (w\<lparr>heap := (heap w)(p := Some (poke off bs buf))\<rparr>) else Inl Dangling)"

definition mem_read :: "addr \<Rightarrow> nat \<Rightarrow> nat \<Rightarrow> 'z world_scheme \<Rightarrow> fault + string" where
  "mem_read p off n w = (case heap w p of None \<Rightarrow> Inl Dangling
     | Some buf \<Rightarrow> if off + n \<le> length buf then Inr (peek off n buf) else Inl Dangling)"

definition and_then :: "fault + 'a \<Rightarrow> ('a \<Rightarrow> fault + 'b) \<Rightarrow> fault + 'b" where
  "and_then m f = (case m of Inl e \<Rightarrow> Inl e | Inr x \<Rightarrow> f x)"

lemma and_then_simps [simp]: "and_then (Inl e) f = Inl e" "and_then (Inr x) f = f x"
  by (simp_all add: and_then_def)

text \<open>One call of \<^verbatim>\<open>::recv\<close> for at most \<open>n\<close> bytes; an empty answer is the return value 0.\<close>

datatype io_result = Got string | Again | Broken

fun sys_recv :: "nat \<Rightarrow> in_item list \<Rightarrow> io_result \<times> in_item list" where
  "sys_recv n [] = (Again, [])"
| "sys_recv n (InData d # q) = (if length d \<le> n then (Got d, q) else (Got (take n d), InData (drop n d) # q))"
| "sys_recv n (InAgain # q) = (Again, q)"
| "sys_recv n (InEof # q) = (Got [], InEof # q)"
| "sys_recv n (InErr # q) = (Broken, q)"

text \<open>One call of \<^verbatim>\<open>::send\<close> of \<open>n\<close> bytes: how many the kernel takes.\<close>

datatype send_result = Took nat | SAgain | SBroken

fun sys_send :: "nat \<Rightarrow> out_item list \<Rightarrow> send_result \<times> out_item list" where
  "sys_send n [] = (SAgain, [])"
| "sys_send n (OutSpace k # q) = (if k \<le> n then (Took k, q) else (Took n, OutSpace (k - n) # q))"
| "sys_send n (OutAgain # q) = (SAgain, q)"
| "sys_send n (OutPipe # q) = (SBroken, q)"
| "sys_send n (OutErr # q) = (SBroken, q)"

section \<open>I/O vectors\<close>

type_synonym cev_id = nat

datatype iostate = DONE | ERROR | CLEANUP
datatype alloc_t = SYS_ALLOC | USER_ALLOC

text \<open>
  The parameter block of a callback. The receive side of a connection has one block, which its
  vectors share and which is kept with the connection; a send vector has a block of its own.
\<close>

record cb_param =
  cbCev :: "cev_id option"
  cbCs :: bool                 \<comment> \<open>\<^verbatim>\<open>cs\<close> is not NULL\<close>
  eventDone :: bool
  reqId :: u32
  remainVecs :: u32
  attLen :: u32
  fileLen :: u64
  fileOffset :: u64
  filePath :: string
  drainLen :: u64

definition cb_param_zero :: cb_param where
  "cb_param_zero = \<lparr>cbCev = None, cbCs = False, eventDone = False, reqId = 0, remainVecs = 0, attLen = 0,
     fileLen = 0, fileOffset = 0, filePath = [], drainLen = 0\<rparr>"

datatype callback_t = NoCb | RecvCb | SendCb
datatype cbparam = NoParam | RecvParam | SendParam cb_param

record iovec =
  base :: addr
  vsize :: nat
  xferred :: nat
  callback :: callback_t
  cbParam :: cbparam
  alloc :: alloc_t

record vec_t =
  vbase :: addr
  vlen :: int

definition IoVec_full :: "addr \<Rightarrow> nat \<Rightarrow> callback_t \<Rightarrow> cbparam \<Rightarrow> alloc_t \<Rightarrow> iovec" where
  "IoVec_full b n cb p al = \<lparr>base = b, vsize = n, xferred = 0, callback = cb, cbParam = p, alloc = al\<rparr>"

definition IoVec_vec :: "vec_t \<Rightarrow> alloc_t \<Rightarrow> iovec" where
  "IoVec_vec v al = IoVec_full (vbase v) (nat (vlen v)) NoCb NoParam al"

definition iov_cleanup :: "iovec \<Rightarrow> 'z world_scheme \<Rightarrow> fault + (iovec \<times> 'z world_scheme)" where
  "iov_cleanup v w = and_then (if base v \<noteq> 0 \<and> alloc v = SYS_ALLOC then delete_buf (base v) w else Inr w)
     (\<lambda>w'. Inr (v\<lparr>base := (if base v \<noteq> 0 \<and> alloc v = SYS_ALLOC then 0 else base v), cbParam := NoParam\<rparr>, w'))"

definition setVec :: "addr \<Rightarrow> nat \<Rightarrow> iovec \<Rightarrow> iovec" where
  "setVec b n v = v\<lparr>base := b, vsize := n, xferred := 0\<rparr>"

definition setCallback :: "callback_t \<Rightarrow> cbparam \<Rightarrow> iovec \<Rightarrow> iovec" where
  "setCallback cb p v = v\<lparr>callback := cb, cbParam := p\<rparr>"

definition incXferred :: "nat \<Rightarrow> iovec \<Rightarrow> iovec" where
  "incXferred n v = v\<lparr>xferred := xferred v + n\<rparr>"

definition iov_reset :: "iovec \<Rightarrow> iovec" where
  "iov_reset v = v\<lparr>xferred := 0\<rparr>"

definition remain :: "iovec \<Rightarrow> nat" where
  "remain v = vsize v - xferred v"

definition iov_done :: "iovec \<Rightarrow> bool" where
  "iov_done v = (xferred v = vsize v)"

definition started :: "iovec \<Rightarrow> bool" where
  "started v = (xferred v > 0)"

section \<open>Connections\<close>

datatype conn_status = C_SUCCESS | CONN_READY | CONN_CONNECTING | CONN_ERR_CREATE | CONN_ERR_CONNECT
  | CONN_ERR_DISCONNECT | CONN_ERR_NOVEC | CONN_ERR_NOMEM | CONN_ERR_NOCEV | CONN_ERR_MISMATCH
  | CONN_ERR_BROKEN | CONN_ERR_WRITEFILE | CONN_ERR_BUSY | CONN_ERR_UNAVAIL

datatype nextrecv = HEADER | MESSAGE | ATTACHMENT | ATTACHFILE | DRAIN
datatype cleanup_t = ON_CLEANUP | ON_ERROR

record conn =
  mSock :: int
  mNextRecvPart :: nextrecv
  mConnState :: conn_status
  mCleaning :: bool
  mCleanType :: cleanup_t
  mRefCount :: int
  msgOut :: u32
  msgIn :: u32
  mActivitySn :: u64
  mPeerEp :: endpoint
  mCurSendBlock :: "iovec option"
  mSendQ :: "iovec list"
  mReadyToSend :: bool
  mCurRecvBlock :: "iovec option"
  mRecvQ :: "iovec list"
  mReadyRecv :: bool
  mRecvCb :: "cb_param option"
  mSendEventMap :: "(u32 \<times> cev_id) list"
  freed :: bool

abbreviation SOCK_DISCONNECTED :: int where "SOCK_DISCONNECTED \<equiv> -1"

text \<open>\<^verbatim>\<open>updateActSn\<close>: the activity number orders the connections by their last activity.\<close>

definition updateActSn :: "conn \<times> 'z world_scheme \<Rightarrow> conn \<times> 'z world_scheme" where
  "updateActSn = (\<lambda>(c, w). let sn = globalActSn w + 1 in (c\<lparr>mActivitySn := sn\<rparr>, w\<lparr>globalActSn := sn\<rparr>))"

definition Conn_new :: "endpoint \<Rightarrow> 'z world_scheme \<Rightarrow> conn \<times> 'z world_scheme" where
  "Conn_new ep w = updateActSn
     (\<lparr>mSock = SOCK_DISCONNECTED, mNextRecvPart = HEADER, mConnState = C_SUCCESS, mCleaning = False,
       mCleanType = ON_CLEANUP, mRefCount = 0, msgOut = 0, msgIn = 0, mActivitySn = 0, mPeerEp = ep,
       mCurSendBlock = None, mSendQ = [], mReadyToSend = False, mCurRecvBlock = None, mRecvQ = [],
       mReadyRecv = False, mRecvCb = None, mSendEventMap = [], freed = False\<rparr>, w)"

text \<open>
  \<^verbatim>\<open>connect\<close>: \<open>created\<close> is the socket \<^verbatim>\<open>Sock::create\<close> made, if it did, and
  \<open>rc\<close> the answer of \<^verbatim>\<open>Sock::connectTo\<close>.
\<close>

datatype sock_status = SOCK_SUCCESS | SOCK_CONNECTING | SOCK_ERR

definition conn_setup :: "int \<Rightarrow> conn \<Rightarrow> conn" where
  "conn_setup sock c = c\<lparr>mSock := sock\<rparr>"

definition conn_connect :: "int option \<Rightarrow> sock_status \<Rightarrow> conn \<Rightarrow> conn_status \<times> conn \<times> int" where
  "conn_connect created rc c = (case created of
      None \<Rightarrow> (CONN_ERR_CREATE, c, -1)
    | Some sock \<Rightarrow> let c' = conn_setup sock c in
        (case rc of SOCK_CONNECTING \<Rightarrow> (CONN_CONNECTING, c', sock)
         | SOCK_SUCCESS \<Rightarrow> (C_SUCCESS, c', sock)
         | SOCK_ERR \<Rightarrow> (CONN_ERR_CONNECT, c', sock)))"

definition acquire :: "conn \<Rightarrow> conn" where
  "acquire c = c\<lparr>mRefCount := mRefCount c + 1\<rparr>"

definition isIdle :: "conn \<Rightarrow> bool" where
  "isIdle c = (mRefCount c = 0)"

definition postSend :: "iovec list \<Rightarrow> conn \<Rightarrow> conn" where
  "postSend vs c = c\<lparr>mSendQ := mSendQ c @ vs\<rparr>"

definition postRecv :: "iovec list \<Rightarrow> conn \<Rightarrow> conn" where
  "postRecv vs c = c\<lparr>mRecvQ := mRecvQ c @ vs\<rparr>"

definition setReadyToSend :: "bool \<Rightarrow> conn \<Rightarrow> conn" where
  "setReadyToSend b c = c\<lparr>mReadyToSend := b\<rparr>"

definition setNextRecv :: "nextrecv \<Rightarrow> conn \<Rightarrow> conn" where
  "setNextRecv nr c = c\<lparr>mNextRecvPart := nr\<rparr>"

definition setState :: "conn_status \<Rightarrow> conn \<Rightarrow> conn" where
  "setState st c = c\<lparr>mConnState := st\<rparr>"

definition setSock :: "int \<Rightarrow> conn \<Rightarrow> conn" where
  "setSock s c = c\<lparr>mSock := s\<rparr>"

definition connected :: "conn \<Rightarrow> bool" where
  "connected c = (mSock c \<noteq> SOCK_DISCONNECTED)"

definition messageOut :: "conn \<Rightarrow> conn" where "messageOut c = c\<lparr>msgOut := msgOut c + 1\<rparr>"
definition messageIn :: "conn \<Rightarrow> conn" where "messageIn c = c\<lparr>msgIn := msgIn c + 1\<rparr>"

text \<open>The map of the requests that wait for their response; \<^verbatim>\<open>insert\<close> keeps an entry that is there.\<close>

definition addEventEntry :: "u32 \<Rightarrow> cev_id \<Rightarrow> conn \<Rightarrow> conn" where
  "addEventEntry i e c = (case map_of (mSendEventMap c) i of
      None \<Rightarrow> c\<lparr>mSendEventMap := insort_key fst (i, e) (mSendEventMap c)\<rparr> | Some _ \<Rightarrow> c)"

definition removeEventEntry :: "u32 \<Rightarrow> conn \<Rightarrow> conn" where
  "removeEventEntry i c = c\<lparr>mSendEventMap := filter (\<lambda>p. fst p \<noteq> i) (mSendEventMap c)\<rparr>"

definition getAndRmEvent :: "u32 \<Rightarrow> conn \<Rightarrow> cev_id option \<times> conn" where
  "getAndRmEvent i c = (case map_of (mSendEventMap c) i of None \<Rightarrow> (None, c)
     | Some e \<Rightarrow> (Some e, removeEventEntry i c))"

section \<open>Progress\<close>

type_synonym 'z io_state = "conn \<times> 'z world_scheme"
type_synonym 'z io_callback = "iovec \<Rightarrow> iostate \<Rightarrow> 'z io_state \<Rightarrow> fault + 'z io_state"

definition run_cb :: "'z io_callback \<Rightarrow> iovec \<Rightarrow> iostate \<Rightarrow> 'z io_state \<Rightarrow> fault + 'z io_state" where
  "run_cb cb v st s = (if callback v = NoCb then Inr s else cb v st s)"

text \<open>What the last call of a progress loop answered: nothing was called or all was moved, 0 bytes, or an error.\<close>

datatype last = LMoved | LZero | LAgain | LBroken

lemma sys_recv_length: "sys_recv n q = (Got d, q') \<Longrightarrow> length d \<le> n"
  by (cases "(n, q)" rule: sys_recv.cases) (auto split: if_splits)

lemma sys_send_length: "sys_send n q = (Took k, q') \<Longrightarrow> k \<le> n"
  by (cases "(n, q)" rule: sys_send.cases) (auto split: if_splits)

lemma fill_measure: "0 < k \<Longrightarrow> k \<le> n - m \<Longrightarrow> n - (m + k) < n - (m :: nat)"
  by simp

text \<open>The receive loop of \<^verbatim>\<open>recvvecProgress\<close>.\<close>

function recv_fill :: "bool \<Rightarrow> last \<Rightarrow> iovec \<Rightarrow> 'z world_scheme \<Rightarrow> fault + (iovec \<times> 'z world_scheme \<times> last)" where
  "recv_fill toRecv nr v w =
     (if iov_done v then Inr (v, w, nr)
      else if \<not> toRecv then Inr (v, w, LZero)
      else case sys_recv (remain v) (sin w) of
          (Got d, q) \<Rightarrow> if d = [] then Inr (v, w\<lparr>sin := q\<rparr>, LZero)
             else (case mem_write (base v) (xferred v) d (w\<lparr>sin := q\<rparr>) of Inl f \<Rightarrow> Inl f
                | Inr w' \<Rightarrow> recv_fill toRecv LMoved (incXferred (length d) v) w')
        | (Again, q) \<Rightarrow> Inr (v, w\<lparr>sin := q\<rparr>, LAgain)
        | (Broken, q) \<Rightarrow> Inr (v, w\<lparr>sin := q\<rparr>, LBroken))"
  by pat_completeness auto
termination
  by (relation "measure (\<lambda>(_, _, v, _). vsize v - xferred v)")
    (auto simp: incXferred_def remain_def intro!: fill_measure dest!: sym [of "(Got _, _)"] sys_recv_length)

declare recv_fill.simps [simp del]

definition recvvecProgress :: "'z io_callback \<Rightarrow> 'z io_state \<Rightarrow> fault + (conn_status \<times> 'z io_state)" where
  "recvvecProgress cb = (\<lambda>(c, w). case mCurRecvBlock c of
      None \<Rightarrow> Inr (CONN_ERR_NOVEC, c, w)
    | Some v \<Rightarrow>
        if \<not> mReadyRecv c then Inr (CONN_ERR_UNAVAIL, c, w)
        else and_then (recv_fill (\<not> mCleaning c) LZero v w) (\<lambda>(v', w', nr).
          if iov_done v' then and_then (run_cb cb v' DONE (c\<lparr>mCurRecvBlock := None\<rparr>, w')) (\<lambda>s. Inr (C_SUCCESS, s))
          else if nr = LAgain then Inr (CONN_ERR_UNAVAIL, c\<lparr>mCurRecvBlock := Some v', mReadyRecv := False\<rparr>, w')
          else and_then (run_cb cb v' ERROR (c\<lparr>mCurRecvBlock := None\<rparr>, w')) (\<lambda>s. Inr (CONN_ERR_BROKEN, s))))"

text \<open>
  The loop of \<^verbatim>\<open>recvProgress\<close>, with fuel: it ends when the socket or the queue has no more,
  and a callback may always post again.
\<close>

fun recv_loop :: "nat \<Rightarrow> 'z io_callback \<Rightarrow> bool \<Rightarrow> 'z io_state \<Rightarrow> (fault + (conn_status \<times> 'z io_state)) option" where
  "recv_loop 0 cb ready s = None"
| "recv_loop (Suc n) cb ready (c, w) =
     (case (if mReadyRecv c \<or> ready then recvvecProgress cb (c\<lparr>mReadyRecv := True\<rparr>, w)
            else Inr (CONN_ERR_UNAVAIL, c, w)) of
        Inl f \<Rightarrow> Some (Inl f)
      | Inr (rc, c1, w1) \<Rightarrow>
          let final = (if mReadyRecv c1 \<and> mCurRecvBlock c1 \<noteq> None then CONN_READY else C_SUCCESS)
          in if rc = CONN_ERR_BROKEN then Some (Inr (CONN_ERR_BROKEN, c1, w1))
             else if rc = CONN_ERR_UNAVAIL then Some (Inr (final, c1, w1))
             else (case mRecvQ c1 of
                 [] \<Rightarrow> Some (Inr (final, c1, w1))
               | v # q \<Rightarrow> if mCurRecvBlock c1 \<noteq> None then Some (Inl Assert_failed)
                   else recv_loop n cb ready (c1\<lparr>mCurRecvBlock := Some v, mRecvQ := q\<rparr>, w1)))"

definition recvProgress :: "nat \<Rightarrow> 'z io_callback \<Rightarrow> bool \<Rightarrow> 'z io_state \<Rightarrow> (fault + (conn_status \<times> 'z io_state)) option" where
  "recvProgress n cb ready s = recv_loop n cb ready (updateActSn s)"

definition conn_recv :: "nat \<Rightarrow> 'z io_callback \<Rightarrow> iovec list \<Rightarrow> 'z io_state \<Rightarrow> (fault + (conn_status \<times> 'z io_state)) option" where
  "conn_recv n cb vs = (\<lambda>(c, w). recvProgress n cb False (postRecv vs c, w))"

text \<open>The send side.\<close>

function send_fill :: "bool \<Rightarrow> last \<Rightarrow> iovec \<Rightarrow> 'z world_scheme \<Rightarrow> fault + (iovec \<times> 'z world_scheme \<times> last)" where
  "send_fill toSend nw v w =
     (if iov_done v then Inr (v, w, nw)
      else if \<not> toSend then Inr (v, w, LZero)
      else case sys_send (remain v) (squota w) of
          (Took k, q) \<Rightarrow> (case mem_read (base v) (xferred v) k w of Inl f \<Rightarrow> Inl f
             | Inr bs \<Rightarrow> if k = 0 then Inr (v, w\<lparr>squota := q\<rparr>, LZero)
                 else send_fill toSend LMoved (incXferred k v) (w\<lparr>squota := q, sout := sout w @ bs\<rparr>))
        | (SAgain, q) \<Rightarrow> Inr (v, w\<lparr>squota := q\<rparr>, LAgain)
        | (SBroken, q) \<Rightarrow> Inr (v, w\<lparr>squota := q\<rparr>, LBroken))"
  by pat_completeness auto
termination
  by (relation "measure (\<lambda>(_, _, v, _). vsize v - xferred v)")
    (auto simp: incXferred_def remain_def intro!: fill_measure dest!: sym [of "(Took _, _)"] sys_send_length)

declare send_fill.simps [simp del]

definition sendvecProgress :: "'z io_callback \<Rightarrow> 'z io_state \<Rightarrow> fault + (conn_status \<times> 'z io_state)" where
  "sendvecProgress cb = (\<lambda>(c, w). case mCurSendBlock c of
      None \<Rightarrow> Inr (CONN_ERR_NOVEC, c, w)
    | Some v \<Rightarrow>
        if \<not> mReadyToSend c then Inr (CONN_ERR_UNAVAIL, c, w)
        else and_then (send_fill (\<not> mCleaning c) LZero v w) (\<lambda>(v', w', nw).
          if iov_done v' then and_then (run_cb cb v' DONE (c\<lparr>mCurSendBlock := None\<rparr>, w')) (\<lambda>s. Inr (C_SUCCESS, s))
          else if nw = LAgain then Inr (CONN_ERR_UNAVAIL, c\<lparr>mCurSendBlock := Some v', mReadyToSend := False\<rparr>, w')
          else and_then (run_cb cb v' ERROR (c\<lparr>mCurSendBlock := None\<rparr>, w')) (\<lambda>s. Inr (CONN_ERR_BROKEN, s))))"

fun sendProgress :: "nat \<Rightarrow> 'z io_callback \<Rightarrow> 'z io_state \<Rightarrow> (fault + (conn_status \<times> 'z io_state)) option" where
  "sendProgress 0 cb s = None"
| "sendProgress (Suc n) cb (c, w) =
     (case (if mReadyToSend c then sendvecProgress cb (c, w) else Inr (CONN_ERR_UNAVAIL, c, w)) of
        Inl f \<Rightarrow> Some (Inl f)
      | Inr (rc, c1, w1) \<Rightarrow>
          if rc = CONN_ERR_BROKEN then Some (Inr (CONN_ERR_BROKEN, c1, w1))
          else if rc = CONN_ERR_UNAVAIL then Some (Inr (C_SUCCESS, c1, w1))
          else (case mSendQ c1 of
              [] \<Rightarrow> Some (Inr (C_SUCCESS, c1, w1))
            | v # q \<Rightarrow> if mCurSendBlock c1 \<noteq> None then Some (Inl Assert_failed)
                else sendProgress n cb (c1\<lparr>mCurSendBlock := Some v, mSendQ := q\<rparr>, w1)))"

definition conn_send :: "nat \<Rightarrow> 'z io_callback \<Rightarrow> iovec list \<Rightarrow> 'z io_state \<Rightarrow> (fault + (conn_status \<times> 'z io_state)) option" where
  "conn_send n cb vs = (\<lambda>(c, w). let c1 = postSend vs c
     in if mConnState c1 = CONN_CONNECTING then Some (Inr (C_SUCCESS, c1, w)) else sendProgress n cb (c1, w))"

section \<open>The end of a connection\<close>

definition cleanupVec :: "'z io_callback \<Rightarrow> cleanup_t \<Rightarrow> iovec option \<Rightarrow> 'z io_state \<Rightarrow> fault + 'z io_state" where
  "cleanupVec cb how v s = (case v of None \<Rightarrow> Inr s
     | Some v \<Rightarrow> run_cb cb v (if how = ON_CLEANUP then CLEANUP else ERROR) s)"

fun cleanupQ :: "'z io_callback \<Rightarrow> cleanup_t \<Rightarrow> iovec list \<Rightarrow> 'z io_state \<Rightarrow> fault + 'z io_state" where
  "cleanupQ cb how [] s = Inr s"
| "cleanupQ cb how (v # vs) s = and_then (cleanupVec cb how (Some v) s) (cleanupQ cb how vs)"

text \<open>
  \<^verbatim>\<open>cleanup\<close>: \<open>onDisc\<close> is \<^verbatim>\<open>connCallback(ON_DISCONNECT)\<close>. The queues are run through as they
  are at the start: no callback posts a vector when it is told to clean up. Using a connection
  that was deleted is a fault.
\<close>

definition conn_cleanup :: "'z io_callback \<Rightarrow> ('z io_state \<Rightarrow> fault + (conn_status \<times> 'z io_state)) \<Rightarrow> cleanup_t \<Rightarrow>
    'z io_state \<Rightarrow> fault + (conn_status \<times> 'z io_state)" where
  "conn_cleanup cb onDisc how = (\<lambda>(c, w).
     if freed c then Inl Dangling
     else let c1 = c\<lparr>mCleaning := True\<rparr> in
       if mRefCount c1 > 0 then Inr (CONN_ERR_BUSY, c1\<lparr>mCleanType := how\<rparr>, w)
       else
         and_then (cleanupQ cb how (mRecvQ c1) (c1, w)) (\<lambda>(c2, w2).
         and_then (cleanupVec cb how (mCurRecvBlock c2) (c2\<lparr>mRecvQ := []\<rparr>, w2)) (\<lambda>(c3, w3).
         let c4 = c3\<lparr>mCurRecvBlock := None\<rparr> in
         and_then (cleanupQ cb how (mSendQ c4) (c4, w3)) (\<lambda>(c5, w5).
         and_then (cleanupVec cb how (mCurSendBlock c5) (c5\<lparr>mSendQ := []\<rparr>, w5)) (\<lambda>(c6, w6).
         and_then (onDisc (c6\<lparr>mCurSendBlock := None\<rparr>, w6)) (\<lambda>(rc, c7, w7).
         if mCurSendBlock c7 \<noteq> None \<or> mCurRecvBlock c7 \<noteq> None \<or> mRefCount c7 \<noteq> 0 then Inl Assert_failed
         else Inr (rc, c7\<lparr>mSock := SOCK_DISCONNECTED, freed := True\<rparr>, w7)))))))"

definition conn_disconnect :: "'z io_callback \<Rightarrow> ('z io_state \<Rightarrow> fault + (conn_status \<times> 'z io_state)) \<Rightarrow>
    'z io_state \<Rightarrow> fault + (conn_status \<times> 'z io_state)" where
  "conn_disconnect cb onDisc s = and_then (conn_cleanup cb onDisc ON_CLEANUP s)
     (\<lambda>(rc, s'). Inr (if rc \<noteq> C_SUCCESS then C_SUCCESS else CONN_ERR_DISCONNECT, s'))"

definition conn_release :: "'z io_callback \<Rightarrow> ('z io_state \<Rightarrow> fault + (conn_status \<times> 'z io_state)) \<Rightarrow>
    'z io_state \<Rightarrow> fault + 'z io_state" where
  "conn_release cb onDisc = (\<lambda>(c, w).
     if freed c then Inl Dangling
     else let c1 = c\<lparr>mRefCount := mRefCount c - 1\<rparr> in
       if mRefCount c1 = 0 \<and> mCleaning c1
       then and_then (conn_cleanup cb onDisc (mCleanType c1) (c1, w)) (\<lambda>(_, s). Inr s)
       else Inr (c1, w))"

section \<open>Moving bytes\<close>

definition vec_ok :: "'z world_scheme \<Rightarrow> iovec \<Rightarrow> bool" where
  "vec_ok w v \<longleftrightarrow> (\<exists>buf. heap w (base v) = Some buf \<and> vsize v \<le> length buf \<and> xferred v \<le> vsize v)"

definition data_only :: "in_item list \<Rightarrow> bool" where
  "data_only q \<longleftrightarrow> (\<forall>i \<in> set q. case i of InData d \<Rightarrow> d \<noteq> [] | _ \<Rightarrow> False)"

fun payload :: "in_item \<Rightarrow> string" where
  "payload (InData d) = d" | "payload _ = []"

definition stream :: "in_item list \<Rightarrow> string" where
  "stream q = concat (map payload q)"

lemma data_only_simps [simp]: "data_only []" "data_only (InData d # q) \<longleftrightarrow> d \<noteq> [] \<and> data_only q"
  by (simp_all add: data_only_def)

lemma stream_simps [simp]: "stream [] = []" "stream (InData d # q) = d @ stream q"
  by (simp_all add: stream_def)

lemma sys_recv_data:
  assumes "data_only q" "0 < n"
  shows "q = [] \<and> sys_recv n q = (Again, []) \<or>
    (\<exists>d q'. sys_recv n q = (Got d, q') \<and> d \<noteq> [] \<and> length d \<le> n \<and> data_only q' \<and> stream q = d @ stream q')"
proof (cases q)
  case (Cons i r)
  with assms(1) obtain d where i: "i = InData d" "d \<noteq> []" "data_only r" by (cases i) (auto simp: data_only_def)
  show ?thesis
  proof (cases "length d \<le> n")
    case False
    have "take n d \<noteq> []" "drop n d \<noteq> []" using i(2) False assms(2) by auto
    with i False Cons show ?thesis by auto
  qed (use i Cons in auto)
qed simp

lemma poke_poke: "m + length a \<le> length buf \<Longrightarrow> m + length a + length b \<le> length buf \<Longrightarrow>
   poke (m + length a) b (poke m a buf) = poke m (a @ b) buf"
  by (simp add: poke_def add.assoc add.commute add.left_commute)

lemma poke_Nil [simp]: "poke n [] buf = buf" by (simp add: poke_def)

text \<open>However the data is cut into pieces, the loop takes the bytes the vector still needs, in order.\<close>

lemma recv_fill_data:
  assumes "data_only (sin w)" "heap w (base v) = Some buf" "vsize v \<le> length buf" "xferred v \<le> vsize v"
    and "n = min (vsize v - xferred v) (length (stream (sin w)))"
  shows "\<exists>q nr'. recv_fill True nr v w = Inr (v\<lparr>xferred := xferred v + n\<rparr>,
      w\<lparr>sin := q, heap := (heap w)(base v := Some (poke (xferred v) (take n (stream (sin w))) buf))\<rparr>, nr') \<and>
     data_only q \<and> stream q = drop n (stream (sin w)) \<and> (n < vsize v - xferred v \<longrightarrow> q = [] \<and> nr' = LAgain)"
  using assms
proof (induction "vsize v - xferred v" arbitrary: v w nr buf n rule: less_induct)
  case less
  show ?case
  proof (cases "iov_done v")
    case True
    then have "n = 0" using less.prems(5) by (simp add: iov_done_def)
    moreover have "(heap w)(base v := Some buf) = heap w" using less.prems(2) by (simp add: fun_upd_idem)
    ultimately show ?thesis using True less.prems(1) unfolding recv_fill.simps [of True nr v w]
      by (auto simp: iov_done_def intro!: exI [of _ "sin w"])
  next
    case False
    then have pos: "0 < remain v" using less.prems(4) by (simp add: iov_done_def remain_def)
    from sys_recv_data [OF less.prems(1) pos] show ?thesis
    proof (elim disjE conjE exE)
      assume e: "sin w = []" "sys_recv (remain v) (sin w) = (Again, [])"
      then have "n = 0" using less.prems(5) by simp
      moreover have "(heap w)(base v := Some buf) = heap w" using less.prems(2) by (simp add: fun_upd_idem)
      ultimately show ?thesis using False e unfolding recv_fill.simps [of True nr v w]
        by (auto intro!: exI [of _ "[]"])
    next
      fix d q
      assume e: "sys_recv (remain v) (sin w) = (Got d, q)" "d \<noteq> []" "length d \<le> remain v" "data_only q"
        "stream (sin w) = d @ stream q"
      let ?v = "incXferred (length d) v"
      let ?buf = "poke (xferred v) d buf"
      let ?w = "w\<lparr>sin := q, heap := (heap w)(base v := Some ?buf)\<rparr>"
      have room: "xferred v + length d \<le> vsize v" using e(3) less.prems(4) by (simp add: remain_def)
      have wr: "mem_write (base v) (xferred v) d (w\<lparr>sin := q\<rparr>) = Inr ?w"
        using less.prems(2,3) room by (simp add: mem_write_def)
      have dec: "vsize ?v - xferred ?v < vsize v - xferred v"
        using fill_measure [of "length d" "vsize v" "xferred v"] e(2,3) by (simp add: incXferred_def remain_def)
      define m where "m = min (vsize ?v - xferred ?v) (length (stream (sin ?w)))"
      have n: "n = length d + m" using less.prems(5) e(5) room by (simp add: m_def incXferred_def)
      have step: "recv_fill True nr v w = recv_fill True LMoved ?v ?w"
        using False e(1,2) wr by (subst recv_fill.simps) simp
      have "length ?buf = length buf" using room less.prems(3) by simp
      then obtain r nr' where ih: "recv_fill True LMoved ?v ?w = Inr (?v\<lparr>xferred := xferred ?v + m\<rparr>,
          ?w\<lparr>sin := r, heap := (heap ?w)(base ?v := Some (poke (xferred ?v) (take m (stream (sin ?w))) ?buf))\<rparr>, nr')"
          "data_only r" "stream r = drop m (stream (sin ?w))" "m < vsize ?v - xferred ?v \<longrightarrow> r = [] \<and> nr' = LAgain"
        using less.hyps [OF dec, of ?w ?buf m LMoved] e(4) less.prems(3,4) room m_def by (auto simp: incXferred_def)
      have p: "poke (xferred v + length d) (take m (stream q)) ?buf = poke (xferred v) (d @ take m (stream q)) buf"
        by (rule poke_poke) (use room less.prems(3) m_def in \<open>auto simp: incXferred_def min_def\<close>)
      show ?thesis unfolding step
        by (rule exI [of _ r], rule exI [of _ nr']) (use ih n e(5) p in \<open>auto simp: incXferred_def add.assoc\<close>)
    qed
  qed
qed

text \<open>A vector that the waiting data completes, and one that it does not.\<close>

lemma recvvec_done:
  assumes "mCurRecvBlock c = Some v" "\<not> mCleaning c" "data_only (sin w)" "stream (sin w) = xs @ ys"
    and "heap w (base v) = Some buf" "vsize v \<le> length buf" "xferred v + length xs = vsize v"
  obtains q where "data_only q" "stream q = ys"
    and "recvvecProgress cb (c\<lparr>mReadyRecv := True\<rparr>, w) =
      and_then (run_cb cb (v\<lparr>xferred := vsize v\<rparr>) DONE (c\<lparr>mReadyRecv := True, mCurRecvBlock := None\<rparr>,
         w\<lparr>sin := q, heap := (heap w)(base v := Some (poke (xferred v) xs buf))\<rparr>)) (\<lambda>s. Inr (C_SUCCESS, s))"
proof -
  have n: "vsize v - xferred v = length xs" using assms(7) by simp
  obtain q nr' where f: "recv_fill True LZero v w = Inr (v\<lparr>xferred := xferred v + length xs\<rparr>,
      w\<lparr>sin := q, heap := (heap w)(base v := Some (poke (xferred v) (take (length xs) (stream (sin w))) buf))\<rparr>, nr')"
    "data_only q" "stream q = drop (length xs) (stream (sin w))"
    using recv_fill_data [OF assms(3,5,6), of "length xs" LZero] assms(4,7) n by auto
  show thesis
  proof (rule that)
    show "data_only q" by (rule f(2))
    show "stream q = ys" using f(3) assms(4) by simp
    show "recvvecProgress cb (c\<lparr>mReadyRecv := True\<rparr>, w) =
      and_then (run_cb cb (v\<lparr>xferred := vsize v\<rparr>) DONE (c\<lparr>mReadyRecv := True, mCurRecvBlock := None\<rparr>,
         w\<lparr>sin := q, heap := (heap w)(base v := Some (poke (xferred v) xs buf))\<rparr>)) (\<lambda>s. Inr (C_SUCCESS, s))"
      using f(1) assms(1,2,4,7) by (simp add: recvvecProgress_def iov_done_def)
  qed
qed

lemma recvvec_wait:
  assumes "mCurRecvBlock c = Some v" "\<not> mCleaning c" "data_only (sin w)"
    and "heap w (base v) = Some buf" "vsize v \<le> length buf" "xferred v + length (stream (sin w)) < vsize v"
  shows "recvvecProgress cb (c\<lparr>mReadyRecv := True\<rparr>, w) = Inr (CONN_ERR_UNAVAIL,
      c\<lparr>mReadyRecv := False, mCurRecvBlock := Some (v\<lparr>xferred := xferred v + length (stream (sin w))\<rparr>)\<rparr>,
      w\<lparr>sin := [], heap := (heap w)(base v := Some (poke (xferred v) (stream (sin w)) buf))\<rparr>)"
proof -
  let ?n = "length (stream (sin w))"
  obtain q nr' where f: "recv_fill True LZero v w = Inr (v\<lparr>xferred := xferred v + ?n\<rparr>,
      w\<lparr>sin := q, heap := (heap w)(base v := Some (poke (xferred v) (take ?n (stream (sin w))) buf))\<rparr>, nr')"
    "q = [] \<and> nr' = LAgain"
  proof -
    have "?n < vsize v - xferred v" "xferred v \<le> vsize v" "?n = min (vsize v - xferred v) ?n" using assms(6) by auto
    with recv_fill_data [OF assms(3-5), of ?n LZero] that show thesis by auto
  qed
  then show ?thesis using assms(1,2,6) by (simp add: recvvecProgress_def iov_done_def)
qed

text \<open>One turn of the receive loop: the callback, then the next posted vector.\<close>

lemma recv_loop_turn:
  assumes "recvvecProgress cb (c\<lparr>mReadyRecv := True\<rparr>, w) = Inr (C_SUCCESS, c1, w1)" "mRecvQ c1 = v # q"
    "mCurRecvBlock c1 = None"
  shows "recv_loop (Suc n) cb True (c, w) = recv_loop n cb True (c1\<lparr>mCurRecvBlock := Some v, mRecvQ := q\<rparr>, w1)"
  using assms by simp

lemma recv_loop_wait:
  assumes "recvvecProgress cb (c\<lparr>mReadyRecv := True\<rparr>, w) = Inr (CONN_ERR_UNAVAIL, c1, w1)" "\<not> mReadyRecv c1"
  shows "recv_loop (Suc n) cb True (c, w) = Some (Inr (C_SUCCESS, c1, w1))"
  using assms by simp

section \<open>Sending in order\<close>

text \<open>What a vector still has to put on the wire; \<open>tail\<close> is what its callback appends (a file).\<close>

definition rest_bytes :: "'z world_scheme \<Rightarrow> iovec \<Rightarrow> string" where
  "rest_bytes w v = (case heap w (base v) of None \<Rightarrow> [] | Some buf \<Rightarrow> peek (xferred v) (remain v) buf)"

lemma rest_bytes_step:
  assumes "heap w (base v) = Some buf" "vsize v \<le> length buf" "k \<le> remain v" "xferred v \<le> vsize v"
  shows "rest_bytes w v = peek (xferred v) k buf @ rest_bytes w (incXferred k v)"
proof -
  have "remain v = k + remain (incXferred k v)" using assms(3,4) by (simp add: remain_def incXferred_def)
  then show ?thesis using assms(1)
    by (simp add: rest_bytes_def incXferred_def peek_def take_add add.commute)
qed

lemma send_fill_bytes:
  assumes "send_fill t nw v w = Inr (v', w', nw')" "vec_ok w v"
  shows "sout w' @ rest_bytes w v' = sout w @ rest_bytes w v \<and> v' = v\<lparr>xferred := xferred v'\<rparr> \<and>
    xferred v' \<le> vsize v \<and> (\<exists>q out. w' = w\<lparr>squota := q, sout := out\<rparr>)"
  using assms
proof (induction "vsize v - xferred v" arbitrary: v w nw rule: less_induct)
  case less
  obtain buf where buf: "heap w (base v) = Some buf" "vsize v \<le> length buf" "xferred v \<le> vsize v"
    using less.prems(2) by (auto simp: vec_ok_def)
  obtain r q where sq: "sys_send (remain v) (squota w) = (r, q)" by (cases "sys_send (remain v) (squota w)")
  have same: "\<exists>q out. w\<lparr>squota := q'\<rparr> = w\<lparr>squota := q, sout := out\<rparr>" "\<exists>q out. w = w\<lparr>squota := q, sout := out\<rparr>" for q'
    by (rule exI [of _ q'], rule exI [of _ "sout w"], simp) (rule exI [of _ "squota w"], rule exI [of _ "sout w"], simp)
  show ?case
  proof (cases "\<exists>k. r = Took k \<and> k \<noteq> 0 \<and> \<not> iov_done v \<and> t")
    case True
    then obtain k where k: "r = Took k" "k \<noteq> 0" "\<not> iov_done v" "t" by blast
    have le: "k \<le> remain v" using sys_send_length sq k(1) by blast
    let ?v = "incXferred k v"
    let ?w = "w\<lparr>squota := q, sout := sout w @ peek (xferred v) k buf\<rparr>"
    have rd: "mem_read (base v) (xferred v) k w = Inr (peek (xferred v) k buf)"
      using buf le by (simp add: mem_read_def remain_def)
    have rec: "send_fill t LMoved ?v ?w = Inr (v', w', nw')"
      using less.prems(1) k sq rd by (subst (asm) send_fill.simps) simp
    have dec: "vsize ?v - xferred ?v < vsize v - xferred v"
      using fill_measure [of k "vsize v" "xferred v"] k(2) le by (simp add: incXferred_def remain_def)
    have ok: "vec_ok ?w ?v" using buf le by (auto simp: vec_ok_def incXferred_def remain_def)
    note ih = less.hyps [OF dec rec ok]
    have rb: "rest_bytes ?w u = rest_bytes w u" for u by (simp add: rest_bytes_def)
    have st: "rest_bytes w v = peek (xferred v) k buf @ rest_bytes w ?v"
      by (rule rest_bytes_step) (use buf le in auto)
    from ih show ?thesis unfolding rb st by (auto simp: incXferred_def)
  next
    case False
    then have "v' = v \<and> sout w' = sout w \<and> (\<exists>q out. w' = w\<lparr>squota := q, sout := out\<rparr>)"
      using less.prems(1) sq same by (subst (asm) send_fill.simps) (auto split: if_splits send_result.splits sum.splits)
    with buf(3) show ?thesis by auto
  qed
qed

locale sender =
  fixes cb :: "'z io_callback"
    and tail :: "'z world_scheme \<Rightarrow> iovec \<Rightarrow> string"
  assumes cb_out: "cb v st (c, w) = Inr (c', w') \<Longrightarrow> sout w' = sout w @ (if st = DONE then tail w v else [])"
    and cb_frame: "cb v st (c, w) = Inr (c', w') \<Longrightarrow> mSendQ c' = mSendQ c \<and> mCurSendBlock c' = mCurSendBlock c"
    and cb_heap: "cb v st (c, w) = Inr (c', w') \<Longrightarrow> p \<noteq> base v \<Longrightarrow> heap w' p = heap w p"
    and cb_tail: "cb v st (c, w) = Inr (c', w') \<Longrightarrow> tail w' = tail w"
    and tail_io: "tail (w\<lparr>squota := q, sout := b\<rparr>) = tail w"
    and tail_progress: "tail w (v\<lparr>xferred := k\<rparr>) = tail w v"
begin

definition vec_bytes :: "'z world_scheme \<Rightarrow> iovec \<Rightarrow> string" where
  "vec_bytes w v = rest_bytes w v @ (if callback v = NoCb then [] else tail w v)"

definition pending :: "'z io_state \<Rightarrow> iovec list" where
  "pending = (\<lambda>(c, w). (case mCurSendBlock c of None \<Rightarrow> [] | Some v \<Rightarrow> [v]) @ mSendQ c)"

definition wire_bytes :: "'z io_state \<Rightarrow> string" where
  "wire_bytes s = sout (snd s) @ concat (map (vec_bytes (snd s)) (pending s))"

definition sending_ok :: "'z io_state \<Rightarrow> bool" where
  "sending_ok s \<longleftrightarrow> distinct (map base (pending s)) \<and> (\<forall>v \<in> set (pending s). vec_ok (snd s) v)"

lemma vec_bytes_frame:
  assumes "\<And>v. v \<in> set vs \<Longrightarrow> heap w' (base v) = heap w (base v)" "tail w' = tail w"
  shows "map (vec_bytes w') vs = map (vec_bytes w) vs" and "(\<forall>v \<in> set vs. vec_ok w' v) = (\<forall>v \<in> set vs. vec_ok w v)"
  using assms by (auto simp: vec_bytes_def rest_bytes_def vec_ok_def)

lemma sendvec_conserves:
  assumes "sendvecProgress cb (c, w) = Inr (rc, c', w')" "rc \<noteq> CONN_ERR_BROKEN" "sending_ok (c, w)"
  shows "wire_bytes (c', w') = wire_bytes (c, w)" and "sending_ok (c', w')"
    and "rc = CONN_ERR_UNAVAIL \<or> mCurSendBlock c' = None" and "mSendQ c' = mSendQ c"
proof -
  have "wire_bytes (c', w') = wire_bytes (c, w) \<and> sending_ok (c', w') \<and>
    (rc = CONN_ERR_UNAVAIL \<or> mCurSendBlock c' = None) \<and> mSendQ c' = mSendQ c"
  proof (cases "mCurSendBlock c")
    case None
    then show ?thesis using assms by (simp add: sendvecProgress_def)
  next
    case (Some v)
    show ?thesis
    proof (cases "mReadyToSend c")
      case False
      then show ?thesis using assms Some by (simp add: sendvecProgress_def)
    next
      case True
      have pend: "pending (c, w) = v # mSendQ c" by (simp add: pending_def Some)
      have ok: "vec_ok w v" and dist: "distinct (map base (v # mSendQ c))" and okq: "\<forall>u \<in> set (mSendQ c). vec_ok w u"
        using assms(3) by (auto simp: sending_ok_def pend)
      obtain v1 w1 nw where fill: "send_fill (\<not> mCleaning c) LZero v w = Inr (v1, w1, nw)"
        using assms(1) Some True by (cases "send_fill (\<not> mCleaning c) LZero v w") (auto simp: sendvecProgress_def)
      note b = send_fill_bytes [OF fill ok]
      obtain q out where w1: "w1 = w\<lparr>squota := q, sout := out\<rparr>" using b by blast
      have h1: "heap w1 = heap w" and t1: "tail w1 = tail w" by (simp_all add: w1 tail_io)
      have v1: "v1 = v\<lparr>xferred := xferred v1\<rparr>" "base v1 = base v" "callback v1 = callback v" "vsize v1 = vsize v"
        using b by (metis iovec.select_convs iovec.update_convs iovec.surjective)+
      have tv: "tail w v1 = tail w v" using v1(1) tail_progress by metis
      have sb: "sout w1 @ rest_bytes w v1 = sout w @ rest_bytes w v" using b by blast
      have q1: "map (vec_bytes w1) vs = map (vec_bytes w) vs" for vs
        by (rule vec_bytes_frame) (simp_all add: h1 t1)
      have rb1: "rest_bytes w1 = rest_bytes w" by (rule ext) (simp add: rest_bytes_def h1)
      show ?thesis
      proof (cases "iov_done v1")
        case True': True
        have "rest_bytes w v1 = []"
          using True' by (simp add: rest_bytes_def iov_done_def remain_def peek_def split: option.splits)
        with sb have out1: "sout w1 = sout w @ rest_bytes w v" by simp
        have rc: "rc = C_SUCCESS" "run_cb cb v1 DONE (c\<lparr>mCurSendBlock := None\<rparr>, w1) = Inr (c', w')"
          using assms(1) Some True True' fill by (auto simp: sendvecProgress_def and_then_def split: sum.splits)
        have eff: "sout w' = sout w1 @ (if callback v1 = NoCb then [] else tail w1 v1) \<and> mSendQ c' = mSendQ c \<and>
            mCurSendBlock c' = None \<and> tail w' = tail w1 \<and> (\<forall>p. p \<noteq> base v1 \<longrightarrow> heap w' p = heap w1 p)"
          using rc(2) cb_out [of v1 DONE "c\<lparr>mCurSendBlock := None\<rparr>" w1] cb_frame [of v1 DONE "c\<lparr>mCurSendBlock := None\<rparr>" w1]
            cb_heap [of v1 DONE "c\<lparr>mCurSendBlock := None\<rparr>" w1] cb_tail [of v1 DONE "c\<lparr>mCurSendBlock := None\<rparr>" w1]
          by (auto simp: run_cb_def split: if_splits)
        have hq: "heap w' (base u) = heap w (base u)" if "u \<in> set (mSendQ c)" for u
        proof -
          have "base u \<in> base ` set (mSendQ c)" "base v \<notin> base ` set (mSendQ c)" using that dist by auto
          then have "base u \<noteq> base v1" using v1(2) by auto
          with eff h1 show ?thesis by simp
        qed
        have frame: "map (vec_bytes w') (mSendQ c) = map (vec_bytes w) (mSendQ c)"
            "(\<forall>u \<in> set (mSendQ c). vec_ok w' u) = (\<forall>u \<in> set (mSendQ c). vec_ok w u)"
          by (rule vec_bytes_frame; use hq eff t1 in simp)+
        have p': "pending (c', w') = mSendQ c" using eff by (simp add: pending_def)
        have cat: "concat (map (vec_bytes w') (mSendQ c)) = concat (map (vec_bytes w) (mSendQ c))"
          by (rule arg_cong [OF frame(1)])
        have "wire_bytes (c', w') = wire_bytes (c, w)"
          unfolding wire_bytes_def p' pend fst_conv snd_conv list.simps concat.simps cat
          using eff out1 v1(3) tv t1 by (simp add: vec_bytes_def)
        moreover have "sending_ok (c', w')" using frame(2) dist okq by (simp add: sending_ok_def p')
        ultimately show ?thesis using eff by simp
      next
        case False
        then have rc: "rc = CONN_ERR_UNAVAIL" "c' = c\<lparr>mCurSendBlock := Some v1, mReadyToSend := False\<rparr>" "w' = w1"
          using assms(1,2) Some True fill
          by (auto simp: sendvecProgress_def and_then_def split: sum.splits if_splits)
        have p': "pending (c', w') = v1 # mSendQ c" by (simp add: pending_def rc)
        have "vec_bytes w1 v1 = rest_bytes w v1 @ (if callback v = NoCb then [] else tail w v)"
          by (simp add: vec_bytes_def rb1 v1(3) t1 tv)
        then have "wire_bytes (c', w') = wire_bytes (c, w)"
          unfolding wire_bytes_def p' pend unfolding rc(3) fst_conv snd_conv list.simps concat.simps q1
          using sb by (simp add: vec_bytes_def flip: append_assoc)
        moreover have "sending_ok (c', w')"
        proof -
          have "vec_ok w1 v1" using ok b v1 by (auto simp: vec_ok_def h1)
          moreover have "\<forall>u \<in> set (mSendQ c). vec_ok w1 u" using okq by (simp add: vec_ok_def h1)
          ultimately show ?thesis unfolding sending_ok_def p' unfolding rc(3) using dist v1(2) by simp
        qed
        ultimately show ?thesis by (simp add: rc)
      qed
    qed
  qed
  note all = this
  show "wire_bytes (c', w') = wire_bytes (c, w)" by (rule all [THEN conjunct1])
  show "sending_ok (c', w')" by (rule all [THEN conjunct2, THEN conjunct1])
  show "rc = CONN_ERR_UNAVAIL \<or> mCurSendBlock c' = None" by (rule all [THEN conjunct2, THEN conjunct2, THEN conjunct1])
  show "mSendQ c' = mSendQ c" by (rule all [THEN conjunct2, THEN conjunct2, THEN conjunct2])
qed

lemma send_conserves:
  assumes "sendProgress n cb (c, w) = Some (Inr (rc, c', w'))" "rc \<noteq> CONN_ERR_BROKEN" "sending_ok (c, w)"
  shows "wire_bytes (c', w') = wire_bytes (c, w) \<and> sending_ok (c', w')"
  using assms
proof (induction n arbitrary: c w)
  case (Suc n)
  show ?case
  proof (cases "mReadyToSend c")
    case False
    then show ?thesis using Suc.prems by (auto split: list.splits)
  next
    case True
    then obtain r1 c1 w1 where v: "sendvecProgress cb (c, w) = Inr (r1, c1, w1)"
      using Suc.prems(1) by (cases "sendvecProgress cb (c, w)") auto
    have nb: "r1 \<noteq> CONN_ERR_BROKEN" using Suc.prems(1,2) True v by (auto simp: Let_def)
    note cons = sendvec_conserves [OF v nb Suc.prems(3)]
    show ?thesis
    proof (cases "r1 = CONN_ERR_UNAVAIL")
      case True': True
      then show ?thesis using Suc.prems(1) True v cons by auto
    next
      case False
      then have none: "mCurSendBlock c1 = None" using cons(3) by simp
      show ?thesis
      proof (cases "mSendQ c1")
        case Nil
        then show ?thesis using Suc.prems(1) True v cons False nb by auto
      next
        case (Cons u q)
        let ?c = "c1\<lparr>mCurSendBlock := Some u, mSendQ := q\<rparr>"
        have p: "pending (?c, w1) = pending (c1, w1)" by (simp add: pending_def none Cons)
        have ok: "sending_ok (?c, w1)" using cons(2) by (simp add: sending_ok_def p)
        have "sendProgress n cb (?c, w1) = Some (Inr (rc, c', w'))"
          using Suc.prems(1) True v False nb none Cons by simp
        from Suc.IH [OF this Suc.prems(2) ok] cons(1) show ?thesis by (simp add: wire_bytes_def p)
      qed
    qed
  qed
qed simp

end

end
