(* ===== verification/CommEvent.thy ===== *)
theory CommEvent
  imports Conn
begin

text \<open>
  Communication events (include/comm/commevent.h, src/comm/commevent.cpp): the descriptor of a
  message with its attachments, the event that carries a request and its response through the
  stages, and the world the communication code runs in, which extends the memory and the
  socket by the table of events, the files and what was handed to other components.
\<close>

section \<open>Messages and descriptors\<close>

datatype rpc_msg = MReq request | MRsp response | MBase message

fun msg_id :: "rpc_msg \<Rightarrow> u64" where
  "msg_id (MReq r) = mId r" | "msg_id (MRsp r) = mId r" | "msg_id (MBase m) = mId m"

fun set_msg_id :: "u64 \<Rightarrow> rpc_msg \<Rightarrow> rpc_msg" where
  "set_msg_id i (MReq r) = MReq (r\<lparr>mId := i\<rparr>)"
| "set_msg_id i (MRsp r) = MRsp (r\<lparr>mId := i\<rparr>)"
| "set_msg_id i (MBase m) = MBase (m\<lparr>mId := i\<rparr>)"

fun msg_size :: "rpc_msg \<Rightarrow> nat" where
  "msg_size (MReq r) = Request_getSerialSize"
| "msg_size (MRsp r) = Response_getSerialSize"
| "msg_size (MBase m) = Message_getSerialSize"

fun msg_serialize :: "rpc_msg \<Rightarrow> string \<Rightarrow> int \<times> string" where
  "msg_serialize (MReq r) b = Request_serialize r b"
| "msg_serialize (MRsp r) b = Response_serialize r b"
| "msg_serialize (MBase m) b = Message_serialize m b"

record msg_desc =
  msg :: "rpc_msg option"
  attachMems :: "vec_t list"
  attachFileOffset :: u64
  attachFileLen :: u64
  attachFilePath :: string

definition MsgDesc_new :: "rpc_msg option \<Rightarrow> msg_desc" where
  "MsgDesc_new m = \<lparr>msg = m, attachMems = [], attachFileOffset = 0, attachFileLen = 0, attachFilePath = []\<rparr>"

section \<open>Status codes\<close>

text \<open>The enumeration, with the values a cast from the status field of a response can give it.\<close>

type_synonym cev_status = u32

definition CEV_SUCCESS :: cev_status where "CEV_SUCCESS = 0"
definition INVALID_PARAMETER :: cev_status where "INVALID_PARAMETER = 1"
definition PENDING :: cev_status where "PENDING = 2"
definition CONN_FAILURE :: cev_status where "CONN_FAILURE = 3"
definition MALFORMED_MESSAGE :: cev_status where "MALFORMED_MESSAGE = 4"
definition VERSION_MISMATCH :: cev_status where "VERSION_MISMATCH = 5"
definition SEND_FAILURE :: cev_status where "SEND_FAILURE = 6"
definition BUFFER_OVERFLOW :: cev_status where "BUFFER_OVERFLOW = 7"
definition STAGE_CLEANUP :: cev_status where "STAGE_CLEANUP = 8"
definition RESOURCE_FAILURE :: cev_status where "RESOURCE_FAILURE = 9"
definition BAD_TIMEOUT_VAL :: cev_status where "BAD_TIMEOUT_VAL = 10"
definition TIMEDOUT :: cev_status where "TIMEDOUT = 11"

lemmas cev_status_defs = CEV_SUCCESS_def INVALID_PARAMETER_def PENDING_def CONN_FAILURE_def MALFORMED_MESSAGE_def
  VERSION_MISMATCH_def SEND_FAILURE_def BUFFER_OVERFLOW_def STAGE_CLEANUP_def RESOURCE_FAILURE_def
  BAD_TIMEOUT_VAL_def TIMEDOUT_def

definition statusStr :: "cev_status \<Rightarrow> string" where
  "statusStr st =
     (if st = CEV_SUCCESS then ''Successful local completion''
      else if st = INVALID_PARAMETER then ''Invalid parameters''
      else if st = PENDING then ''Event is being processed''
      else if st = CONN_FAILURE then ''CommStage failed to connect to peer''
      else if st = MALFORMED_MESSAGE then ''Message contained in event is malformed''
      else if st = SEND_FAILURE then ''CommStage reported transmission failure''
      else if st = BUFFER_OVERFLOW then ''Server has replied with more data than posted''
      else if st = STAGE_CLEANUP then ''CommStage is in a cleanup mode''
      else if st = RESOURCE_FAILURE then ''Local resource failure''
      else if st = BAD_TIMEOUT_VAL then ''Unacceptable timeout value''
      else if st = TIMEDOUT then ''Event has timedout''
      else ''Unknown'')"

section \<open>Events\<close>

record comm_event =
  request :: msg_desc
  response :: msg_desc
  status :: cev_status
  requestId :: u32
  serverGen :: bool
  sock :: int
  targetEp :: endpoint

record rpc_world = world +
  cevs :: "cev_id \<Rightarrow> comm_event option"
  nextCev :: cev_id
  completed :: "(cev_id \<times> cev_status) list"   \<comment> \<open>the calls of \<^verbatim>\<open>done()\<close>, with the status at the call\<close>
  inbox :: "cev_id list"                             \<comment> \<open>events added to the next stage\<close>
  responses :: "cev_id list"                         \<comment> \<open>events given to \<^verbatim>\<open>sendResponse\<close> by the receive side\<close>
  files :: "string \<Rightarrow> string option"
  writable :: "string \<Rightarrow> bool"
  selected :: string                                 \<comment> \<open>what the directory selector answers\<close>
  usec :: int                                        \<comment> \<open>\<^verbatim>\<open>Now::usec()\<close>\<close>
  gMaxBlockSize :: nat
  deserializer :: "string \<Rightarrow> rpc_msg option"   \<comment> \<open>\<^verbatim>\<open>gDeserializable->deserialize\<close>\<close>
  cleared :: "int list"                              \<comment> \<open>sockets taken out of the selectors\<close>

definition CommEvent_new :: "msg_desc option \<Rightarrow> msg_desc option \<Rightarrow> endpoint \<Rightarrow> comm_event" where
  "CommEvent_new req resp ep = \<lparr>request = (case req of None \<Rightarrow> MsgDesc_new None | Some m \<Rightarrow> m),
     response = (case resp of None \<Rightarrow> MsgDesc_new None | Some m \<Rightarrow> m),
     status = CEV_SUCCESS, requestId = 0, serverGen = False, sock = SOCK_DISCONNECTED, targetEp = ep\<rparr>"

definition add_cev :: "comm_event \<Rightarrow> rpc_world \<Rightarrow> cev_id \<times> rpc_world" where
  "add_cev e w = (nextCev w, w\<lparr>cevs := (cevs w)(nextCev w := Some e), nextCev := nextCev w + 1\<rparr>)"

definition upd_cev :: "(comm_event \<Rightarrow> comm_event) \<Rightarrow> cev_id \<Rightarrow> rpc_world \<Rightarrow> rpc_world" where
  "upd_cev f i w = w\<lparr>cevs := (cevs w)(i := map_option f (cevs w i))\<rparr>"

definition setStatus :: "cev_status \<Rightarrow> cev_id \<Rightarrow> rpc_world \<Rightarrow> rpc_world" where
  "setStatus st = upd_cev (\<lambda>e. e\<lparr>status := st\<rparr>)"

definition getStatus :: "cev_id \<Rightarrow> rpc_world \<Rightarrow> cev_status" where
  "getStatus i w = (case cevs w i of None \<Rightarrow> 0 | Some e \<Rightarrow> status e)"

definition isServerGen :: "cev_id \<Rightarrow> rpc_world \<Rightarrow> bool" where
  "isServerGen i w = (case cevs w i of None \<Rightarrow> False | Some e \<Rightarrow> serverGen e)"

definition cev_done :: "cev_id \<Rightarrow> rpc_world \<Rightarrow> rpc_world" where
  "cev_done i w = w\<lparr>completed := completed w @ [(i, getStatus i w)]\<rparr>"

definition completeEvent :: "cev_status \<Rightarrow> cev_id \<Rightarrow> rpc_world \<Rightarrow> rpc_world" where
  "completeEvent st i w = cev_done i (setStatus st i w)"

definition isfailed :: "comm_event \<Rightarrow> bool" where
  "isfailed e = (status e \<noteq> CEV_SUCCESS)"

text \<open>Freeing what a descriptor owns.\<close>

fun delete_bufs :: "addr list \<Rightarrow> 'z world_scheme \<Rightarrow> fault + 'z world_scheme" where
  "delete_bufs [] w = Inr w"
| "delete_bufs (p # ps) w = and_then (delete_buf p w) (delete_bufs ps)"

definition cleanupAttachMem :: "msg_desc \<Rightarrow> 'z world_scheme \<Rightarrow> fault + (msg_desc \<times> 'z world_scheme)" where
  "cleanupAttachMem md w = and_then (delete_bufs (map vbase (attachMems md)) w) (\<lambda>w'. Inr (md\<lparr>attachMems := []\<rparr>, w'))"

definition cleanFile :: "msg_desc \<Rightarrow> msg_desc" where
  "cleanFile md = md\<lparr>attachFileOffset := 0, attachFileLen := 0, attachFilePath := []\<rparr>"

text \<open>\<^verbatim>\<open>cleanup\<close> deletes the message but keeps the pointer, which the callers overwrite or drop.\<close>

definition MsgDesc_cleanup :: "msg_desc \<Rightarrow> 'z world_scheme \<Rightarrow> fault + (msg_desc \<times> 'z world_scheme)" where
  "MsgDesc_cleanup md w = and_then (cleanupAttachMem md w) (\<lambda>(md', w'). Inr (cleanFile md', w'))"

definition cleanupContainer :: "msg_desc \<Rightarrow> msg_desc" where
  "cleanupContainer md = cleanFile (md\<lparr>attachMems := []\<rparr>)"

definition setRequest :: "msg_desc option \<Rightarrow> comm_event \<Rightarrow> 'z world_scheme \<Rightarrow> fault + (comm_event \<times> 'z world_scheme)" where
  "setRequest req e w = (case req of Some md \<Rightarrow> Inr (e\<lparr>request := md\<rparr>, w)
     | None \<Rightarrow> and_then (MsgDesc_cleanup (request e) w) (\<lambda>(md, w'). Inr (e\<lparr>request := md\<rparr>, w')))"

definition setRequestMsg :: "rpc_msg option \<Rightarrow> comm_event \<Rightarrow> 'z world_scheme \<Rightarrow> fault + (comm_event \<times> 'z world_scheme)" where
  "setRequestMsg m e w = and_then (MsgDesc_cleanup (request e) w) (\<lambda>(md, w'). Inr (e\<lparr>request := md\<lparr>msg := m\<rparr>\<rparr>, w'))"

definition setResponseMsg :: "rpc_msg option \<Rightarrow> comm_event \<Rightarrow> 'z world_scheme \<Rightarrow> fault + (comm_event \<times> 'z world_scheme)" where
  "setResponseMsg m e w = and_then (MsgDesc_cleanup (response e) w) (\<lambda>(md, w'). Inr (e\<lparr>response := md\<lparr>msg := m\<rparr>\<rparr>, w'))"

text \<open>
  \<^verbatim>\<open>adoptRequest\<close> and \<^verbatim>\<open>adoptResponse\<close> hand the descriptor out; the container left behind
  keeps the message pointer.
\<close>

definition adoptRequest :: "comm_event \<Rightarrow> msg_desc \<times> comm_event" where
  "adoptRequest e = (request e, e\<lparr>request := cleanupContainer (request e)\<rparr>)"

definition adoptResponse :: "comm_event \<Rightarrow> msg_desc \<times> comm_event" where
  "adoptResponse e = (response e, e\<lparr>response := cleanupContainer (response e)\<rparr>)"

definition doneWithErrorResponse :: "response \<Rightarrow> cev_status \<Rightarrow> u32 \<Rightarrow> string \<Rightarrow> cev_id \<Rightarrow> rpc_world \<Rightarrow> fault + rpc_world" where
  "doneWithErrorResponse raw eventErr rspErr errmsg i w = (case cevs w i of None \<Rightarrow> Inl Dangling
     | Some e \<Rightarrow> and_then (setResponseMsg (Some (MRsp (setErrMsg errmsg (raw\<lparr>mStatus := rspErr\<rparr>)))) (e\<lparr>status := eventErr\<rparr>) w)
         (\<lambda>(e', w'). Inr (cev_done i (w'\<lparr>cevs := (cevs w')(i := Some e')\<rparr>))))"

end
