(* ===== verification/ConnCb.thy ===== *)
theory ConnCb
  imports CommEvent
begin

text \<open>
  The protocol on a connection (src/net/conncb.cpp): what the callbacks of the I/O vectors do
  when a header, a message, an attachment, a file block or data to discard is complete, and when
  a vector was sent or has failed. The parameter block of the receive side is
  \<^verbatim>\<open>mRecvCb\<close> of the connection. Allocations succeed (\<^verbatim>\<open>new\<close> does not return NULL),
  so the branches that test for NULL have no counterpart.
\<close>

type_synonym cst = "conn \<times> rpc_world"

section \<open>Blocks\<close>

definition MSG_TYPE_RPC :: string where "MSG_TYPE_RPC = ''rpc''"

definition blocks :: "nat \<Rightarrow> nat \<Rightarrow> nat" where
  "blocks B n = (n + B - 1) div B"

definition upd_cbp :: "(cb_param \<Rightarrow> cb_param) \<Rightarrow> conn \<Rightarrow> conn" where
  "upd_cbp f c = c\<lparr>mRecvCb := map_option f (mRecvCb c)\<rparr>"

definition cbp_of :: "conn \<Rightarrow> cb_param" where
  "cbp_of c = (case mRecvCb c of None \<Rightarrow> cb_param_zero | Some p \<Rightarrow> p)"

text \<open>Deleting the buffer of a vector that the connection allocated.\<close>

definition free_base :: "iovec \<Rightarrow> rpc_world \<Rightarrow> fault + rpc_world" where
  "free_base v w = (if base v \<noteq> 0 \<and> alloc v = SYS_ALLOC then delete_buf (base v) w else Inr w)"

definition repostIoVec :: "iovec \<Rightarrow> nat \<Rightarrow> cst \<Rightarrow> fault + cst" where
  "repostIoVec iov baseLen = (\<lambda>(c, w). and_then (free_base iov w) (\<lambda>w1.
     let (b, w2) = new_buf baseLen w1;
         iov' = (iov_reset iov)\<lparr>base := b, vsize := baseLen\<rparr>
     in Inr (postRecv [iov'] c, w2)))"

definition repostReusedIoVec :: "nat \<Rightarrow> iovec \<Rightarrow> cst \<Rightarrow> fault + cst" where
  "repostReusedIoVec baseLen iov = (\<lambda>(c, w).
     let blockCount = blocks (gMaxBlockSize w) baseLen;
         blockSize = (if gMaxBlockSize w > baseLen then baseLen else gMaxBlockSize w)
     in and_then (free_base iov w) (\<lambda>w1.
        let (b, w2) = new_buf blockSize w1;
            iov' = (iov_reset iov)\<lparr>base := b, vsize := blockSize\<rparr>
        in Inr (upd_cbp (\<lambda>p. p\<lparr>remainVecs := of_nat blockCount\<rparr>) (postRecv [iov'] c), w2)))"

text \<open>
  \<^verbatim>\<open>allocIoVecs\<close>: the last vector gets a buffer of \<^verbatim>\<open>baseLen % gMaxBlockSize\<close> bytes and, when it
  is the vector passed in, the size \<^verbatim>\<open>baseLen\<close>.
\<close>

fun alloc_blocks :: "nat \<Rightarrow> nat \<Rightarrow> rpc_world \<Rightarrow> iovec list \<times> rpc_world" where
  "alloc_blocks 0 B w = ([], w)"
| "alloc_blocks (Suc n) B w = (let (b, w1) = new_buf B w; (vs, w2) = alloc_blocks n B w1
     in (IoVec_full b B RecvCb NoParam SYS_ALLOC # vs, w2))"

definition allocIoVecs :: "nat \<Rightarrow> iovec option \<Rightarrow> rpc_world \<Rightarrow> iovec list \<times> rpc_world" where
  "allocIoVecs baseLen iov w =
     (let B = gMaxBlockSize w;
          blockCount = blocks B baseLen;
          (vs, w1) = alloc_blocks (blockCount - 1) B w;
          (b, w2) = new_buf (baseLen mod B) w1;
          lst = (case iov of Some v \<Rightarrow> (iov_reset v)\<lparr>base := b, vsize := baseLen\<rparr>
             | None \<Rightarrow> IoVec_full b (baseLen mod B) RecvCb NoParam SYS_ALLOC)
      in (vs @ [lst], w2))"

definition repostIoVecs :: "iovec \<Rightarrow> nat \<Rightarrow> cst \<Rightarrow> fault + cst" where
  "repostIoVecs iov baseLen = (\<lambda>(c, w). and_then (free_base iov w) (\<lambda>w1.
     let (vs, w2) = allocIoVecs baseLen (Some iov) w1 in Inr (postRecv vs c, w2)))"

text \<open>\<^verbatim>\<open>allocAttachIoVecs\<close>: blocks for an attachment of \<open>baseLen\<close> bytes, appended to the descriptor.\<close>

fun alloc_vecs :: "nat list \<Rightarrow> rpc_world \<Rightarrow> vec_t list \<times> rpc_world" where
  "alloc_vecs [] w = ([], w)"
| "alloc_vecs (n # ns) w = (let (b, w1) = new_buf n w; (vs, w2) = alloc_vecs ns w1
     in (\<lparr>vbase = b, vlen = int n\<rparr> # vs, w2))"

definition block_sizes :: "nat \<Rightarrow> nat \<Rightarrow> nat list" where
  "block_sizes B n = replicate (blocks B n - 1) B @ [n - (blocks B n - 1) * B]"

definition allocAttachIoVecs :: "msg_desc \<Rightarrow> nat \<Rightarrow> rpc_world \<Rightarrow> msg_desc \<times> rpc_world" where
  "allocAttachIoVecs md baseLen w =
     (let (vs, w') = alloc_vecs (block_sizes (gMaxBlockSize w) baseLen) w
      in (md\<lparr>attachMems := attachMems md @ vs\<rparr>, w'))"

definition pushAttachMessage :: "msg_desc \<Rightarrow> conn \<Rightarrow> conn" where
  "pushAttachMessage md c =
     (let vs = map (\<lambda>v. setCallback RecvCb RecvParam (IoVec_vec v USER_ALLOC)) (attachMems md)
      in postRecv vs (upd_cbp (\<lambda>p. p\<lparr>remainVecs := of_nat (length (attachMems md))\<rparr>) c))"

definition cleanMdAttach :: "msg_desc \<Rightarrow> rpc_world \<Rightarrow> fault + (msg_desc \<times> rpc_world)" where
  "cleanMdAttach md w = cleanupAttachMem md w"

section \<open>Errors and discarded data\<close>

definition recvErrCb :: "iovec \<Rightarrow> bool \<Rightarrow> cst \<Rightarrow> fault + cst" where
  "recvErrCb iov freeIov = (\<lambda>(c, w).
     and_then (if freeIov \<and> alloc iov = SYS_ALLOC then delete_buf (base iov) w else Inr w) (\<lambda>w1.
       let cbp = cbp_of c; c1 = upd_cbp (\<lambda>p. p\<lparr>cbCev := None\<rparr>) c
       in case cbCev cbp of None \<Rightarrow> Inr (c1, w1)
        | Some cev \<Rightarrow>
            if eventDone cbp then Inr (c1, w1)
            else if isServerGen cev w1 then Inr (upd_cbp (\<lambda>p. p\<lparr>eventDone := True\<rparr>) c1, cev_done cev w1)
            else Inr (upd_cbp (\<lambda>p. p\<lparr>eventDone := True\<rparr>) (removeEventEntry (reqId cbp) c1),
                      completeEvent CONN_FAILURE cev w1)))"

definition prepare2Drain :: "iovec \<Rightarrow> u64 \<Rightarrow> cst \<Rightarrow> fault + cst" where
  "prepare2Drain iov leftSize = (\<lambda>(c, w).
     if leftSize > 0 then
       and_then (repostReusedIoVec (unat leftSize) iov (upd_cbp (\<lambda>p. p\<lparr>drainLen := leftSize\<rparr>) c, w))
         (\<lambda>(c1, w1). Inr (setNextRecv DRAIN c1, w1))
     else
       and_then (recvErrCb iov False (c, w)) (\<lambda>(c1, w1).
       and_then (repostIoVec iov HDR_LEN (upd_cbp (\<lambda>p. p\<lparr>drainLen := 0\<rparr>) c1, w1)) (\<lambda>(c2, w2).
       Inr (setNextRecv HEADER c2, w2))))"

definition recvDrain :: "iovec \<Rightarrow> cst \<Rightarrow> fault + cst" where
  "recvDrain iov = (\<lambda>(c, w).
     let c1 = upd_cbp (\<lambda>p. p\<lparr>remainVecs := remainVecs p - 1\<rparr>) c;
         n = remainVecs (cbp_of c1)
     in if n = 0 then
          and_then (recvErrCb iov False (c1, w)) (\<lambda>(c2, w2). repostIoVec iov HDR_LEN (setNextRecv HEADER c2, w2))
        else if n = 1 then
          let lastBlockSize = unat (drainLen (cbp_of c1)) mod gMaxBlockSize w
          in Inr (postRecv [(iov_reset iov)\<lparr>vsize := lastBlockSize\<rparr>] c1, w)
        else Inr (postRecv [iov_reset iov] c1, w))"

section \<open>A header\<close>

definition recvHeaderCb :: "iovec \<Rightarrow> cst \<Rightarrow> fault + (conn_status \<times> cst)" where
  "recvHeaderCb iov = (\<lambda>(c, w).
     and_then (mem_read (base iov) 0 HDR_LEN w) (\<lambda>bytes.
     if vsize iov \<noteq> HDR_LEN then Inl Assert_failed
     else
       let hdr = header_read bytes;
           msgLen = hMsgLen hdr;
           c1 = upd_cbp (\<lambda>p. cb_param_zero\<lparr>cbCs := True, attLen := ucast (hAttLen hdr), fileLen := hFileLen hdr\<rparr>) c;
           leftSize = msgLen + ucast (attLen (cbp_of c1)) + fileLen (cbp_of c1)
       in if take 4 (hType hdr) \<noteq> MSG_TYPE_RPC @ [NUL]
          then and_then (prepare2Drain iov leftSize (c1, w)) (\<lambda>s. Inr (CONN_ERR_MISMATCH, s))
          else if alloc iov \<noteq> SYS_ALLOC then Inl Assert_failed
          else and_then (repostIoVec iov (unat msgLen) (setNextRecv MESSAGE c1, w)) (\<lambda>s. Inr (C_SUCCESS, s))))"

section \<open>A complete event\<close>

text \<open>
  \<^verbatim>\<open>eventDone\<close>: a request goes to the next stage; a response completes the event that waited for
  it (the code spins while that event is pending, so a pending event there waits for the sender).
\<close>

definition eventDone_cb :: "cev_id \<Rightarrow> cst \<Rightarrow> fault + cst" where
  "eventDone_cb cev = (\<lambda>(c, w).
     let c1 = messageIn c in
     case cevs w cev of None \<Rightarrow> Inl Dangling
     | Some e \<Rightarrow>
         if serverGen e then Inr (c1, w\<lparr>inbox := inbox w @ [cev]\<rparr>)
         else if status e = PENDING then Inl Blocked
         else (case msg (response e) of
             Some (MRsp r) \<Rightarrow> Inr (c1, completeEvent (mStatus r) cev w)
           | _ \<Rightarrow> Inl Dangling))"

definition checkEventReady :: "bool \<Rightarrow> iovec \<Rightarrow> cst \<Rightarrow> fault + cst" where
  "checkEventReady ready iov = (\<lambda>(c, w).
     if ready then
       (case cbCev (cbp_of c) of None \<Rightarrow> Inl Assert_failed
        | Some cev \<Rightarrow> and_then (eventDone_cb cev (c, w)) (\<lambda>(c1, w1).
            repostIoVec iov HDR_LEN (upd_cbp (\<lambda>p. p\<lparr>cbCev := None\<rparr>) (setNextRecv HEADER c1), w1)))
     else and_then (if alloc iov = SYS_ALLOC then delete_buf (base iov) w else Inr w) (\<lambda>w1. Inr (c, w1)))"

definition recvPrepareFileIov :: "cst \<Rightarrow> cst" where
  "recvPrepareFileIov = (\<lambda>(c, w).
     let B = gMaxBlockSize w;
         n = unat (fileLen (cbp_of c));
         blockSize = (if n \<le> B then n else B);
         (b, w1) = new_buf blockSize w;
         iov = IoVec_full b blockSize RecvCb RecvParam SYS_ALLOC;
         c1 = upd_cbp (\<lambda>p. p\<lparr>fileOffset := 0, remainVecs := of_nat (blocks B n)\<rparr>) c
     in (postRecv [iov] (setNextRecv ATTACHFILE c1), w1))"

definition recvReqMsg :: "request \<Rightarrow> iovec \<Rightarrow> cst \<Rightarrow> fault + cst" where
  "recvReqMsg r iov = (\<lambda>(c, w).
     let cbp = cbp_of c; md0 = MsgDesc_new (Some (MReq r));
         (md, ready, c1, w1) =
           (if attLen cbp > 0 then
              let (md1, w1) = allocAttachIoVecs md0 (unat (attLen cbp)) w
              in (md1, False, setNextRecv ATTACHMENT (pushAttachMessage md1 c), w1)
            else if fileLen cbp \<noteq> 0 then let (c1, w1) = recvPrepareFileIov (c, w) in (md0, False, c1, w1)
            else (md0, True, c, w))
     in if cbCev (cbp_of c1) \<noteq> None then Inl Assert_failed
        else
          let e = (CommEvent_new (Some md) None (mPeerEp c1))
                    \<lparr>sock := mSock c1, serverGen := True, requestId := ucast (mId r)\<rparr>;
              (i, w2) = add_cev e w1
          in checkEventReady ready iov (upd_cbp (\<lambda>p. p\<lparr>cbCev := Some i\<rparr>) c1, w2))"

text \<open>
  \<^verbatim>\<open>recvPrepareRspAttach\<close>: buffers the requester posted are used as far as they go, trimmed
  to the length that comes, or extended by new ones.
\<close>

fun trim_vecs :: "int \<Rightarrow> vec_t list \<Rightarrow> vec_t list" where
  "trim_vecs left [] = []"
| "trim_vecs left (v # vs) =
     (if left \<le> 0 then v\<lparr>vlen := 0\<rparr> # trim_vecs left vs
      else if vlen v > left then v\<lparr>vlen := left\<rparr> # trim_vecs 0 vs
      else v # trim_vecs (left - vlen v) vs)"

definition recvPrepareRspAttach :: "msg_desc \<Rightarrow> cst \<Rightarrow> msg_desc \<times> cst" where
  "recvPrepareRspAttach md = (\<lambda>(c, w).
     let att = attLen (cbp_of c);
         allocLen = (of_int (sum_list (map vlen (attachMems md))) :: u32);
         (md1, w1) =
           (if attachMems md = [] then allocAttachIoVecs md (unat att) w
            else if allocLen = att then (md, w)
            else if allocLen > att then (md\<lparr>attachMems := trim_vecs (sint att) (attachMems md)\<rparr>, w)
            else allocAttachIoVecs md (unat (att - allocLen)) w)
     in (md1, setNextRecv ATTACHMENT (pushAttachMessage md1 c), w1))"

definition recvRspMsg :: "response \<Rightarrow> iovec \<Rightarrow> cst \<Rightarrow> fault + (conn_status \<times> cst)" where
  "recvRspMsg r iov = (\<lambda>(c, w).
     case getAndRmEvent (ucast (mId r)) c of
       (None, c0) \<Rightarrow> Inr (CONN_ERR_NOCEV, c0, w)
     | (Some i, c0) \<Rightarrow>
         if cbCev (cbp_of c0) \<noteq> None then Inl Assert_failed
         else case cevs w i of None \<Rightarrow> Inl Dangling
         | Some e \<Rightarrow>
             let c1 = upd_cbp (\<lambda>p. p\<lparr>cbCev := Some i, reqId := ucast (mId r)\<rparr>) c0;
                 st1 = (if status e = PENDING then CEV_SUCCESS else status e);
                 st2 = (if mStatus r = VERSION_MISMATCH \<or> mStatus r = MALFORMED_MESSAGE then mStatus r else st1);
                 md = (response e)\<lparr>msg := Some (MRsp r)\<rparr>;
                 (md1, ready, c2, w2) =
                   (if attLen (cbp_of c1) > 0 then
                      let (md1, c2, w2) = recvPrepareRspAttach md (c1, w) in (md1, False, c2, w2)
                    else if fileLen (cbp_of c1) > 0 then
                      let (c2, w2) = recvPrepareFileIov (c1, w) in (md, False, c2, w2)
                    else (md, True, c1, w));
                 w3 = w2\<lparr>cevs := (cevs w2)(i := Some (e\<lparr>status := st2, response := md1\<rparr>))\<rparr>
             in and_then (checkEventReady ready iov (c2, w3)) (\<lambda>s. Inr (C_SUCCESS, s)))"

section \<open>Attachments and files\<close>

definition recvAttach :: "iovec \<Rightarrow> cst \<Rightarrow> fault + cst" where
  "recvAttach iov = (\<lambda>(c, w).
     let (ready, c1, w1) = (if fileLen (cbp_of c) = 0 then (True, c, w)
           else let (c1, w1) = recvPrepareFileIov (c, w) in (False, c1, w1))
     in checkEventReady ready iov (c1, w1))"

definition generateRcvFileName :: "comm_event \<Rightarrow> rpc_world \<Rightarrow> string" where
  "generateRcvFileName e w = selected w @ ''/'' @ cstr (mHostName (targetEp e)) @ ''_'' @ dec_int (usec w)
     @ ''_'' @ dec_nat (unat (requestId e))"

text \<open>\<^verbatim>\<open>writeToFile\<close> (src/io/io.cpp) with mode \<^verbatim>\<open>w+\<close> or \<^verbatim>\<open>a\<close>; a file that cannot be opened is an error.\<close>

definition write_file :: "string \<Rightarrow> string \<Rightarrow> bool \<Rightarrow> rpc_world \<Rightarrow> rpc_world option" where
  "write_file name bs app w = (if \<not> writable w name then None
     else Some (w\<lparr>files := (files w)(name := Some ((if app then (case files w name of None \<Rightarrow> [] | Some s \<Rightarrow> s) else []) @ bs))\<rparr>))"

definition FILENAME_LENGTH_MAX :: nat where "FILENAME_LENGTH_MAX = 256"

definition recvFile :: "iovec \<Rightarrow> cst \<Rightarrow> fault + (conn_status \<times> cst)" where
  "recvFile iov = (\<lambda>(c, w).
     let cbp = cbp_of c;
         blockCount = (of_nat (blocks (gMaxBlockSize w) (unat (fileLen cbp))) :: u32)
     in and_then (mem_read (base iov) 0 (vsize iov) w) (\<lambda>bytes.
        and_then
          (if remainVecs cbp = blockCount then
             (case cbCev cbp of None \<Rightarrow> Inl Dangling
              | Some i \<Rightarrow> (case cevs w i of None \<Rightarrow> Inl Dangling
                 | Some e \<Rightarrow>
                     let name = generateRcvFileName e w;
                         w1 = upd_cev (\<lambda>e. if serverGen e then e\<lparr>request := (request e)\<lparr>attachFilePath := name\<rparr>\<rparr>
                                else e\<lparr>response := (response e)\<lparr>attachFilePath := name\<rparr>\<rparr>) i w
                     in Inr (write_file name bytes False w1,
                             upd_cbp (\<lambda>p. p\<lparr>filePath := take (FILENAME_LENGTH_MAX - 1) name\<rparr>) c, w1)))
           else Inr (write_file (filePath cbp) bytes True w, c, w))
          (\<lambda>(r, c1, w1). case r of
              None \<Rightarrow> Inr (CONN_ERR_WRITEFILE, if remainVecs cbp = blockCount then c else c1, w1)
            | Some w2 \<Rightarrow>
                let c2 = upd_cbp (\<lambda>p. p\<lparr>remainVecs := remainVecs p - 1\<rparr>) c1
                in if remainVecs (cbp_of c2) = 0
                   then and_then (checkEventReady True iov (c2, w2)) (\<lambda>s. Inr (C_SUCCESS, s))
                   else Inr (C_SUCCESS, c2, w2))))"

section \<open>A malformed message\<close>

text \<open>
  \<^verbatim>\<open>sendBadMsgErr\<close> reads the fixed part of a message from the buffer, whatever its size is, and
  answers with an error; \<open>raw\<close> is the memory of the new response before its constructor.
\<close>

definition sendBadMsgErr :: "response \<Rightarrow> addr \<Rightarrow> cev_status \<Rightarrow> string \<Rightarrow> cst \<Rightarrow> fault + cst" where
  "sendBadMsgErr raw b errCode errMsg = (\<lambda>(c, w).
     and_then (mem_read b 0 Message_getSerialSize w) (\<lambda>bytes.
       let req = snd (Message_deserialize \<lparr>mType = MESSAGE_BASIC, mVersion = 0, mId = 0\<rparr> bytes);
           md = MsgDesc_new (Some (MRsp (Response_new raw errCode errMsg)));
           e = (CommEvent_new None (Some md) (mPeerEp c))
                 \<lparr>requestId := ucast (mId req), status := errCode, serverGen := True, sock := mSock c\<rparr>;
           (i, w1) = add_cev e w
       in Inr (c, w1\<lparr>responses := responses w1 @ [i]\<rparr>)))"

section \<open>The receive callback\<close>

definition recvMessageCb :: "response \<Rightarrow> iovec \<Rightarrow> cst \<Rightarrow> fault + (conn_status \<times> cst)" where
  "recvMessageCb raw iov = (\<lambda>(c, w).
     and_then (mem_read (base iov) 0 (vsize iov) w) (\<lambda>bytes.
     let leftSize = ucast (attLen (cbp_of c)) + fileLen (cbp_of c)
     in case deserializer w bytes of
          None \<Rightarrow>
            and_then (sendBadMsgErr raw (base iov) MALFORMED_MESSAGE ''Failed to deserialize message'' (c, w)) (\<lambda>s.
            and_then (prepare2Drain iov leftSize s) (\<lambda>s. Inr (CONN_ERR_MISMATCH, s)))
        | Some (MReq r) \<Rightarrow> and_then (recvReqMsg r iov (c, w)) (\<lambda>s. Inr (C_SUCCESS, s))
        | Some (MRsp r) \<Rightarrow> and_then (recvRspMsg r iov (c, w)) (\<lambda>(rc, s).
            if rc = C_SUCCESS then Inr (rc, s)
            else and_then (prepare2Drain iov leftSize s) (\<lambda>s. Inr (rc, s)))
        | Some (MBase m) \<Rightarrow> and_then (prepare2Drain iov leftSize (c, w)) (\<lambda>s. Inr (CONN_ERR_MISMATCH, s))))"

definition recvAttachmentCb :: "iovec \<Rightarrow> cst \<Rightarrow> fault + (conn_status \<times> cst)" where
  "recvAttachmentCb iov = (\<lambda>(c, w).
     let c1 = upd_cbp (\<lambda>p. p\<lparr>remainVecs := remainVecs p - 1\<rparr>) c
     in if remainVecs (cbp_of c1) = 0 then and_then (recvAttach iov (c1, w)) (\<lambda>s. Inr (C_SUCCESS, s))
        else and_then (if alloc iov = SYS_ALLOC then delete_buf (base iov) w else Inr w)
               (\<lambda>w1. Inr (C_SUCCESS, c1, w1)))"

definition recvCallback :: "response \<Rightarrow> iovec \<Rightarrow> iostate \<Rightarrow> cst \<Rightarrow> fault + (conn_status \<times> cst)" where
  "recvCallback raw iov st = (\<lambda>(c, w).
     if cbParam iov = NoParam then Inr (CONN_ERR_UNAVAIL, c, w)
     else if st = CLEANUP \<or> st = ERROR then and_then (recvErrCb iov True (c, w)) (\<lambda>s. Inr (C_SUCCESS, s))
     else if \<not> cbCs (cbp_of c) then Inl Assert_failed
     else case mNextRecvPart c of
         HEADER \<Rightarrow> recvHeaderCb iov (c, w)
       | MESSAGE \<Rightarrow> recvMessageCb raw iov (c, w)
       | ATTACHMENT \<Rightarrow> recvAttachmentCb iov (c, w)
       | ATTACHFILE \<Rightarrow> recvFile iov (c, w)
       | DRAIN \<Rightarrow> and_then (recvDrain iov (c, w)) (\<lambda>s. Inr (C_SUCCESS, s)))"

section \<open>The send callbacks\<close>

definition sendReqCallback :: "cb_param \<Rightarrow> iostate \<Rightarrow> cst \<Rightarrow> fault + cst" where
  "sendReqCallback cbp st = (\<lambda>(c, w). case cbCev cbp of None \<Rightarrow> Inl Dangling
     | Some i \<Rightarrow>
         if st = DONE then Inr (c, setStatus CEV_SUCCESS i w)
         else let c1 = removeEventEntry (reqId cbp) c;
                  evst = (if st = CLEANUP then STAGE_CLEANUP else SEND_FAILURE)
              in if eventDone cbp then Inr (c1, w) else Inr (c1, completeEvent evst i w))"

definition sendRspCallback :: "cb_param \<Rightarrow> iostate \<Rightarrow> cst \<Rightarrow> fault + cst" where
  "sendRspCallback cbp st = (\<lambda>(c, w).
     if \<not> cbCs cbp then Inl Assert_failed
     else case cbCev cbp of None \<Rightarrow> Inl Assert_failed
     | Some i \<Rightarrow>
         if \<not> isServerGen i w then Inl Assert_failed
         else if st = DONE then Inr (c, cev_done i w)
         else Inr (c, completeEvent (if st = CLEANUP then STAGE_CLEANUP else SEND_FAILURE) i w))"

text \<open>
  \<^verbatim>\<open>Sock::sendfile\<close> of a slice of a file, in blocking mode. A file that cannot be opened sends
  nothing; when the file ends before the slice does, \<^verbatim>\<open>::sendfile\<close> answers 0 and the loop, whose
  test is on the pointer \<^verbatim>\<open>sendCount\<close>, goes on for ever.
\<close>

definition file_slice :: "rpc_world \<Rightarrow> cb_param \<Rightarrow> string" where
  "file_slice w cbp = (case files w (filePath cbp) of None \<Rightarrow> []
     | Some s \<Rightarrow> take (unat (fileLen cbp)) (drop (unat (fileOffset cbp)) s))"

definition sock_sendfile :: "rpc_world \<Rightarrow> cb_param \<Rightarrow> fault + string" where
  "sock_sendfile w cbp =
     (if files w (filePath cbp) \<noteq> None \<and> length (file_slice w cbp) < unat (fileLen cbp) then Inl Blocked
      else Inr (file_slice w cbp))"

definition sendCallback :: "iovec \<Rightarrow> iostate \<Rightarrow> cst \<Rightarrow> fault + cst" where
  "sendCallback iov st = (\<lambda>(c, w).
     and_then (if alloc iov = SYS_ALLOC then delete_buf (base iov) w else Inr w) (\<lambda>w1.
     case cbParam iov of
       SendParam cbp \<Rightarrow>
         and_then (if st = DONE \<and> fileLen cbp \<noteq> 0 then sock_sendfile w1 cbp else Inr []) (\<lambda>bs.
         let st1 = (if st = DONE \<and> fileLen cbp \<noteq> 0 \<and> length bs \<noteq> unat (fileLen cbp) then ERROR else st);
             w2 = w1\<lparr>sout := sout w1 @ bs\<rparr>
         in case cbCev cbp of None \<Rightarrow> Inl Dangling
            | Some i \<Rightarrow> if isServerGen i w2 then sendRspCallback cbp st1 (c, w2) else sendReqCallback cbp st1 (c, w2))
     | _ \<Rightarrow> Inr (c, w1)))"

definition io_cb :: "response \<Rightarrow> iovec \<Rightarrow> iostate \<Rightarrow> cst \<Rightarrow> fault + cst" where
  "io_cb raw iov st s = (case callback iov of NoCb \<Rightarrow> Inr s
     | RecvCb \<Rightarrow> and_then (recvCallback raw iov st s) (\<lambda>(_, s'). Inr s')
     | SendCb \<Rightarrow> sendCallback iov st s)"

section \<open>Connecting and disconnecting\<close>

definition prepareRecvHeader :: "rpc_world \<Rightarrow> iovec \<times> cb_param \<times> rpc_world" where
  "prepareRecvHeader w = (let (b, w1) = new_buf HDR_LEN w
     in (IoVec_full b HDR_LEN RecvCb RecvParam SYS_ALLOC, cb_param_zero\<lparr>cbCs := True\<rparr>, w1))"

definition onConnect :: "cst \<Rightarrow> cst" where
  "onConnect = (\<lambda>(c, w). let (iov, cbp, w1) = prepareRecvHeader w
     in ((postRecv [iov] c)\<lparr>mRecvCb := Some cbp\<rparr>, w1))"

fun complete_pending :: "(u32 \<times> cev_id) list \<Rightarrow> rpc_world \<Rightarrow> rpc_world" where
  "complete_pending [] w = w"
| "complete_pending ((_, i) # es) w = complete_pending es (completeEvent CONN_FAILURE i w)"

definition onDisconnect :: "cst \<Rightarrow> fault + (conn_status \<times> cst)" where
  "onDisconnect = (\<lambda>(c, w).
     let w1 = complete_pending (mSendEventMap c) w
     in Inr (C_SUCCESS, c\<lparr>mSendEventMap := [], mRecvCb := None\<rparr>, w1\<lparr>cleared := cleared w1 @ [mSock c]\<rparr>))"

end
