(* ===== verification/ConnRecv.thy ===== *)
theory ConnRecv
  imports ConnCb
begin

text \<open>
  The receive side of a connection as a parser of its byte stream: turns of the loop of
  \<^verbatim>\<open>recvProgress\<close> with the callbacks of ConnCb, and the theorems on sequences of
  requests, attachments and discarded data.
\<close>

section \<open>Receiving requests\<close>

text \<open>A connection that waits for a header: its one vector is the header's.\<close>

definition header_vec :: "addr \<Rightarrow> iovec" where
  "header_vec b = IoVec_full b HDR_LEN RecvCb RecvParam SYS_ALLOC"

definition awaits_header :: "conn \<Rightarrow> bool" where
  "awaits_header c \<longleftrightarrow> mRecvQ c = [] \<and> mNextRecvPart c = HEADER \<and> \<not> mCleaning c \<and>
     (\<exists>p. mRecvCb c = Some p \<and> cbCs p \<and> cbCev p = None)"

definition idle_recv :: "cst \<Rightarrow> bool" where
  "idle_recv = (\<lambda>(c, w). awaits_header c \<and>
     (\<exists>b buf. mCurRecvBlock c = Some (header_vec b) \<and> 0 < b \<and> b < nextp w \<and> heap w b = Some buf \<and> length buf = HDR_LEN))"

text \<open>What \<^verbatim>\<open>makeRpcMessage\<close> puts before the bytes of a message.\<close>

definition rpc_header :: "nat \<Rightarrow> nat \<Rightarrow> u64 \<Rightarrow> pack_header" where
  "rpc_header mlen alen flen = \<lparr>hType = strncpy HDR_TYPE_LEN MSG_TYPE_RPC, hMsgLen = of_nat mlen, hAttLen = of_nat alen,
     hFileLen = flen\<rparr>"

definition frame :: "string \<Rightarrow> string" where
  "frame m = header_bytes (rpc_header (length m) 0 0) @ m"

lemma length_rpc_type [simp]: "length (hType (rpc_header a b f)) = HDR_TYPE_LEN"
  by (simp add: rpc_header_def)

lemma rpc_header_type [simp]: "take 4 (hType (rpc_header a b f)) = MSG_TYPE_RPC @ [NUL]"
  by (simp add: rpc_header_def MSG_TYPE_RPC_def HDR_TYPE_LEN_def strncpy_def cstr_def Let_def)

lemma unat_of_nat_small: "n < 2 ^ 64 \<Longrightarrow> unat (of_nat n :: u64) = n"
  by (simp add: unat_of_nat)

lemma rpc_header_sel [simp]: "hMsgLen (rpc_header a b f) = of_nat a" "hAttLen (rpc_header a b f) = of_nat b"
  "hFileLen (rpc_header a b f) = f"
  by (simp_all add: rpc_header_def)

lemma header_read_frame [simp]: "header_read (header_bytes (rpc_header a b f)) = rpc_header a b f"
  using header_read_bytes [of "rpc_header a b f" "[]"] by simp

lemma poke_full: "length xs = length buf \<Longrightarrow> poke 0 xs buf = xs"
  by (simp add: poke_def)

lemma cbp_simps [simp]:
  "cbp_of (upd_cbp f c) = (if mRecvCb c = None then cb_param_zero else f (cbp_of c))"
  "mRecvCb (upd_cbp f c) = map_option f (mRecvCb c)"
  by (auto simp: cbp_of_def upd_cbp_def split: option.splits)

text \<open>Turns of the receive loop, whatever fuel is left.\<close>

definition turns :: "nat \<Rightarrow> response \<Rightarrow> cst \<Rightarrow> cst \<Rightarrow> bool" where
  "turns k raw s s' \<longleftrightarrow> (\<forall>n. recv_loop (k + n) (io_cb raw) True s = recv_loop n (io_cb raw) True s')"

lemma turns_trans: "turns j raw s t \<Longrightarrow> turns k raw t u \<Longrightarrow> turns (j + k) raw s u"
  by (simp add: turns_def add.assoc)

lemma turns_one:
  assumes "recvvecProgress (io_cb raw) (c\<lparr>mReadyRecv := True\<rparr>, w) = Inr (C_SUCCESS, c1, w1)" "mRecvQ c1 = v # q"
    "mCurRecvBlock c1 = None"
  shows "turns 1 raw (c, w) (c1\<lparr>mCurRecvBlock := Some v, mRecvQ := q\<rparr>, w1)"
  using recv_loop_turn [OF assms] by (simp add: turns_def del: recv_loop.simps)

text \<open>The header of a frame makes the connection wait for the message.\<close>

lemma header_turn:
  assumes "idle_recv (c, w)" "data_only (sin w)" "stream (sin w) = header_bytes (rpc_header mlen alen flen) @ ys"
    and "mlen < 2 ^ 64"
  obtains q p where "data_only q" "stream q = ys"
    and "turns 1 raw (c, w)
      (c\<lparr>mReadyRecv := True, mNextRecvPart := MESSAGE, mRecvCb := Some p,
         mCurRecvBlock := Some (IoVec_full (nextp w) (mlen) RecvCb RecvParam SYS_ALLOC), mRecvQ := []\<rparr>,
       w\<lparr>sin := q, heap := (heap w)(base (the (mCurRecvBlock c)) := None, nextp w := Some (replicate (mlen) NUL)),
         nextp := nextp w + 1\<rparr>)"
    and "cbCs p" "cbCev p = None" "attLen p = ucast (of_nat alen :: u64)" "fileLen p = flen"
proof -
  obtain b buf p0 where b: "mCurRecvBlock c = Some (header_vec b)" "0 < b" "b < nextp w" "heap w b = Some buf"
      "length buf = HDR_LEN" and c: "mRecvQ c = []" "mNextRecvPart c = HEADER" "\<not> mCleaning c"
      "mRecvCb c = Some p0" "cbCs p0" "cbCev p0 = None"
    using assms(1) by (auto simp: idle_recv_def awaits_header_def)
  let ?h = "header_bytes (rpc_header mlen alen flen)"
  have l: "xferred (header_vec b) + length ?h = vsize (header_vec b)" by (simp add: header_vec_def IoVec_full_def)
  have hb: "heap w (base (header_vec b)) = Some buf" "vsize (header_vec b) \<le> length buf"
    using b by (simp_all add: header_vec_def IoVec_full_def)
  obtain q where q: "data_only q" "stream q = ys"
    and e: "recvvecProgress (io_cb raw) (c\<lparr>mReadyRecv := True\<rparr>, w) =
      and_then (run_cb (io_cb raw) ((header_vec b)\<lparr>xferred := HDR_LEN\<rparr>) DONE (c\<lparr>mReadyRecv := True, mCurRecvBlock := None\<rparr>,
         w\<lparr>sin := q, heap := (heap w)(b := Some ?h)\<rparr>)) (\<lambda>s. Inr (C_SUCCESS, s))"
    using recvvec_done [OF b(1) c(3) assms(2,3) hb l, of "io_cb raw"] b(5)
    by (auto simp: header_vec_def IoVec_full_def poke_full)
  define p where "p = cb_param_zero\<lparr>cbCs := True, attLen := ucast (of_nat alen :: u64), fileLen := flen\<rparr>"
  define c1 where "c1 = c\<lparr>mReadyRecv := True, mNextRecvPart := MESSAGE, mRecvCb := Some p, mCurRecvBlock := None,
     mRecvQ := [IoVec_full (nextp w) (mlen) RecvCb RecvParam SYS_ALLOC]\<rparr>"
  define w1 where "w1 = w\<lparr>sin := q, heap := (heap w)(b := None, nextp w := Some (replicate (mlen) NUL)),
     nextp := nextp w + 1\<rparr>"
  have r: "recvvecProgress (io_cb raw) (c\<lparr>mReadyRecv := True\<rparr>, w) = Inr (C_SUCCESS, c1, w1)"
    unfolding e using b(2,3) c assms(4)
    by (simp add: run_cb_def io_cb_def header_vec_def IoVec_full_def recvCallback_def recvHeaderCb_def mem_read_def
        peek_def repostIoVec_def free_base_def delete_buf_def new_buf_def setNextRecv_def postRecv_def
        upd_cbp_def cbp_of_def unat_of_nat_small c1_def w1_def p_def iov_reset_def Let_def)
  show thesis
    by (rule that [OF q, where p = p]) (use turns_one [OF r] in
      \<open>simp_all add: c1_def w1_def b(1) header_vec_def IoVec_full_def p_def cb_param_zero_def\<close>)
qed

text \<open>The event a request becomes.\<close>

definition req_event :: "conn \<Rightarrow> request \<Rightarrow> comm_event" where
  "req_event c r = (CommEvent_new (Some (MsgDesc_new (Some (MReq r)))) None (mPeerEp c))
     \<lparr>sock := mSock c, serverGen := True, requestId := ucast (mId r)\<rparr>"

lemma message_turn:
  assumes "mCurRecvBlock c = Some (IoVec_full b (length m) RecvCb RecvParam SYS_ALLOC)" "mNextRecvPart c = MESSAGE"
    and "mRecvQ c = []" "\<not> mCleaning c" "mRecvCb c = Some p" "cbCs p" "cbCev p = None" "attLen p = 0" "fileLen p = 0"
    and "0 < b" "b < nextp w" "heap w b = Some (replicate (length m) NUL)"
    and "data_only (sin w)" "stream (sin w) = m @ ys" "deserializer w m = Some (MReq r)"
  obtains q where "data_only q" "stream q = ys"
    and "turns 1 raw (c, w)
      (c\<lparr>mReadyRecv := True, mNextRecvPart := HEADER, msgIn := msgIn c + 1,
         mCurRecvBlock := Some (header_vec (nextp w)), mRecvQ := []\<rparr>,
       w\<lparr>sin := q, heap := (heap w)(b := None, nextp w := Some (replicate HDR_LEN NUL)), nextp := nextp w + 1,
         cevs := (cevs w)(nextCev w := Some (req_event c r)), nextCev := nextCev w + 1,
         inbox := inbox w @ [nextCev w]\<rparr>)"
proof -
  let ?v = "IoVec_full b (length m) RecvCb RecvParam SYS_ALLOC"
  have hb: "heap w (base ?v) = Some (replicate (length m) NUL)" "vsize ?v \<le> length (replicate (length m) NUL)"
    "xferred ?v + length m = vsize ?v"
    using assms(12) by (simp_all add: IoVec_full_def)
  obtain q where q: "data_only q" "stream q = ys"
    and e: "recvvecProgress (io_cb raw) (c\<lparr>mReadyRecv := True\<rparr>, w) =
      and_then (run_cb (io_cb raw) (?v\<lparr>xferred := length m\<rparr>) DONE (c\<lparr>mReadyRecv := True, mCurRecvBlock := None\<rparr>,
         w\<lparr>sin := q, heap := (heap w)(b := Some m)\<rparr>)) (\<lambda>s. Inr (C_SUCCESS, s))"
    using recvvec_done [OF assms(1,4,13,14) hb, of "io_cb raw"] by (auto simp: IoVec_full_def poke_full)
  define c1 where "c1 = c\<lparr>mReadyRecv := True, mNextRecvPart := HEADER, msgIn := msgIn c + 1, mCurRecvBlock := None,
     mRecvQ := [header_vec (nextp w)]\<rparr>"
  define w1 where "w1 = w\<lparr>sin := q, heap := (heap w)(b := None, nextp w := Some (replicate HDR_LEN NUL)), nextp := nextp w + 1,
         cevs := (cevs w)(nextCev w := Some (req_event c r)), nextCev := nextCev w + 1, inbox := inbox w @ [nextCev w]\<rparr>"
  have pn: "p\<lparr>cbCev := None\<rparr> = p" using assms(7) by simp
  have r: "recvvecProgress (io_cb raw) (c\<lparr>mReadyRecv := True\<rparr>, w) = Inr (C_SUCCESS, c1, w1)"
    unfolding e using assms(2-12,15) pn
    by (simp add: run_cb_def io_cb_def header_vec_def IoVec_full_def recvCallback_def recvMessageCb_def recvReqMsg_def
        mem_read_def peek_def repostIoVec_def free_base_def delete_buf_def new_buf_def setNextRecv_def postRecv_def
        upd_cbp_def cbp_of_def c1_def w1_def iov_reset_def checkEventReady_def eventDone_cb_def add_cev_def messageIn_def
        req_event_def CommEvent_new_def Let_def)
  show thesis
    by (rule that [OF q]) (use turns_one [OF r] assms(3) in \<open>simp add: c1_def w1_def\<close>)
qed

text \<open>What a run that received the requests \<open>rs\<close> has done to the world.\<close>

definition delivered :: "conn \<Rightarrow> request list \<Rightarrow> rpc_world \<Rightarrow> rpc_world \<Rightarrow> bool" where
  "delivered c rs w w' \<longleftrightarrow> inbox w' = inbox w @ [nextCev w ..< nextCev w + length rs] \<and>
     nextCev w' = nextCev w + length rs \<and>
     (\<forall>k < length rs. cevs w' (nextCev w + k) = Some (req_event c (rs ! k))) \<and>
     (\<forall>i < nextCev w. cevs w' i = cevs w i) \<and> completed w' = completed w \<and> sout w' = sout w"

lemma delivered_Nil: "delivered c [] w w'
  \<longleftrightarrow> inbox w' = inbox w \<and> nextCev w' = nextCev w \<and> (\<forall>i < nextCev w. cevs w' i = cevs w i) \<and>
      completed w' = completed w \<and> sout w' = sout w"
  by (auto simp: delivered_def)

lemma delivered_Cons:
  assumes "inbox w1 = inbox w @ [nextCev w]" "nextCev w1 = nextCev w + 1" "cevs w1 = (cevs w)(nextCev w := Some (req_event c r))"
    and "completed w1 = completed w" "sout w1 = sout w" "delivered c rs w1 w2"
  shows "delivered c (r # rs) w w2"
proof -
  have "cevs w2 (nextCev w + k) = Some (req_event c ((r # rs) ! k))" if "k < length (r # rs)" for k
    using assms(2,3,6) that by (cases k) (auto simp: delivered_def)
  moreover have "cevs w2 i = cevs w i" if "i < nextCev w" for i
    using assms(2,3,6) that by (auto simp: delivered_def)
  moreover have "[nextCev w ..< nextCev w + Suc (length rs)] = nextCev w # [Suc (nextCev w) ..< nextCev w + Suc (length rs)]"
    by (rule upt_conv_Cons) simp
  ultimately show ?thesis using assms(1,2,4-6) by (simp add: delivered_def)
qed

lemma request_turns:
  assumes "idle_recv (c, w)" "data_only (sin w)" "stream (sin w) = frame m @ ys" "length m < 2 ^ 64"
    and "deserializer w m = Some (MReq r)"
  obtains c' w' where "turns 2 raw (c, w) (c', w')"
    and "idle_recv (c', w')" "data_only (sin w')" "stream (sin w') = ys" "mSock c' = mSock c" "mPeerEp c' = mPeerEp c"
    and "\<And>rs w2. delivered c rs w' w2 \<Longrightarrow> delivered c (r # rs) w w2" "deserializer w' = deserializer w"
proof -
  obtain b buf where b: "mCurRecvBlock c = Some (header_vec b)" "0 < b" "b < nextp w" and c: "mRecvQ c = []" "\<not> mCleaning c"
    using assms(1) by (auto simp: idle_recv_def awaits_header_def)
  have s1: "stream (sin w) = header_bytes (rpc_header (length m) 0 0) @ (m @ ys)" using assms(3) by (simp add: frame_def)
  obtain q p where h: "data_only q" "stream q = m @ ys"
    and ht: "turns 1 raw (c, w)
      (c\<lparr>mReadyRecv := True, mNextRecvPart := MESSAGE, mRecvCb := Some p,
         mCurRecvBlock := Some (IoVec_full (nextp w) (length m) RecvCb RecvParam SYS_ALLOC), mRecvQ := []\<rparr>,
       w\<lparr>sin := q, heap := (heap w)(base (the (mCurRecvBlock c)) := None, nextp w := Some (replicate (length m) NUL)),
         nextp := nextp w + 1\<rparr>)"
    and p: "cbCs p" "cbCev p = None" "attLen p = ucast (of_nat 0 :: u64)" "fileLen p = 0"
    by (rule header_turn [OF assms(1,2) s1 assms(4), of raw])
  have p0: "attLen p = 0" using p(3) by simp
  define c1 where "c1 = c\<lparr>mReadyRecv := True, mNextRecvPart := MESSAGE, mRecvCb := Some p,
         mCurRecvBlock := Some (IoVec_full (nextp w) (length m) RecvCb RecvParam SYS_ALLOC), mRecvQ := []\<rparr>"
  define w1 where "w1 = w\<lparr>sin := q, heap := (heap w)(base (the (mCurRecvBlock c)) := None,
         nextp w := Some (replicate (length m) NUL)), nextp := nextp w + 1\<rparr>"
  have pre: "mCurRecvBlock c1 = Some (IoVec_full (nextp w) (length m) RecvCb RecvParam SYS_ALLOC)" "mNextRecvPart c1 = MESSAGE"
    "mRecvQ c1 = []" "\<not> mCleaning c1" "mRecvCb c1 = Some p" "0 < nextp w" "nextp w < nextp w1"
    "heap w1 (nextp w) = Some (replicate (length m) NUL)" "data_only (sin w1)" "stream (sin w1) = m @ ys"
    "deserializer w1 m = Some (MReq r)"
    using b c h assms(5) by (simp_all add: c1_def w1_def)
  obtain q2 where m: "data_only q2" "stream q2 = ys"
    and mt: "turns 1 raw (c1, w1)
      (c1\<lparr>mReadyRecv := True, mNextRecvPart := HEADER, msgIn := msgIn c1 + 1,
         mCurRecvBlock := Some (header_vec (nextp w1)), mRecvQ := []\<rparr>,
       w1\<lparr>sin := q2, heap := (heap w1)(nextp w := None, nextp w1 := Some (replicate HDR_LEN NUL)), nextp := nextp w1 + 1,
         cevs := (cevs w1)(nextCev w1 := Some (req_event c1 r)), nextCev := nextCev w1 + 1,
         inbox := inbox w1 @ [nextCev w1]\<rparr>)"
    by (rule message_turn [OF pre(1-5) p(1,2) p0 p(4) pre(6-11), of raw]) blast
  define c2 where "c2 = c1\<lparr>mReadyRecv := True, mNextRecvPart := HEADER, msgIn := msgIn c1 + 1,
         mCurRecvBlock := Some (header_vec (nextp w1)), mRecvQ := []\<rparr>"
  define w2 where "w2 = w1\<lparr>sin := q2, heap := (heap w1)(nextp w := None, nextp w1 := Some (replicate HDR_LEN NUL)),
         nextp := nextp w1 + 1, cevs := (cevs w1)(nextCev w1 := Some (req_event c1 r)), nextCev := nextCev w1 + 1,
         inbox := inbox w1 @ [nextCev w1]\<rparr>"
  show thesis
  proof (rule that)
    show "turns 2 raw (c, w) (c2, w2)"
      using turns_trans [OF ht [folded c1_def w1_def] mt [folded c2_def w2_def]] by (simp only: one_add_one)
    have "awaits_header c2" using p(1,2) c by (simp add: awaits_header_def c2_def c1_def)
    moreover have "mCurRecvBlock c2 = Some (header_vec (nextp w1))" "0 < nextp w1" "nextp w1 < nextp w2"
      "heap w2 (nextp w1) = Some (replicate HDR_LEN NUL)" using b(2,3) by (simp_all add: c2_def w2_def w1_def)
    ultimately show "idle_recv (c2, w2)" unfolding idle_recv_def prod.case by (metis length_replicate)
    show "data_only (sin w2)" "stream (sin w2) = ys" "mSock c2 = mSock c" "mPeerEp c2 = mPeerEp c"
      "deserializer w2 = deserializer w" using m by (simp_all add: c2_def c1_def w2_def w1_def)
    have e: "req_event c1 r = req_event c r" by (simp add: req_event_def c1_def)
    show "delivered c (r # rs) w u" if "delivered c rs w2 u" for rs u
      by (rule delivered_Cons [OF _ _ _ _ _ that]) (simp_all add: w2_def w1_def e)
  qed
qed

lemma header_wait:
  assumes "idle_recv (c, w)" "data_only (sin w)" "stream (sin w) = []"
  shows "\<exists>c' w'. recv_loop (Suc n) (io_cb raw) True (c, w) = Some (Inr (C_SUCCESS, c', w')) \<and> idle_recv (c', w') \<and>
    mSock c' = mSock c \<and> delivered c [] w w' \<and> sin w' = []"
proof -
  obtain b buf where b: "mCurRecvBlock c = Some (header_vec b)" "0 < b" "b < nextp w" "heap w b = Some buf" "length buf = HDR_LEN"
      and c: "mRecvQ c = []" "\<not> mCleaning c"
    using assms(1) by (auto simp: idle_recv_def awaits_header_def)
  have v: "heap w (base (header_vec b)) = Some buf" "vsize (header_vec b) \<le> length buf"
    "xferred (header_vec b) + length (stream (sin w)) < vsize (header_vec b)"
    using b assms(3) by (simp_all add: header_vec_def IoVec_full_def HDR_LEN_def HDR_TYPE_LEN_def)
  note r = recv_loop_wait [OF recvvec_wait [OF b(1) c(2) assms(2) v, of "io_cb raw"], of n]
  show ?thesis
    using r assms(1,3) b by (auto simp: idle_recv_def awaits_header_def delivered_Nil header_vec_def IoVec_full_def)
qed

lemma requests_loop:
  assumes "idle_recv (c, w)" "data_only (sin w)" "stream (sin w) = concat (map frame ms)"
    and "\<forall>m \<in> set ms. length m < 2 ^ 64 \<and> deserializer w m = Some (MReq (req m))"
  shows "\<exists>n c' w'. recv_loop n (io_cb raw) True (c, w) = Some (Inr (C_SUCCESS, c', w')) \<and> idle_recv (c', w') \<and>
    delivered c (map req ms) w w' \<and> sin w' = []"
  using assms
proof (induction ms arbitrary: c w)
  case Nil
  then show ?case using header_wait [of c w 0 raw] by (simp del: recv_loop.simps) blast
next
  case (Cons m ms)
  have s: "stream (sin w) = frame m @ concat (map frame ms)" using Cons.prems(3) by simp
  have m: "length m < 2 ^ 64" "deserializer w m = Some (MReq (req m))" using Cons.prems(4) by auto
  obtain c1 w1 where st: "turns 2 raw (c, w) (c1, w1)"
    and i: "idle_recv (c1, w1)" "data_only (sin w1)" "stream (sin w1) = concat (map frame ms)" "mSock c1 = mSock c"
      "mPeerEp c1 = mPeerEp c" "\<And>rs w2. delivered c rs w1 w2 \<Longrightarrow> delivered c (req m # rs) w w2"
      "deserializer w1 = deserializer w"
    by (rule request_turns [OF Cons.prems(1,2) s m, of raw]) blast
  obtain n c' w' where r: "recv_loop n (io_cb raw) True (c1, w1) = Some (Inr (C_SUCCESS, c', w'))" "idle_recv (c', w')"
    "delivered c1 (map req ms) w1 w'" "sin w' = []"
    using Cons.IH [OF i(1-3)] Cons.prems(4) i(7) by auto
  have "delivered c (map req ms) w1 w'" using r(3) i(4,5) by (simp add: delivered_def req_event_def)
  with i(6) r st show ?case unfolding turns_def by (intro exI [of _ "2 + n"]) (auto simp del: recv_loop.simps)
qed

lemma updateActSn_cases:
  obtains sn where "updateActSn (c, w) = (c\<lparr>mActivitySn := sn\<rparr>, w\<lparr>globalActSn := sn\<rparr>)"
  by (simp add: updateActSn_def Let_def)

lemma idle_recv_updateActSn: "idle_recv (c, w) \<Longrightarrow> idle_recv (c\<lparr>mActivitySn := sn\<rparr>, w\<lparr>globalActSn := sn\<rparr>)"
  by (simp add: idle_recv_def awaits_header_def)

lemma receive_requests:
  assumes "idle_recv (c, w)" "data_only (sin w)" "stream (sin w) = concat (map frame ms)"
    and "\<forall>m \<in> set ms. length m < 2 ^ 64 \<and> deserializer w m = Some (MReq (req m))"
  shows "\<exists>n c' w'. recvProgress n (io_cb raw) True (c, w) = Some (Inr (C_SUCCESS, c', w')) \<and> idle_recv (c', w') \<and>
    delivered c (map req ms) w w' \<and> sin w' = []"
proof -
  obtain sn where u: "updateActSn (c, w) = (c\<lparr>mActivitySn := sn\<rparr>, w\<lparr>globalActSn := sn\<rparr>)" by (rule updateActSn_cases)
  from requests_loop [OF idle_recv_updateActSn [OF assms(1)], of sn ms req raw] assms(2-4) u show ?thesis
    by (simp add: recvProgress_def delivered_def req_event_def)
qed

text \<open>C1: The receive side of a connection is a correct and complete parser of its byte stream: whatever
  pieces the socket hands out, if the bytes are the frames of a sequence of request messages, one call of
  \<^verbatim>\<open>recvProgress\<close> gives the next stage exactly one event per request, in order and with the request in it,
  completes nothing else, and leaves the connection waiting for the next header.\<close>

theorem requests_delivered:
  assumes "idle_recv (c, w)" "data_only (sin w)" "stream (sin w) = concat (map frame ms)"
    and "\<forall>m \<in> set ms. length m < 2 ^ 64 \<and> deserializer w m = Some (MReq (req m))"
  shows "\<exists>n c' w'. recvProgress n (io_cb raw) True (c, w) = Some (Inr (C_SUCCESS, c', w')) \<and> idle_recv (c', w') \<and>
    delivered c (map req ms) w w' \<and> sin w' = []"
  using assms by (rule receive_requests)

text \<open>A connection that waits for a header, in a world with its buffer, for concrete runs.\<close>

definition sample_req :: request where
  "sample_req = \<lparr>mType = MESSAGE_BASIC_REQUEST, mVersion = 0, mId = 7,
     mSourceEp = \<lparr>mHostName = ''a'', mLocation = [], mService = [], mPort = 80\<rparr>, mProtocal = []\<rparr>"

definition sample_rsp :: response where
  "sample_rsp = \<lparr>mType = MESSAGE_BASIC_RESPONSE, mVersion = 0, mId = 7, mStatus = 0, mErrMsg = []\<rparr>"

definition sample_world :: "string \<Rightarrow> rpc_world" where
  "sample_world bytes = \<lparr>heap = [1 \<mapsto> replicate HDR_LEN NUL], nextp = 2,
     sin = (if bytes = [] then [] else [InData bytes]), sout = [], squota = [],
     globalActSn = 0, cevs = Map.empty, nextCev = 0, completed = [], inbox = [], responses = [], files = Map.empty,
     writable = (\<lambda>_. True), selected = ''/tmp'', usec = 0, gMaxBlockSize = 4, deserializer = (\<lambda>_. Some (MReq sample_req)),
     cleared = []\<rparr>"

definition sample_conn :: conn where
  "sample_conn = (fst (Conn_new (mSourceEp sample_req) (sample_world [])))
     \<lparr>mCurRecvBlock := Some (header_vec 1), mRecvCb := Some (cb_param_zero\<lparr>cbCs := True\<rparr>)\<rparr>"

lemma sample_idle: "idle_recv (sample_conn, sample_world bytes)"
  by (simp add: idle_recv_def awaits_header_def sample_conn_def sample_world_def Conn_new_def updateActSn_def
      cb_param_zero_def Let_def)

lemma sample_world_sel [simp]: "data_only (sin (sample_world bytes))" "stream (sin (sample_world bytes)) = bytes"
  "deserializer (sample_world bytes) m = Some (MReq sample_req)" "gMaxBlockSize (sample_world bytes) = 4"
  by (simp_all add: sample_world_def)

theorem requests_delivered_witness:
  "\<exists>n c' w'. recvProgress n (io_cb sample_rsp) True (sample_conn, sample_world (concat (map frame [''one'', ''two'']))) =
       Some (Inr (C_SUCCESS, c', w')) \<and> idle_recv (c', w') \<and>
     delivered sample_conn [sample_req, sample_req] (sample_world (concat (map frame [''one'', ''two'']))) w' \<and> sin w' = []"
  using requests_delivered [OF sample_idle, of "concat (map frame [''one'', ''two''])" "[''one'', ''two'']" "\<lambda>_. sample_req"
      sample_rsp]
  by simp

section \<open>Receiving an attachment\<close>

definition att_vec :: "vec_t \<Rightarrow> iovec" where
  "att_vec x = setCallback RecvCb RecvParam (IoVec_vec x USER_ALLOC)"

lemma att_vec_sel [simp]: "base (att_vec x) = vbase x" "vsize (att_vec x) = nat (vlen x)" "xferred (att_vec x) = 0"
  "callback (att_vec x) = RecvCb" "cbParam (att_vec x) = RecvParam" "alloc (att_vec x) = USER_ALLOC"
  by (simp_all add: att_vec_def setCallback_def IoVec_vec_def IoVec_full_def)

lemma u32_of_nat_nz: "0 < n \<Longrightarrow> n < 2 ^ 32 \<Longrightarrow> (of_nat n :: u32) \<noteq> 0"
  by (auto simp: word_of_nat_eq_0_iff dest: dvd_imp_le)

text \<open>The header's vector after an attachment: it is not marked as allocated by the system.\<close>

definition stale_vec :: "addr \<Rightarrow> iovec" where
  "stale_vec b = IoVec_full b HDR_LEN RecvCb RecvParam USER_ALLOC"

text \<open>The state while attachment blocks \<open>xs\<close> of the event \<open>i\<close> are still to come.\<close>

definition attaching :: "cev_id \<Rightarrow> vec_t list \<Rightarrow> cst \<Rightarrow> bool" where
  "attaching i xs = (\<lambda>(c, w). xs \<noteq> [] \<and> mCurRecvBlock c = Some (att_vec (hd xs)) \<and> mRecvQ c = map att_vec (tl xs) \<and>
     mNextRecvPart c = ATTACHMENT \<and> \<not> mCleaning c \<and>
     (\<exists>p. mRecvCb c = Some p \<and> cbCs p \<and> remainVecs p = of_nat (length xs) \<and> fileLen p = 0 \<and> cbCev p = Some i) \<and>
     length xs < 2 ^ 32 \<and> (\<exists>e. cevs w i = Some e \<and> serverGen e) \<and> distinct (map vbase xs) \<and>
     (\<forall>x \<in> set xs. 0 \<le> vlen x \<and> vbase x < nextp w \<and> (\<exists>buf. heap w (vbase x) = Some buf \<and> length buf = nat (vlen x))))"

lemma attach_turn:
  assumes "attaching i (x # x' # xs) (c, w)" "data_only (sin w)" "stream (sin w) = d @ ys" "length d = nat (vlen x)"
  obtains c' w' where "turns 1 raw (c, w) (c', w')" "attaching i (x' # xs) (c', w')" "data_only (sin w')"
    "stream (sin w') = ys" "heap w' = (heap w)(vbase x := Some d)" "w' = w\<lparr>sin := sin w', heap := heap w'\<rparr>"
    "c' = c\<lparr>mReadyRecv := True, mCurRecvBlock := mCurRecvBlock c', mRecvQ := mRecvQ c', mRecvCb := mRecvCb c'\<rparr>"
proof -
  obtain p buf where c: "mCurRecvBlock c = Some (att_vec x)" "mRecvQ c = att_vec x' # map att_vec xs" "mNextRecvPart c = ATTACHMENT"
    "\<not> mCleaning c" "mRecvCb c = Some p" "cbCs p" "remainVecs p = of_nat (length (x # x' # xs))"
    and b: "heap w (vbase x) = Some buf" "length buf = nat (vlen x)"
    using assms(1) by (auto simp: attaching_def)
  have hb: "heap w (base (att_vec x)) = Some buf" "vsize (att_vec x) \<le> length buf"
    "xferred (att_vec x) + length d = vsize (att_vec x)" using b assms(4) by simp_all
  obtain q where q: "data_only q" "stream q = ys"
    and e: "recvvecProgress (io_cb raw) (c\<lparr>mReadyRecv := True\<rparr>, w) =
      and_then (run_cb (io_cb raw) ((att_vec x)\<lparr>xferred := nat (vlen x)\<rparr>) DONE (c\<lparr>mReadyRecv := True, mCurRecvBlock := None\<rparr>,
         w\<lparr>sin := q, heap := (heap w)(vbase x := Some d)\<rparr>)) (\<lambda>s. Inr (C_SUCCESS, s))"
    using recvvec_done [OF c(1,4) assms(2,3) hb, of "io_cb raw"] b assms(4) by (auto simp: poke_full)
  have lx: "length (x' # xs) < 2 ^ 32" using assms(1) by (auto simp: attaching_def)
  have rv: "remainVecs p - 1 = of_nat (length (x' # xs))" using c(7) by simp
  have nz: "remainVecs p - 1 \<noteq> 0" unfolding rv by (rule u32_of_nat_nz) (use lx in simp_all)
  let ?c = "c\<lparr>mReadyRecv := True, mCurRecvBlock := None, mRecvCb := Some (p\<lparr>remainVecs := remainVecs p - 1\<rparr>)\<rparr>"
  let ?w = "w\<lparr>sin := q, heap := (heap w)(vbase x := Some d)\<rparr>"
  have r: "recvvecProgress (io_cb raw) (c\<lparr>mReadyRecv := True\<rparr>, w) = Inr (C_SUCCESS, ?c, ?w)"
    unfolding e using c(3,5,6) nz
    by (simp add: run_cb_def io_cb_def recvCallback_def recvAttachmentCb_def upd_cbp_def cbp_of_def Let_def)
  have t: "turns 1 raw (c, w) (?c\<lparr>mCurRecvBlock := Some (att_vec x'), mRecvQ := map att_vec xs\<rparr>, ?w)"
    by (rule turns_one [OF r]) (simp_all add: c(2))
  show thesis
  proof (rule that [OF t])
    show "attaching i (x' # xs) (?c\<lparr>mCurRecvBlock := Some (att_vec x'), mRecvQ := map att_vec xs\<rparr>, ?w)"
      using assms(1) c(5) rv by (auto simp: attaching_def) (metis image_eqI)
  qed (use q in simp_all)
qed

lemma attach_last:
  assumes "attaching i [x] (c, w)" "data_only (sin w)" "stream (sin w) = d @ ys" "length d = nat (vlen x)"
  obtains c' w' where "turns 1 raw (c, w) (c', w')" "data_only (sin w')" "stream (sin w') = ys"
    "w' = w\<lparr>sin := sin w', heap := (heap w)(vbase x := Some d, nextp w := Some (replicate HDR_LEN NUL)),
       nextp := nextp w + 1, inbox := inbox w @ [i]\<rparr>"
    "mCurRecvBlock c' = Some (stale_vec (nextp w))" "mRecvQ c' = []" "mNextRecvPart c' = HEADER" "\<not> mCleaning c'"
    "\<exists>p. mRecvCb c' = Some p \<and> cbCs p \<and> cbCev p = None" "mSock c' = mSock c"
proof -
  obtain p buf e where c: "mCurRecvBlock c = Some (att_vec x)" "mRecvQ c = []" "mNextRecvPart c = ATTACHMENT"
    "\<not> mCleaning c" "mRecvCb c = Some p" "cbCs p" "remainVecs p = of_nat (length [x])" "fileLen p = 0" "cbCev p = Some i"
    "cevs w i = Some e" "serverGen e"
    and b: "heap w (vbase x) = Some buf" "length buf = nat (vlen x)"
    using assms(1) by (auto simp: attaching_def)
  have hb: "heap w (base (att_vec x)) = Some buf" "vsize (att_vec x) \<le> length buf"
    "xferred (att_vec x) + length d = vsize (att_vec x)" using b assms(4) by simp_all
  obtain q where q: "data_only q" "stream q = ys"
    and e: "recvvecProgress (io_cb raw) (c\<lparr>mReadyRecv := True\<rparr>, w) =
      and_then (run_cb (io_cb raw) ((att_vec x)\<lparr>xferred := nat (vlen x)\<rparr>) DONE (c\<lparr>mReadyRecv := True, mCurRecvBlock := None\<rparr>,
         w\<lparr>sin := q, heap := (heap w)(vbase x := Some d)\<rparr>)) (\<lambda>s. Inr (C_SUCCESS, s))"
    using recvvec_done [OF c(1,4) assms(2,3) hb, of "io_cb raw"] b assms(4) by (auto simp: poke_full)
  let ?c = "c\<lparr>mReadyRecv := True, mCurRecvBlock := None, mNextRecvPart := HEADER, msgIn := msgIn c + 1,
     mRecvCb := Some (p\<lparr>remainVecs := remainVecs p - 1, cbCev := None\<rparr>), mRecvQ := [stale_vec (nextp w)]\<rparr>"
  let ?w = "w\<lparr>sin := q, heap := (heap w)(vbase x := Some d, nextp w := Some (replicate HDR_LEN NUL)),
       nextp := nextp w + 1, inbox := inbox w @ [i]\<rparr>"
  have v: "(iov_reset ((att_vec x)\<lparr>xferred := nat (vlen x)\<rparr>))\<lparr>base := nextp w, vsize := HDR_LEN\<rparr> = stale_vec (nextp w)"
    by (simp add: att_vec_def setCallback_def IoVec_vec_def IoVec_full_def stale_vec_def iov_reset_def)
  have r: "recvvecProgress (io_cb raw) (c\<lparr>mReadyRecv := True\<rparr>, w) = Inr (C_SUCCESS, ?c, ?w)"
    unfolding e using c v
    by (simp add: run_cb_def io_cb_def recvCallback_def recvAttachmentCb_def recvAttach_def checkEventReady_def
        eventDone_cb_def repostIoVec_def free_base_def new_buf_def messageIn_def setNextRecv_def postRecv_def
        upd_cbp_def cbp_of_def Let_def)
  have t: "turns 1 raw (c, w) (?c\<lparr>mCurRecvBlock := Some (stale_vec (nextp w)), mRecvQ := []\<rparr>, ?w)"
    by (rule turns_one [OF r]) simp_all
  show thesis by (rule that [OF t]) (use q c in simp_all)
qed

text \<open>All blocks of an attachment, by induction on them.\<close>

lemma attach_turns:
  assumes "attaching i xs (c, w)" "data_only (sin w)" "stream (sin w) = concat ds @ ys"
    and "map length ds = map (nat \<circ> vlen) xs"
  shows "\<exists>c' w'. turns (length xs) raw (c, w) (c', w') \<and> data_only (sin w') \<and> stream (sin w') = ys \<and>
    mCurRecvBlock c' = Some (stale_vec (nextp w)) \<and> mRecvQ c' = [] \<and> mNextRecvPart c' = HEADER \<and> \<not> mCleaning c' \<and>
    (\<exists>p. mRecvCb c' = Some p \<and> cbCs p \<and> cbCev p = None) \<and> mSock c' = mSock c \<and>
    inbox w' = inbox w @ [i] \<and> cevs w' = cevs w \<and> completed w' = completed w \<and> sout w' = sout w \<and>
    nextp w' = nextp w + 1 \<and> heap w' (nextp w) = Some (replicate HDR_LEN NUL) \<and>
    (\<forall>k < length xs. heap w' (vbase (xs ! k)) = Some (ds ! k)) \<and>
    (\<forall>b. b \<noteq> nextp w \<longrightarrow> b \<notin> vbase ` set xs \<longrightarrow> heap w' b = heap w b)"
  using assms
proof (induction xs arbitrary: ds c w)
  case Nil
  then show ?case by (simp add: attaching_def)
next
  case (Cons x xs)
  obtain d ds' where ds: "ds = d # ds'" "length d = nat (vlen x)" "map length ds' = map (nat \<circ> vlen) xs"
    using Cons.prems(4) by (cases ds) auto
  have st: "stream (sin w) = d @ (concat ds' @ ys)" using Cons.prems(3) ds(1) by simp
  have lt: "\<forall>y \<in> set (x # xs). vbase y < nextp w" and dist: "distinct (map vbase (x # xs))"
    using Cons.prems(1) by (auto simp: attaching_def)
  show ?case
  proof (cases xs)
    case Nil
    then have "ds' = []" using ds(3) by simp
    with st have st': "stream (sin w) = d @ ys" by simp
    obtain c' w' where l: "turns 1 raw (c, w) (c', w')" "data_only (sin w')" "stream (sin w') = ys"
      "w' = w\<lparr>sin := sin w', heap := (heap w)(vbase x := Some d, nextp w := Some (replicate HDR_LEN NUL)),
         nextp := nextp w + 1, inbox := inbox w @ [i]\<rparr>"
      "mCurRecvBlock c' = Some (stale_vec (nextp w))" "mRecvQ c' = []" "mNextRecvPart c' = HEADER" "\<not> mCleaning c'"
      "\<exists>p. mRecvCb c' = Some p \<and> cbCs p \<and> cbCev p = None" "mSock c' = mSock c"
      by (rule attach_last [OF Cons.prems(1) [unfolded Nil] Cons.prems(2) st' ds(2), of raw])
    have w': "inbox w' = inbox w @ [i]" "cevs w' = cevs w" "completed w' = completed w" "sout w' = sout w"
      "nextp w' = nextp w + 1" "heap w' = (heap w)(vbase x := Some d, nextp w := Some (replicate HDR_LEN NUL))"
      by (subst l(4), simp)+
    show ?thesis
      by (rule exI [of _ c'], rule exI [of _ w']) (use l(1-3,5-10) w' lt Nil \<open>ds' = []\<close> ds(1) in auto)
  next
    case (Cons x' xs')
    obtain c1 w1 where t: "turns 1 raw (c, w) (c1, w1)" "attaching i (x' # xs') (c1, w1)" "data_only (sin w1)"
      "stream (sin w1) = concat ds' @ ys" "heap w1 = (heap w)(vbase x := Some d)" "w1 = w\<lparr>sin := sin w1, heap := heap w1\<rparr>"
      "c1 = c\<lparr>mReadyRecv := True, mCurRecvBlock := mCurRecvBlock c1, mRecvQ := mRecvQ c1, mRecvCb := mRecvCb c1\<rparr>"
      by (rule attach_turn [OF Cons.prems(1) [unfolded Cons] Cons.prems(2) st ds(2), of raw])
    have w1: "inbox w1 = inbox w" "cevs w1 = cevs w" "completed w1 = completed w" "sout w1 = sout w" "nextp w1 = nextp w"
      by (subst t(6), simp)+
    have c1: "mSock c1 = mSock c" by (subst t(7)) simp
    from Cons.IH [unfolded Cons, OF t(2-4)] ds(3) Cons
    obtain c' w' where r: "turns (length xs) raw (c1, w1) (c', w')" "data_only (sin w')" "stream (sin w') = ys"
      "mCurRecvBlock c' = Some (stale_vec (nextp w1))" "mRecvQ c' = []" "mNextRecvPart c' = HEADER" "\<not> mCleaning c'"
      "\<exists>p. mRecvCb c' = Some p \<and> cbCs p \<and> cbCev p = None" "mSock c' = mSock c1"
      "inbox w' = inbox w1 @ [i]" "cevs w' = cevs w1" "completed w' = completed w1" "sout w' = sout w1"
      "nextp w' = nextp w1 + 1" "heap w' (nextp w1) = Some (replicate HDR_LEN NUL)"
      "\<forall>k < length xs. heap w' (vbase (xs ! k)) = Some (ds' ! k)"
      "\<forall>b. b \<noteq> nextp w1 \<longrightarrow> b \<notin> vbase ` set xs \<longrightarrow> heap w' b = heap w1 b"
      by auto
    have tt: "turns (length (x # xs)) raw (c, w) (c', w')" using turns_trans [OF t(1) r(1)] by simp
    have hx: "heap w' (vbase x) = Some d" using r(17) dist lt t(5) w1(5) by auto
    have "heap w' (vbase ((x # xs) ! k)) = Some (ds ! k)" if "k < length (x # xs)" for k
      using hx r(16) that by (cases k) (auto simp: ds(1))
    moreover have "heap w' b = heap w b" if "b \<noteq> nextp w" "b \<notin> vbase ` set (x # xs)" for b
      using r(17) that t(5) w1(5) by auto
    ultimately show ?thesis
      by (intro exI [of _ c'] exI [of _ w']) (use tt r w1 c1 in auto)
  qed
qed

text \<open>The buffers of an attachment.\<close>

lemma alloc_vecs_spec:
  assumes "alloc_vecs ns w = (vs, w')"
  shows "map vbase vs = [nextp w ..< nextp w + length ns]" and "map vlen vs = map int ns"
    and "w' = w\<lparr>heap := heap w', nextp := nextp w + length ns\<rparr>"
    and "\<forall>k < length ns. heap w' (nextp w + k) = Some (replicate (ns ! k) NUL)"
    and "\<forall>b. b < nextp w \<longrightarrow> heap w' b = heap w b"
proof -
  have "map vbase vs = [nextp w ..< nextp w + length ns] \<and> map vlen vs = map int ns \<and>
    w' = w\<lparr>heap := heap w', nextp := nextp w + length ns\<rparr> \<and>
    (\<forall>k < length ns. heap w' (nextp w + k) = Some (replicate (ns ! k) NUL)) \<and>
    (\<forall>b. b < nextp w \<longrightarrow> heap w' b = heap w b)"
    using assms
  proof (induction ns arbitrary: w vs)
    case (Cons n ns)
    let ?w1 = "w\<lparr>heap := (heap w)(nextp w := Some (replicate n NUL)), nextp := nextp w + 1\<rparr>"
    obtain us where a: "alloc_vecs ns ?w1 = (us, w')" and vs: "vs = \<lparr>vbase = nextp w, vlen = int n\<rparr> # us"
      using Cons.prems by (auto simp: new_buf_def Let_def split: prod.splits)
    from Cons.IH [OF a] have ih: "map vbase us = [nextp ?w1 ..< nextp ?w1 + length ns]" "map vlen us = map int ns"
      "w' = ?w1\<lparr>heap := heap w', nextp := nextp ?w1 + length ns\<rparr>"
      "\<forall>k < length ns. heap w' (nextp ?w1 + k) = Some (replicate (ns ! k) NUL)"
      "\<forall>b. b < nextp ?w1 \<longrightarrow> heap w' b = heap ?w1 b" by blast+
    have "w' = w\<lparr>heap := heap w', nextp := nextp w + length (n # ns)\<rparr>" by (subst ih(3)) simp
    moreover have "heap w' (nextp w + k) = Some (replicate ((n # ns) ! k) NUL)" if "k < length (n # ns)" for k
      using ih(4,5) that by (cases k) auto
    moreover have "[nextp w ..< nextp w + length (n # ns)] = nextp w # [Suc (nextp w) ..< Suc (nextp w) + length ns]"
      by (subst upt_conv_Cons) (simp_all del: upt_Suc)
    ultimately show ?case using ih(1,2,5) by (auto simp: vs simp del: upt_Suc)
  qed simp
  then show "map vbase vs = [nextp w ..< nextp w + length ns]" "map vlen vs = map int ns"
    "w' = w\<lparr>heap := heap w', nextp := nextp w + length ns\<rparr>"
    "\<forall>k < length ns. heap w' (nextp w + k) = Some (replicate (ns ! k) NUL)" "\<forall>b. b < nextp w \<longrightarrow> heap w' b = heap w b"
    by blast+
qed

lemma blocks_bounds:
  assumes "0 < B" "0 < n"
  shows "0 < blocks B n" "(blocks B n - 1) * B < n" "n \<le> blocks B n * B" "blocks B n \<le> n"
proof -
  define k where "k = blocks B n"
  have e: "n + B - 1 = k * B + (n + B - 1) mod B" by (simp add: k_def blocks_def)
  have m: "(n + B - 1) mod B < B" using assms(1) by simp
  show p: "0 < blocks B n" using assms by (simp add: blocks_def div_greater_zero_iff)
  have "(k - 1) * B = k * B - B" by (simp add: diff_mult_distrib)
  then show "(blocks B n - 1) * B < n" using e assms unfolding k_def [symmetric] by linarith
  show le: "n \<le> blocks B n * B" using e m assms unfolding k_def [symmetric] by linarith
  have "k \<le> n"
  proof (rule ccontr)
    assume "\<not> k \<le> n"
    then have "n \<le> k - 1" by simp
    then have "n * 1 \<le> (k - 1) * B" using assms(1) by (intro mult_le_mono) auto
    with \<open>(blocks B n - 1) * B < n\<close> show False by (simp add: k_def)
  qed
  then show "blocks B n \<le> n" by (simp add: k_def)
qed

lemma block_sizes_sum: "0 < B \<Longrightarrow> 0 < n \<Longrightarrow> sum_list (block_sizes B n) = n"
  using blocks_bounds(2) [of B n] by (simp add: block_sizes_def sum_list_replicate)

lemma length_block_sizes: "0 < B \<Longrightarrow> 0 < n \<Longrightarrow> length (block_sizes B n) = blocks B n"
  using blocks_bounds(1) [of B n] by (simp add: block_sizes_def)

text \<open>Data cut into pieces of given lengths.\<close>

fun cut :: "nat list \<Rightarrow> 'a list \<Rightarrow> 'a list list" where
  "cut [] xs = []"
| "cut (n # ns) xs = take n xs # cut ns (drop n xs)"

lemma cut_spec: "sum_list ns = length xs \<Longrightarrow> concat (cut ns xs) = xs \<and> map length (cut ns xs) = ns"
  by (induction ns arbitrary: xs) auto

lemma length_cut [simp]: "length (cut ns xs) = length ns"
  by (induction ns arbitrary: xs) auto

text \<open>The message of a frame with an attachment makes the connection wait for its blocks.\<close>

definition att_event :: "conn \<Rightarrow> request \<Rightarrow> vec_t list \<Rightarrow> comm_event" where
  "att_event c r vs = (CommEvent_new (Some ((MsgDesc_new (Some (MReq r)))\<lparr>attachMems := vs\<rparr>)) None (mPeerEp c))
     \<lparr>sock := mSock c, serverGen := True, requestId := ucast (mId r)\<rparr>"

lemma att_message_turn:
  assumes "mCurRecvBlock c = Some (IoVec_full b (length m) RecvCb RecvParam SYS_ALLOC)" "mNextRecvPart c = MESSAGE"
    and "mRecvQ c = []" "\<not> mCleaning c" "mRecvCb c = Some p" "cbCs p" "cbCev p = None" "attLen p = of_nat alen" "fileLen p = 0"
    and "0 < b" "b < nextp w" "heap w b = Some (replicate (length m) NUL)"
    and "data_only (sin w)" "stream (sin w) = m @ ys" "deserializer w m = Some (MReq r)"
    and "0 < alen" "alen < 2 ^ 32" "0 < gMaxBlockSize w"
  obtains c' w' vs where "turns 1 raw (c, w) (c', w')" "data_only (sin w')" "stream (sin w') = ys"
    "attaching (nextCev w) vs (c', w')" "map vlen vs = map int (block_sizes (gMaxBlockSize w) alen)"
    "mSock c' = mSock c" "inbox w' = inbox w" "completed w' = completed w" "sout w' = sout w"
    "cevs w' = (cevs w)(nextCev w := Some (att_event c r vs))" "nextp w \<le> nextp w'"
proof -
  let ?v = "IoVec_full b (length m) RecvCb RecvParam SYS_ALLOC"
  have hb: "heap w (base ?v) = Some (replicate (length m) NUL)" "vsize ?v \<le> length (replicate (length m) NUL)"
    "xferred ?v + length m = vsize ?v"
    using assms(12) by (simp_all add: IoVec_full_def)
  obtain q where q: "data_only q" "stream q = ys"
    and e: "recvvecProgress (io_cb raw) (c\<lparr>mReadyRecv := True\<rparr>, w) =
      and_then (run_cb (io_cb raw) (?v\<lparr>xferred := length m\<rparr>) DONE (c\<lparr>mReadyRecv := True, mCurRecvBlock := None\<rparr>,
         w\<lparr>sin := q, heap := (heap w)(b := Some m)\<rparr>)) (\<lambda>s. Inr (C_SUCCESS, s))"
    using recvvec_done [OF assms(1,4,13,14) hb, of "io_cb raw"] by (auto simp: IoVec_full_def poke_full)
  have ua: "unat (of_nat alen :: u32) = alen" using assms(17) by (simp add: unat_of_nat)
  have az: "(0 :: u32) < of_nat alen" using u32_of_nat_nz [OF assms(16,17)] by (simp add: word_neq_0_conv)
  let ?w0 = "w\<lparr>sin := q, heap := (heap w)(b := Some m)\<rparr>"
  let ?bs = "block_sizes (gMaxBlockSize w) alen"
  obtain vs w1 where al: "alloc_vecs ?bs ?w0 = (vs, w1)" by (cases "alloc_vecs ?bs ?w0")
  note av = alloc_vecs_spec [OF al]
  have w1: "nextp w1 = nextp w + length ?bs" "sin w1 = q" "cevs w1 = cevs w" "nextCev w1 = nextCev w" "inbox w1 = inbox w"
    "completed w1 = completed w" "sout w1 = sout w" "heap w1 b = Some m"
    using arg_cong [OF av(3), of nextp] arg_cong [OF av(3), of sin] arg_cong [OF av(3), of cevs]
      arg_cong [OF av(3), of nextCev] arg_cong [OF av(3), of inbox] arg_cong [OF av(3), of completed]
      arg_cong [OF av(3), of sout] av(5) assms(11) by simp_all
  have len: "length vs = length ?bs" using arg_cong [OF av(1), of length] by simp
  have lb: "length ?bs = blocks (gMaxBlockSize w) alen" by (rule length_block_sizes [OF assms(18,16)])
  have pos: "0 < length ?bs" "length ?bs < 2 ^ 32"
    using blocks_bounds [OF assms(18,16)] assms(17) lb by simp_all
  obtain x xs where vs: "vs = x # xs" using len pos by (cases vs) auto
  let ?c = "c\<lparr>mReadyRecv := True, mCurRecvBlock := None, mNextRecvPart := ATTACHMENT,
     mRecvCb := Some (p\<lparr>remainVecs := of_nat (length vs), cbCev := Some (nextCev w)\<rparr>), mRecvQ := map att_vec vs\<rparr>"
  let ?w = "w1\<lparr>cevs := (cevs w)(nextCev w := Some (att_event c r vs)), nextCev := nextCev w + 1, heap := (heap w1)(b := None)\<rparr>"
  have av': "map (\<lambda>v. setCallback RecvCb RecvParam (IoVec_vec v USER_ALLOC)) vs = map att_vec vs"
    by (simp add: att_vec_def)
  have cev: "w1\<lparr>cevs := f, nextCev := k, heap := h\<rparr> = w1\<lparr>heap := h, cevs := f, nextCev := k\<rparr>" for f k h by simp
  have r: "recvvecProgress (io_cb raw) (c\<lparr>mReadyRecv := True\<rparr>, w) = Inr (C_SUCCESS, ?c, ?w)"
    unfolding e using assms(2-12,15) ua az al av' w1
    by (simp add: run_cb_def io_cb_def IoVec_full_def recvCallback_def recvMessageCb_def recvReqMsg_def
        mem_read_def peek_def delete_buf_def setNextRecv_def postRecv_def allocAttachIoVecs_def pushAttachMessage_def
        upd_cbp_def cbp_of_def checkEventReady_def add_cev_def att_event_def CommEvent_new_def MsgDesc_new_def Let_def)
  have t: "turns 1 raw (c, w) (?c\<lparr>mCurRecvBlock := Some (att_vec x), mRecvQ := map att_vec xs\<rparr>, ?w)"
    by (rule turns_one [OF r]) (simp_all add: vs)
  have mem: "0 \<le> vlen v \<and> vbase v < nextp w1 \<and> vbase v \<noteq> b \<and> (\<exists>buf. heap w1 (vbase v) = Some buf \<and> length buf = nat (vlen v))"
    if v: "v \<in> set vs" for v
  proof -
    obtain k where k: "k < length vs" "v = vs ! k" using v by (auto simp: in_set_conv_nth)
    have "vbase v = map vbase vs ! k" "vlen v = map vlen vs ! k" using k by simp_all
    then have "vbase v = nextp w + k" "vlen v = int (?bs ! k)" using av(1,2) k len by simp_all
    then show ?thesis using av(4) k(1) len w1(1) assms(11) by simp
  qed
  have dist: "distinct (map vbase vs)" using av(1) by simp
  have "attaching (nextCev w) vs (?c\<lparr>mCurRecvBlock := Some (att_vec x), mRecvQ := map att_vec xs\<rparr>, ?w)"
    using assms(4,6,9) pos len dist mem vs by (auto simp: attaching_def att_event_def)
  note att = this
  show thesis
    by (rule that [OF t _ _ att av(2)]) (use q w1 in simp_all)
qed

lemma ucast_of_nat_32: "ucast (of_nat n :: u64) = (of_nat n :: u32)"
  by transfer (simp add: take_bit_take_bit)

lemma attachment_turns:
  assumes "idle_recv (c, w)" "data_only (sin w)" "0 < gMaxBlockSize w"
    and "stream (sin w) = header_bytes (rpc_header (length m) (length att) 0) @ m @ att @ ys"
    and "length m < 2 ^ 64" "0 < length att" "length att < 2 ^ 32" "deserializer w m = Some (MReq r)"
  obtains k c' w' vs b' where "turns k raw (c, w) (c', w')" "data_only (sin w')" "stream (sin w') = ys"
    "inbox w' = inbox w @ [nextCev w]" "cevs w' (nextCev w) = Some (att_event c r vs)"
    "concat (map (\<lambda>v. the (heap w' (vbase v))) vs) = att" "map vlen vs = map int (block_sizes (gMaxBlockSize w) (length att))"
    "completed w' = completed w" "sout w' = sout w"
    "mCurRecvBlock c' = Some (stale_vec b')" "mRecvQ c' = []" "mNextRecvPart c' = HEADER" "\<not> mCleaning c'"
    "\<exists>p. mRecvCb c' = Some p \<and> cbCs p \<and> cbCev p = None" "heap w' b' = Some (replicate HDR_LEN NUL)"
proof -
  obtain b buf where b: "mCurRecvBlock c = Some (header_vec b)" "0 < b" "b < nextp w" and c: "mRecvQ c = []" "\<not> mCleaning c"
    using assms(1) by (auto simp: idle_recv_def awaits_header_def)
  obtain q p where h: "data_only q" "stream q = m @ att @ ys"
    and ht: "turns 1 raw (c, w)
      (c\<lparr>mReadyRecv := True, mNextRecvPart := MESSAGE, mRecvCb := Some p,
         mCurRecvBlock := Some (IoVec_full (nextp w) (length m) RecvCb RecvParam SYS_ALLOC), mRecvQ := []\<rparr>,
       w\<lparr>sin := q, heap := (heap w)(base (the (mCurRecvBlock c)) := None, nextp w := Some (replicate (length m) NUL)),
         nextp := nextp w + 1\<rparr>)"
    and p: "cbCs p" "cbCev p = None" "attLen p = ucast (of_nat (length att) :: u64)" "fileLen p = 0"
    by (rule header_turn [OF assms(1,2,4,5), of raw])
  have pa: "attLen p = of_nat (length att)" using p(3) by (simp add: ucast_of_nat_32)
  define c1 where "c1 = c\<lparr>mReadyRecv := True, mNextRecvPart := MESSAGE, mRecvCb := Some p,
         mCurRecvBlock := Some (IoVec_full (nextp w) (length m) RecvCb RecvParam SYS_ALLOC), mRecvQ := []\<rparr>"
  define w1 where "w1 = w\<lparr>sin := q, heap := (heap w)(base (the (mCurRecvBlock c)) := None,
         nextp w := Some (replicate (length m) NUL)), nextp := nextp w + 1\<rparr>"
  have pre: "mCurRecvBlock c1 = Some (IoVec_full (nextp w) (length m) RecvCb RecvParam SYS_ALLOC)" "mNextRecvPart c1 = MESSAGE"
    "mRecvQ c1 = []" "\<not> mCleaning c1" "mRecvCb c1 = Some p" "0 < nextp w" "nextp w < nextp w1"
    "heap w1 (nextp w) = Some (replicate (length m) NUL)" "data_only (sin w1)" "stream (sin w1) = m @ att @ ys"
    "deserializer w1 m = Some (MReq r)" "0 < gMaxBlockSize w1" "gMaxBlockSize w1 = gMaxBlockSize w"
    using b c h assms(3,8) by (simp_all add: c1_def w1_def)
  have ev: "att_event c1 r vs = att_event c r vs" for vs by (simp add: att_event_def c1_def)
  have w1: "nextCev w1 = nextCev w" "inbox w1 = inbox w" "completed w1 = completed w" "sout w1 = sout w"
    by (simp_all add: w1_def)
  obtain c2 w2 vs where t2: "turns 1 raw (c1, w1) (c2, w2)" "data_only (sin w2)" "stream (sin w2) = att @ ys"
    "attaching (nextCev w) vs (c2, w2)" "map vlen vs = map int (block_sizes (gMaxBlockSize w) (length att))"
    "inbox w2 = inbox w" "completed w2 = completed w" "sout w2 = sout w"
    "cevs w2 (nextCev w) = Some (att_event c r vs)"
    by (rule att_message_turn [OF pre(1-5) p(1,2) pa p(4) pre(6-11) assms(6,7) pre(12), of raw])
      (simp add: w1 ev pre(13))
  let ?ds = "cut (block_sizes (gMaxBlockSize w) (length att)) att"
  have sum: "sum_list (block_sizes (gMaxBlockSize w) (length att)) = length att"
    by (rule block_sizes_sum [OF assms(3,6)])
  note cut = cut_spec [OF sum]
  have st: "stream (sin w2) = concat ?ds @ ys" using t2(3) cut by simp
  have "map (nat \<circ> vlen) vs = map nat (map vlen vs)" by simp
  also have "\<dots> = map length ?ds" unfolding t2(5) using cut by (simp add: comp_def)
  finally have ls: "map length ?ds = map (nat \<circ> vlen) vs" by simp
  obtain c3 w3 where t3: "turns (length vs) raw (c2, w2) (c3, w3)" "data_only (sin w3)" "stream (sin w3) = ys"
    "mCurRecvBlock c3 = Some (stale_vec (nextp w2))" "mRecvQ c3 = []" "mNextRecvPart c3 = HEADER" "\<not> mCleaning c3"
    "\<exists>p. mRecvCb c3 = Some p \<and> cbCs p \<and> cbCev p = None"
    "inbox w3 = inbox w2 @ [nextCev w]" "cevs w3 = cevs w2" "completed w3 = completed w2" "sout w3 = sout w2"
    "heap w3 (nextp w2) = Some (replicate HDR_LEN NUL)" "\<forall>k < length vs. heap w3 (vbase (vs ! k)) = Some (?ds ! k)"
    using attach_turns [OF t2(4,2) st ls, of raw] by blast
  have lv: "length vs = length ?ds" using arg_cong [OF ls, of length] by simp
  have "map (\<lambda>v. the (heap w3 (vbase v))) vs = ?ds"
    by (rule nth_equalityI) (use t3(14) lv in auto)
  then have cc: "concat (map (\<lambda>v. the (heap w3 (vbase v))) vs) = att" using cut by simp
  have tt: "turns (1 + 1 + length vs) raw (c, w) (c3, w3)"
    by (rule turns_trans [OF turns_trans [OF ht [folded c1_def w1_def] t2(1)] t3(1)])
  show thesis
    by (rule that [OF tt t3(2,3) _ _ cc t2(5) _ _ t3(4-8,13)]) (use t2 t3 in simp_all)
qed

text \<open>The stale header vector takes the next header and then fails the check of its allocation.\<close>

lemma stale_header:
  assumes "mCurRecvBlock c = Some (stale_vec b)" "mNextRecvPart c = HEADER" "\<not> mCleaning c"
    "\<exists>p. mRecvCb c = Some p \<and> cbCs p \<and> cbCev p = None" "heap w b = Some (replicate HDR_LEN NUL)"
    "data_only (sin w)" "stream (sin w) = header_bytes (rpc_header mlen alen flen) @ ys"
  shows "recv_loop (Suc n) (io_cb raw) True (c, w) = Some (Inl Assert_failed)"
proof -
  let ?h = "header_bytes (rpc_header mlen alen flen)"
  have hb: "heap w (base (stale_vec b)) = Some (replicate HDR_LEN NUL)" "vsize (stale_vec b) \<le> length (replicate HDR_LEN NUL)"
    "xferred (stale_vec b) + length ?h = vsize (stale_vec b)"
    using assms(5) by (simp_all add: stale_vec_def IoVec_full_def)
  obtain p where p: "mRecvCb c = Some p" "cbCs p" using assms(4) by blast
  obtain q where e: "recvvecProgress (io_cb raw) (c\<lparr>mReadyRecv := True\<rparr>, w) =
      and_then (run_cb (io_cb raw) ((stale_vec b)\<lparr>xferred := HDR_LEN\<rparr>) DONE (c\<lparr>mReadyRecv := True, mCurRecvBlock := None\<rparr>,
         w\<lparr>sin := q, heap := (heap w)(b := Some ?h)\<rparr>)) (\<lambda>s. Inr (C_SUCCESS, s))"
    using recvvec_done [OF assms(1,3,6,7) hb, of "io_cb raw"] by (auto simp: stale_vec_def IoVec_full_def poke_full)
  have "recvvecProgress (io_cb raw) (c\<lparr>mReadyRecv := True\<rparr>, w) = Inl Assert_failed"
    unfolding e using assms(2) p
    by (simp add: run_cb_def io_cb_def stale_vec_def IoVec_full_def recvCallback_def recvHeaderCb_def mem_read_def peek_def
        Let_def cbp_of_def)
  then show ?thesis by simp
qed

text \<open>C6: An attachment is reassembled: a request followed by its attachment (of any length below \<open>2 ^ 32\<close>, in as many
  blocks as \<^verbatim>\<open>gMaxBlockSize\<close> makes of it, however the socket cuts it) gives the next stage one event with the
  request, whose buffers have the sizes of the blocks and hold, together, exactly the bytes sent.\<close>

theorem attachment_reassembled:
  assumes "idle_recv (c, w)" "data_only (sin w)" "0 < gMaxBlockSize w"
    and "stream (sin w) = header_bytes (rpc_header (length m) (length att) 0) @ m @ att"
    and "length m < 2 ^ 64" "0 < length att" "length att < 2 ^ 32" "deserializer w m = Some (MReq r)"
  shows "\<exists>n c' w' vs. recvProgress n (io_cb raw) True (c, w) = Some (Inr (C_SUCCESS, c', w')) \<and>
     inbox w' = inbox w @ [nextCev w] \<and> cevs w' (nextCev w) = Some (att_event c r vs) \<and>
     map vlen vs = map int (block_sizes (gMaxBlockSize w) (length att)) \<and>
     concat (map (\<lambda>v. the (heap w' (vbase v))) vs) = att \<and> completed w' = completed w \<and> sin w' = []"
proof -
  obtain sn where u: "updateActSn (c, w) = (c\<lparr>mActivitySn := sn\<rparr>, w\<lparr>globalActSn := sn\<rparr>)" by (rule updateActSn_cases)
  let ?c = "c\<lparr>mActivitySn := sn\<rparr>" and ?w = "w\<lparr>globalActSn := sn\<rparr>"
  have pre: "idle_recv (?c, ?w)" "data_only (sin ?w)" "0 < gMaxBlockSize ?w"
    "stream (sin ?w) = header_bytes (rpc_header (length m) (length att) 0) @ m @ att @ []" "deserializer ?w m = Some (MReq r)"
    using assms(1-4,8) by (simp_all add: idle_recv_updateActSn)
  obtain k c1 w1 vs b where t: "turns k raw (?c, ?w) (c1, w1)" "data_only (sin w1)" "stream (sin w1) = []"
    "inbox w1 = inbox ?w @ [nextCev ?w]" "cevs w1 (nextCev ?w) = Some (att_event ?c r vs)"
    "concat (map (\<lambda>v. the (heap w1 (vbase v))) vs) = att" "map vlen vs = map int (block_sizes (gMaxBlockSize ?w) (length att))"
    "completed w1 = completed ?w" "mCurRecvBlock c1 = Some (stale_vec b)" "\<not> mCleaning c1"
    "heap w1 b = Some (replicate HDR_LEN NUL)"
    by (rule attachment_turns [OF pre(1-4) assms(5-7) pre(5), of raw])
  have ev: "att_event ?c r vs = att_event c r vs" by (simp add: att_event_def)
  have hb: "heap w1 (base (stale_vec b)) = Some (replicate HDR_LEN NUL)" "vsize (stale_vec b) \<le> length (replicate HDR_LEN NUL)"
    "xferred (stale_vec b) + length (stream (sin w1)) < vsize (stale_vec b)"
    using t(3,11) by (simp_all add: stale_vec_def IoVec_full_def HDR_LEN_def HDR_TYPE_LEN_def)
  have "(heap w1)(b := Some (poke 0 [] (replicate HDR_LEN NUL))) = heap w1" using t(11) by (simp add: fun_upd_idem)
  then have "\<exists>c' w'. recv_loop (Suc 0) (io_cb raw) True (c1, w1) = Some (Inr (C_SUCCESS, c', w')) \<and> heap w' = heap w1 \<and>
      inbox w' = inbox w1 \<and> cevs w' = cevs w1 \<and> completed w' = completed w1 \<and> sin w' = []"
    using recv_loop_wait [OF recvvec_wait [OF t(9,10,2) hb, of "io_cb raw"], of 0] t(3)
    by (auto simp: stale_vec_def IoVec_full_def simp del: recv_loop.simps)
  then obtain c' w' where f: "recv_loop (Suc 0) (io_cb raw) True (c1, w1) = Some (Inr (C_SUCCESS, c', w'))" "heap w' = heap w1"
    "inbox w' = inbox w1" "cevs w' = cevs w1" "completed w' = completed w1" "sin w' = []" by blast
  have "recvProgress (k + Suc 0) (io_cb raw) True (c, w) = Some (Inr (C_SUCCESS, c', w'))"
    using t(1) f(1) unfolding recvProgress_def u turns_def by (simp only:)
  then show ?thesis using t(4-8) f ev by (intro exI [of _ "k + Suc 0"] exI [of _ c'] exI [of _ w'] exI [of _ vs]) simp
qed

theorem attachment_reassembled_witness:
  "\<exists>n c' w' vs. recvProgress n (io_cb sample_rsp) True
       (sample_conn, sample_world (header_bytes (rpc_header (length ''one'') (length ''attach'') 0) @ ''one'' @ ''attach'')) = Some (Inr (C_SUCCESS, c', w')) \<and>
     inbox w' = [0] \<and> cevs w' 0 = Some (att_event sample_conn sample_req vs) \<and> map vlen vs = [4, 2] \<and>
     concat (map (\<lambda>v. the (heap w' (vbase v))) vs) = ''attach'' \<and> completed w' = [] \<and> sin w' = []"
  using attachment_reassembled [OF sample_idle, of "header_bytes (rpc_header (length ''one'') (length ''attach'') 0) @ ''one'' @ ''attach''" "''one''" "''attach''"
      sample_req sample_rsp]
  by (simp add: block_sizes_def blocks_def sample_world_def)

text \<open>C16: After an attachment the connection is broken: the vector that the next header is received into is marked
  as user-allocated, and the arrival of the next complete header fails the assertion of \<^verbatim>\<open>recvHeaderCb\<close>.\<close>

theorem header_after_attachment_aborts:
  assumes "idle_recv (c, w)" "data_only (sin w)" "0 < gMaxBlockSize w"
    and "stream (sin w) = header_bytes (rpc_header (length m) (length att) 0) @ m @ att @ header_bytes (rpc_header mlen alen flen) @ ys"
    and "length m < 2 ^ 64" "0 < length att" "length att < 2 ^ 32" "deserializer w m = Some (MReq r)"
  shows "\<exists>n. recvProgress n (io_cb raw) True (c, w) = Some (Inl Assert_failed)"
proof -
  obtain sn where u: "updateActSn (c, w) = (c\<lparr>mActivitySn := sn\<rparr>, w\<lparr>globalActSn := sn\<rparr>)" by (rule updateActSn_cases)
  let ?c = "c\<lparr>mActivitySn := sn\<rparr>" and ?w = "w\<lparr>globalActSn := sn\<rparr>"
  have pre: "idle_recv (?c, ?w)" "data_only (sin ?w)" "0 < gMaxBlockSize ?w" "deserializer ?w m = Some (MReq r)"
    "stream (sin ?w) = header_bytes (rpc_header (length m) (length att) 0) @ m @ att @ (header_bytes (rpc_header mlen alen flen) @ ys)"
    using assms(1-4,8) by (simp_all add: idle_recv_updateActSn)
  obtain k c1 w1 b where t: "turns k raw (?c, ?w) (c1, w1)" "data_only (sin w1)"
    "stream (sin w1) = header_bytes (rpc_header mlen alen flen) @ ys" "mCurRecvBlock c1 = Some (stale_vec b)"
    "mNextRecvPart c1 = HEADER" "\<not> mCleaning c1"
    "\<exists>p. mRecvCb c1 = Some p \<and> cbCs p \<and> cbCev p = None" "heap w1 b = Some (replicate HDR_LEN NUL)"
    by (rule attachment_turns [OF pre(1-3,5) assms(5-7) pre(4), of raw]) blast
  have "recvProgress (k + Suc 0) (io_cb raw) True (c, w) = Some (Inl Assert_failed)"
    using t(1) stale_header [OF t(4-8,2,3), of 0 raw] unfolding recvProgress_def u turns_def by (simp only:)
  then show ?thesis by blast
qed

theorem header_after_attachment_aborts_witness:
  "\<exists>n. recvProgress n (io_cb sample_rsp) True (sample_conn,
     sample_world (header_bytes (rpc_header (length ''one'') (length ''attach'') 0) @ ''one'' @ ''attach'' @ header_bytes (rpc_header 3 0 0) @ ''two'')) =
     Some (Inl Assert_failed)"
  using header_after_attachment_aborts [OF sample_idle,
      of "header_bytes (rpc_header (length ''one'') (length ''attach'') 0) @ ''one'' @ ''attach'' @ header_bytes (rpc_header 3 0 0) @ ''two''"
        "''one''" "''attach''" 3 0 0 "''two''" sample_req sample_rsp]
  by simp

section \<open>Discarding\<close>

text \<open>What the drain state takes from the stream for \<open>n\<close> bytes to discard.\<close>

definition drained :: "nat \<Rightarrow> nat \<Rightarrow> nat" where
  "drained B n = (if n \<le> B then n else (blocks B n - 1) * B + n mod B)"

definition drain_vec :: "addr \<Rightarrow> nat \<Rightarrow> iovec" where
  "drain_vec b n = IoVec_full b n RecvCb RecvParam SYS_ALLOC"

definition draining :: "nat \<Rightarrow> nat \<Rightarrow> nat \<Rightarrow> cst \<Rightarrow> bool" where
  "draining n k sz = (\<lambda>(c, w). mRecvQ c = [] \<and> mNextRecvPart c = DRAIN \<and> \<not> mCleaning c \<and> 0 < k \<and> k < 2 ^ 32 \<and>
     (\<exists>p. mRecvCb c = Some p \<and> cbCs p \<and> cbCev p = None \<and> remainVecs p = of_nat k \<and> unat (drainLen p) = n) \<and>
     (\<exists>b buf. mCurRecvBlock c = Some (drain_vec b sz) \<and> 0 < b \<and> b < nextp w \<and> heap w b = Some buf \<and>
        length buf = min (gMaxBlockSize w) n \<and> sz \<le> length buf) \<and> 0 < gMaxBlockSize w)"

text \<open>A turn of the drain state that is not the last.\<close>

lemma drain_turn:
  assumes "draining n (Suc k) sz (c, w)" "0 < k" "data_only (sin w)" "stream (sin w) = xs @ ys" "length xs = sz"
    and "gMaxBlockSize w < n" "1 < k \<longrightarrow> sz = gMaxBlockSize w"
  obtains c' w' where "turns 1 raw (c, w) (c', w')" "draining n k (if k = 1 then n mod gMaxBlockSize w else sz) (c', w')"
    "data_only (sin w')" "stream (sin w') = ys" "inbox w' = inbox w" "completed w' = completed w" "cevs w' = cevs w"
    "nextCev w' = nextCev w" "gMaxBlockSize w' = gMaxBlockSize w" "sout w' = sout w" "deserializer w' = deserializer w"
    "mPeerEp c' = mPeerEp c" "mSock c' = mSock c"
proof -
  obtain p b buf where c: "mRecvQ c = []" "mNextRecvPart c = DRAIN" "\<not> mCleaning c" "Suc k < 2 ^ 32" "mRecvCb c = Some p"
    "cbCs p" "cbCev p = None" "remainVecs p = of_nat (Suc k)" "unat (drainLen p) = n"
    and b: "mCurRecvBlock c = Some (drain_vec b sz)" "0 < b" "b < nextp w" "heap w b = Some buf"
      "length buf = min (gMaxBlockSize w) n" "sz \<le> length buf" "0 < gMaxBlockSize w"
    using assms(1) by (auto simp: draining_def)
  have hb: "heap w (base (drain_vec b sz)) = Some buf" "vsize (drain_vec b sz) \<le> length buf"
    "xferred (drain_vec b sz) + length xs = vsize (drain_vec b sz)"
    using b(4,6) assms(5) by (simp_all add: drain_vec_def IoVec_full_def)
  obtain q where q: "data_only q" "stream q = ys"
    and e: "recvvecProgress (io_cb raw) (c\<lparr>mReadyRecv := True\<rparr>, w) =
      and_then (run_cb (io_cb raw) ((drain_vec b sz)\<lparr>xferred := sz\<rparr>) DONE (c\<lparr>mReadyRecv := True, mCurRecvBlock := None\<rparr>,
         w\<lparr>sin := q, heap := (heap w)(b := Some (poke 0 xs buf))\<rparr>)) (\<lambda>s. Inr (C_SUCCESS, s))"
    using recvvec_done [OF b(1) c(3) assms(3,4) hb, of "io_cb raw"] by (auto simp: drain_vec_def IoVec_full_def)
  have rv: "remainVecs p - 1 = of_nat k" using c(8) by simp
  have nz: "(of_nat k :: u32) \<noteq> 0" by (rule u32_of_nat_nz) (use c(4) assms(2) in simp_all)
  have k1: "(of_nat k :: u32) = 1 \<longleftrightarrow> k = 1"
  proof
    assume "(of_nat k :: u32) = 1"
    then have "unat (of_nat k :: u32) = unat (1 :: u32)" by simp
    then show "k = 1" using c(4) by (simp add: unat_of_nat)
  qed simp
  let ?sz = "if k = 1 then n mod gMaxBlockSize w else sz"
  let ?c = "c\<lparr>mReadyRecv := True, mCurRecvBlock := None, mRecvCb := Some (p\<lparr>remainVecs := remainVecs p - 1\<rparr>),
     mRecvQ := [drain_vec b ?sz]\<rparr>"
  let ?w = "w\<lparr>sin := q, heap := (heap w)(b := Some (poke 0 xs buf))\<rparr>"
  have r: "recvvecProgress (io_cb raw) (c\<lparr>mReadyRecv := True\<rparr>, w) = Inr (C_SUCCESS, ?c, ?w)"
    unfolding e using c(1,2,5,6,9) rv nz k1
    by (simp add: run_cb_def io_cb_def drain_vec_def IoVec_full_def recvCallback_def recvDrain_def upd_cbp_def cbp_of_def
        postRecv_def iov_reset_def Let_def)
  have t: "turns 1 raw (c, w) (?c\<lparr>mCurRecvBlock := Some (drain_vec b ?sz), mRecvQ := []\<rparr>, ?w)"
    by (rule turns_one [OF r]) simp_all
  have sz: "?sz \<le> min (gMaxBlockSize w) n"
    using assms(6,7) b(5-7) assms(2) by (auto intro: less_imp_le)
  show thesis
  proof (rule that [OF t])
    show "draining n k ?sz (?c\<lparr>mCurRecvBlock := Some (drain_vec b ?sz), mRecvQ := []\<rparr>, ?w)"
      unfolding draining_def prod.case
      using c b rv assms(2,5) sz by (intro conjI exI [of _ b] exI [of _ "poke 0 xs buf"]) auto
  qed (use q in simp_all)
qed

text \<open>The last turn brings the header back.\<close>

lemma drain_last:
  assumes "draining n 1 sz (c, w)" "data_only (sin w)" "stream (sin w) = xs @ ys" "length xs = sz"
  obtains c' w' where "turns 1 raw (c, w) (c', w')" "idle_recv (c', w')"
    "data_only (sin w')" "stream (sin w') = ys" "inbox w' = inbox w" "completed w' = completed w" "cevs w' = cevs w"
    "nextCev w' = nextCev w" "sout w' = sout w" "deserializer w' = deserializer w" "mPeerEp c' = mPeerEp c" "mSock c' = mSock c"
proof -
  obtain p b buf where c: "mRecvQ c = []" "mNextRecvPart c = DRAIN" "\<not> mCleaning c" "mRecvCb c = Some p"
    "cbCs p" "cbCev p = None" "remainVecs p = 1"
    and b: "mCurRecvBlock c = Some (drain_vec b sz)" "0 < b" "b < nextp w" "heap w b = Some buf" "sz \<le> length buf"
    using assms(1) by (auto simp: draining_def)
  have hb: "heap w (base (drain_vec b sz)) = Some buf" "vsize (drain_vec b sz) \<le> length buf"
    "xferred (drain_vec b sz) + length xs = vsize (drain_vec b sz)"
    using b(4,5) assms(4) by (simp_all add: drain_vec_def IoVec_full_def)
  obtain q where q: "data_only q" "stream q = ys"
    and e: "recvvecProgress (io_cb raw) (c\<lparr>mReadyRecv := True\<rparr>, w) =
      and_then (run_cb (io_cb raw) ((drain_vec b sz)\<lparr>xferred := sz\<rparr>) DONE (c\<lparr>mReadyRecv := True, mCurRecvBlock := None\<rparr>,
         w\<lparr>sin := q, heap := (heap w)(b := Some (poke 0 xs buf))\<rparr>)) (\<lambda>s. Inr (C_SUCCESS, s))"
    using recvvec_done [OF b(1) c(3) assms(2,3) hb, of "io_cb raw"] by (auto simp: drain_vec_def IoVec_full_def)
  let ?c = "c\<lparr>mReadyRecv := True, mCurRecvBlock := None, mNextRecvPart := HEADER,
     mRecvCb := Some (p\<lparr>remainVecs := 0\<rparr>), mRecvQ := [header_vec (nextp w)]\<rparr>"
  let ?w = "w\<lparr>sin := q, heap := (heap w)(b := None, nextp w := Some (replicate HDR_LEN NUL)), nextp := nextp w + 1\<rparr>"
  have pn: "p\<lparr>remainVecs := 0, cbCev := None\<rparr> = p\<lparr>remainVecs := 0\<rparr>" using c(6) by simp
  have r: "recvvecProgress (io_cb raw) (c\<lparr>mReadyRecv := True\<rparr>, w) = Inr (C_SUCCESS, ?c, ?w)"
    unfolding e using c(1,2,4-7) b(2,3) pn
    by (simp add: run_cb_def io_cb_def drain_vec_def header_vec_def IoVec_full_def recvCallback_def recvDrain_def recvErrCb_def
        upd_cbp_def cbp_of_def repostIoVec_def free_base_def delete_buf_def new_buf_def setNextRecv_def
        postRecv_def iov_reset_def Let_def)
  have t: "turns 1 raw (c, w) (?c\<lparr>mCurRecvBlock := Some (header_vec (nextp w)), mRecvQ := []\<rparr>, ?w)"
    by (rule turns_one [OF r]) simp_all
  show thesis
  proof (rule that [OF t])
    show "idle_recv (?c\<lparr>mCurRecvBlock := Some (header_vec (nextp w)), mRecvQ := []\<rparr>, ?w)"
      unfolding idle_recv_def prod.case awaits_header_def
      using c b by (intro conjI exI [of _ "nextp w"] exI [of _ "replicate HDR_LEN NUL"]) auto
  qed (use q in simp_all)
qed

lemma drain_turns:
  assumes "draining n (Suc k) sz (c, w)" "data_only (sin w)" "stream (sin w) = xs @ ys"
    and "length xs = (if k = 0 then sz else sz + (k - 1) * gMaxBlockSize w + n mod gMaxBlockSize w)"
    and "0 < k \<longrightarrow> gMaxBlockSize w < n \<and> sz = gMaxBlockSize w"
  shows "\<exists>j c' w'. turns j raw (c, w) (c', w') \<and> idle_recv (c', w') \<and> data_only (sin w') \<and> stream (sin w') = ys \<and>
    inbox w' = inbox w \<and> completed w' = completed w \<and> cevs w' = cevs w \<and> nextCev w' = nextCev w \<and> sout w' = sout w \<and>
    deserializer w' = deserializer w \<and> mPeerEp c' = mPeerEp c \<and> mSock c' = mSock c"
  using assms
proof (induction k arbitrary: sz c w xs)
  case 0
  then have a: "draining n 1 sz (c, w)" "length xs = sz" by simp_all
  obtain c' w' where "turns 1 raw (c, w) (c', w')" "idle_recv (c', w')"
    "data_only (sin w')" "stream (sin w') = ys" "inbox w' = inbox w" "completed w' = completed w" "cevs w' = cevs w"
    "nextCev w' = nextCev w" "sout w' = sout w" "deserializer w' = deserializer w" "mPeerEp c' = mPeerEp c" "mSock c' = mSock c"
    by (rule drain_last [OF a(1) 0(2,3) a(2), of raw])
  then show ?case by blast
next
  case (Suc k)
  let ?B = "gMaxBlockSize w"
  have sz: "sz = ?B" "?B < n" using Suc.prems(5) by simp_all
  let ?x = "take sz xs" and ?r = "drop sz xs"
  have l: "length ?x = sz" "stream (sin w) = ?x @ (?r @ ys)" using Suc.prems(3,4) by simp_all
  obtain c1 w1 where t: "turns 1 raw (c, w) (c1, w1)" "draining n (Suc k) (if Suc k = 1 then n mod ?B else sz) (c1, w1)"
    "data_only (sin w1)" "stream (sin w1) = ?r @ ys" "inbox w1 = inbox w" "completed w1 = completed w" "cevs w1 = cevs w"
    "nextCev w1 = nextCev w" "gMaxBlockSize w1 = gMaxBlockSize w" "sout w1 = sout w" "deserializer w1 = deserializer w"
    "mPeerEp c1 = mPeerEp c" "mSock c1 = mSock c"
    by (rule drain_turn [OF Suc.prems(1) _ Suc.prems(2) l(2,1) sz(2), of raw]) (use sz in simp_all)
  have len: "length ?r = (if k = 0 then (if Suc k = 1 then n mod ?B else sz) else
      (if Suc k = 1 then n mod ?B else sz) + (k - 1) * gMaxBlockSize w1 + n mod gMaxBlockSize w1)"
    using Suc.prems(4) sz(1) t(9) by (cases k) auto
  have inv: "0 < k \<longrightarrow> gMaxBlockSize w1 < n \<and> (if Suc k = 1 then n mod ?B else sz) = gMaxBlockSize w1"
    using sz t(9) by simp
  from Suc.IH [OF t(2-4) len inv] obtain j c' w' where i: "turns j raw (c1, w1) (c', w')" "idle_recv (c', w')"
    "data_only (sin w')" "stream (sin w') = ys" "inbox w' = inbox w1" "completed w' = completed w1" "cevs w' = cevs w1"
    "nextCev w' = nextCev w1" "sout w' = sout w1" "deserializer w' = deserializer w1" "mPeerEp c' = mPeerEp c1"
    "mSock c' = mSock c1" by blast
  from turns_trans [OF t(1) i(1)] i(2-) t(5-8,10-13) show ?case by (intro exI [of _ "1 + j"] exI [of _ c'] exI [of _ w']) simp
qed

text \<open>A header that is not one of this protocol starts the discarding of what it announces.\<close>

definition announced :: "pack_header \<Rightarrow> u64" where
  "announced h = hMsgLen h + ucast (ucast (hAttLen h) :: u32) + hFileLen h"

definition foreign_header :: "pack_header \<Rightarrow> bool" where
  "foreign_header h \<longleftrightarrow> length (hType h) = HDR_TYPE_LEN \<and> take 4 (hType h) \<noteq> MSG_TYPE_RPC @ [NUL]"

lemma foreign_header_turn:
  assumes "idle_recv (c, w)" "data_only (sin w)" "stream (sin w) = header_bytes h @ ys" "foreign_header h"
    and "0 < unat (announced h)" "blocks (gMaxBlockSize w) (unat (announced h)) < 2 ^ 32" "0 < gMaxBlockSize w"
  obtains c' w' where "turns 1 raw (c, w) (c', w')"
    "draining (unat (announced h)) (blocks (gMaxBlockSize w) (unat (announced h)))
       (min (gMaxBlockSize w) (unat (announced h))) (c', w')"
    "data_only (sin w')" "stream (sin w') = ys" "inbox w' = inbox w" "completed w' = completed w" "cevs w' = cevs w"
    "nextCev w' = nextCev w" "sout w' = sout w" "gMaxBlockSize w' = gMaxBlockSize w" "deserializer w' = deserializer w"
    "mPeerEp c' = mPeerEp c" "mSock c' = mSock c"
proof -
  obtain b buf p0 where b: "mCurRecvBlock c = Some (header_vec b)" "0 < b" "b < nextp w" "heap w b = Some buf"
      "length buf = HDR_LEN" and c: "mRecvQ c = []" "mNextRecvPart c = HEADER" "\<not> mCleaning c"
      "mRecvCb c = Some p0" "cbCs p0" "cbCev p0 = None"
    using assms(1) by (auto simp: idle_recv_def awaits_header_def)
  have ty: "length (hType h) = HDR_TYPE_LEN" "take 4 (hType h) \<noteq> MSG_TYPE_RPC @ [NUL]"
    using assms(4) by (simp_all add: foreign_header_def)
  let ?h = "header_bytes h" and ?n = "unat (announced h)" and ?B = "gMaxBlockSize w"
  have l: "xferred (header_vec b) + length ?h = vsize (header_vec b)" using ty by (simp add: header_vec_def IoVec_full_def)
  have hb: "heap w (base (header_vec b)) = Some buf" "vsize (header_vec b) \<le> length buf"
    using b by (simp_all add: header_vec_def IoVec_full_def)
  obtain q where q: "data_only q" "stream q = ys"
    and e: "recvvecProgress (io_cb raw) (c\<lparr>mReadyRecv := True\<rparr>, w) =
      and_then (run_cb (io_cb raw) ((header_vec b)\<lparr>xferred := HDR_LEN\<rparr>) DONE (c\<lparr>mReadyRecv := True, mCurRecvBlock := None\<rparr>,
         w\<lparr>sin := q, heap := (heap w)(b := Some ?h)\<rparr>)) (\<lambda>s. Inr (C_SUCCESS, s))"
    using recvvec_done [OF b(1) c(3) assms(2,3) hb l, of "io_cb raw"] b(5) ty
    by (auto simp: header_vec_def IoVec_full_def poke_full)
  have hr: "header_read ?h = h" using header_read_bytes [OF ty(1), of "[]"] by simp
  have bs: "(if ?B > ?n then ?n else ?B) = min ?B ?n" by simp
  define p where "p = cb_param_zero\<lparr>cbCs := True, attLen := ucast (hAttLen h), fileLen := hFileLen h,
     drainLen := announced h, remainVecs := of_nat (blocks ?B ?n)\<rparr>"
  let ?c = "c\<lparr>mReadyRecv := True, mNextRecvPart := DRAIN, mRecvCb := Some p, mCurRecvBlock := None,
     mRecvQ := [drain_vec (nextp w) (min ?B ?n)]\<rparr>"
  let ?w = "w\<lparr>sin := q, heap := (heap w)(b := None, nextp w := Some (replicate (min ?B ?n) NUL)), nextp := nextp w + 1\<rparr>"
  have pos: "0 < announced h" using assms(5) by (simp add: unat_gt_0 word_neq_0_conv)
  have r: "recvvecProgress (io_cb raw) (c\<lparr>mReadyRecv := True\<rparr>, w) = Inr (C_SUCCESS, ?c, ?w)"
    unfolding e using b(2,3) c pos ty
    by (simp add: run_cb_def io_cb_def header_vec_def IoVec_full_def recvCallback_def recvHeaderCb_def mem_read_def
        peek_def hr prepare2Drain_def repostReusedIoVec_def free_base_def delete_buf_def new_buf_def setNextRecv_def postRecv_def
        upd_cbp_def cbp_of_def p_def iov_reset_def drain_vec_def bs cb_param_zero_def announced_def Let_def)
  have t: "turns 1 raw (c, w) (?c\<lparr>mCurRecvBlock := Some (drain_vec (nextp w) (min ?B ?n)), mRecvQ := []\<rparr>, ?w)"
    by (rule turns_one [OF r]) simp_all
  have bp: "0 < blocks ?B ?n" by (rule blocks_bounds(1) [OF assms(7,5)])
  show thesis
  proof (rule that [OF t])
    show "draining ?n (blocks ?B ?n) (min ?B ?n) (?c\<lparr>mCurRecvBlock := Some (drain_vec (nextp w) (min ?B ?n)), mRecvQ := []\<rparr>, ?w)"
      unfolding draining_def prod.case
      using c assms(6,7) bp b(2,3)
      by (intro conjI exI [of _ p] exI [of _ "nextp w"] exI [of _ "replicate (min ?B ?n) NUL"])
        (simp_all add: p_def cb_param_zero_def)
  qed (use q in simp_all)
qed

lemma drained_full: "0 < B \<Longrightarrow> n \<le> B \<or> n mod B \<noteq> 0 \<Longrightarrow> drained B n = n"
proof -
  assume B: "0 < B" and h: "n \<le> B \<or> n mod B \<noteq> 0"
  show ?thesis
  proof (cases "n \<le> B")
    case False
    then have m: "n mod B \<noteq> 0" using h by simp
    have "(n + B - 1) div B = (n - 1) div B + 1"
      using B False div_add_self2 [of B "n - 1"] by simp
    moreover have "(n - 1) div B = n div B"
      using div_mod_decomp [of n B] m B False
      by (metis One_nat_def Suc_diff_1 div_Suc gr0I mod_0 mod_eq_0_iff_dvd Suc_pred dvd_imp_mod_0 not_less_zero)
    ultimately show ?thesis using False div_mult_mod_eq [of n B] by (simp add: drained_def blocks_def)
  qed (simp add: drained_def)
qed

lemma drained_short: "0 < B \<Longrightarrow> B < n \<Longrightarrow> n mod B = 0 \<Longrightarrow> drained B n + B = n"
proof -
  assume B: "0 < B" "B < n" "n mod B = 0"
  then obtain k where n: "n = k * B" by (metis dvd_def mod_eq_0_iff_dvd mult.commute)
  have k: "2 \<le> k" using B n by (cases k; cases "k - 1") auto
  have e: "k * B + B - 1 = B - 1 + k * B" using B(1) by simp
  have "(B - 1 + k * B) div B = k + (B - 1) div B" by (rule div_mult_self1) (use B(1) in simp)
  moreover have "(B - 1) div B = 0" using B(1) by simp
  ultimately have "(k * B + B - 1) div B = k" unfolding e by simp
  then have "blocks B n = k" by (simp add: blocks_def n)
  then show ?thesis using B k n by (simp add: drained_def diff_mult_distrib)
qed

text \<open>From the foreign header to the next one.\<close>

lemma discard_turns:
  assumes "idle_recv (c, w)" "data_only (sin w)" "stream (sin w) = header_bytes h @ junk @ ys" "foreign_header h"
    and "0 < unat (announced h)" "length junk = drained (gMaxBlockSize w) (unat (announced h))" "0 < gMaxBlockSize w"
    and "blocks (gMaxBlockSize w) (unat (announced h)) < 2 ^ 32"
  obtains k c' w' where "turns k raw (c, w) (c', w')" "idle_recv (c', w')" "data_only (sin w')" "stream (sin w') = ys"
    "inbox w' = inbox w" "completed w' = completed w" "cevs w' = cevs w" "nextCev w' = nextCev w" "sout w' = sout w"
    "deserializer w' = deserializer w" "mPeerEp c' = mPeerEp c" "mSock c' = mSock c"
proof -
  let ?n = "unat (announced h)" and ?B = "gMaxBlockSize w"
  obtain c1 w1 where t: "turns 1 raw (c, w) (c1, w1)"
    "draining ?n (blocks ?B ?n) (min ?B ?n) (c1, w1)"
    "data_only (sin w1)" "stream (sin w1) = junk @ ys" "inbox w1 = inbox w" "completed w1 = completed w" "cevs w1 = cevs w"
    "nextCev w1 = nextCev w" "sout w1 = sout w" "gMaxBlockSize w1 = ?B" "deserializer w1 = deserializer w"
    "mPeerEp c1 = mPeerEp c" "mSock c1 = mSock c"
    by (rule foreign_header_turn [OF assms(1-5,8,7), of raw])
  obtain k where k: "blocks ?B ?n = Suc k" using blocks_bounds(1) [OF assms(7,5)] by (cases "blocks ?B ?n") auto
  have one: "k = 0 \<longleftrightarrow> ?n \<le> ?B"
  proof
    show "k = 0 \<Longrightarrow> ?n \<le> ?B" using blocks_bounds(3) [OF assms(7,5)] k by simp
    show "?n \<le> ?B \<Longrightarrow> k = 0" using blocks_bounds(2) [OF assms(7,5)] k by (cases k) auto
  qed
  have mult: "k * ?B = ?B + (k - 1) * ?B" if "k \<noteq> 0" using that by (cases k) simp_all
  have len: "length junk = (if k = 0 then min ?B ?n else min ?B ?n + (k - 1) * gMaxBlockSize w1 + ?n mod gMaxBlockSize w1)"
    using assms(6) one mult k t(10) by (auto simp: drained_def)
  have inv: "0 < k \<longrightarrow> gMaxBlockSize w1 < ?n \<and> min ?B ?n = gMaxBlockSize w1" using one t(10) by auto
  from drain_turns [OF t(2) [unfolded k] t(3,4) len inv, of raw] obtain j c' w' where j:
    "turns j raw (c1, w1) (c', w')" "idle_recv (c', w')" "data_only (sin w')" "stream (sin w') = ys"
    "inbox w' = inbox w1" "completed w' = completed w1" "cevs w' = cevs w1" "nextCev w' = nextCev w1" "sout w' = sout w1"
    "deserializer w' = deserializer w1" "mPeerEp c' = mPeerEp c1" "mSock c' = mSock c1" by blast
  show thesis by (rule that [OF turns_trans [OF t(1) j(1)]]) (use j t in simp_all)
qed


definition sample_foreign :: pack_header where
  "sample_foreign = \<lparr>hType = ''http-1.1'', hMsgLen = 6, hAttLen = 0, hFileLen = 0\<rparr>"


text \<open>When the announced length is a multiple of the block size (and more than one block), the last block is not
  discarded: the connection takes its bytes for the next header.\<close>

theorem multiple_of_block_not_drained:
  assumes "idle_recv (c, w)" "data_only (sin w)" "stream (sin w) = header_bytes h @ junk @ ys" "foreign_header h"
    and "length junk = unat (announced h)" "gMaxBlockSize w < length junk" "length junk mod gMaxBlockSize w = 0"
    and "0 < gMaxBlockSize w" "blocks (gMaxBlockSize w) (length junk) < 2 ^ 32"
  shows "\<exists>k c' w'. turns k raw (c, w) (c', w') \<and> idle_recv (c', w') \<and>
    stream (sin w') = drop (length junk - gMaxBlockSize w) junk @ ys"
proof -
  let ?d = "length junk - gMaxBlockSize w"
  have dr: "drained (gMaxBlockSize w) (unat (announced h)) = ?d"
    using drained_short [OF assms(8,6,7)] assms(5) by simp
  have st: "stream (sin w) = header_bytes h @ take ?d junk @ (drop ?d junk @ ys)" using assms(3)
    by (simp flip: append_assoc)
  have len: "length (take ?d junk) = drained (gMaxBlockSize w) (unat (announced h))" using dr by simp
  obtain k c' w' where "turns k raw (c, w) (c', w')" "idle_recv (c', w')" "stream (sin w') = drop ?d junk @ ys"
    by (rule discard_turns [OF assms(1,2) st assms(4) _ len assms(8), of raw]) (use assms in simp_all)
  then show ?thesis by blast
qed

theorem multiple_of_block_not_drained_witness:
  "\<exists>k c' w'. turns k sample_rsp (sample_conn, sample_world (header_bytes (sample_foreign\<lparr>hMsgLen := 8\<rparr>) @ ''12345678'')) (c', w') \<and>
     idle_recv (c', w') \<and> stream (sin w') = ''5678''"
  using multiple_of_block_not_drained [OF sample_idle, of "header_bytes (sample_foreign\<lparr>hMsgLen := 8\<rparr>) @ ''12345678''"
      "sample_foreign\<lparr>hMsgLen := 8\<rparr>" "''12345678''" "[]" sample_rsp]
  by (simp add: sample_foreign_def foreign_header_def announced_def HDR_TYPE_LEN_def MSG_TYPE_RPC_def blocks_def)

end
