(* ===== verification/ConnSend.thy ===== *)
theory ConnSend
  imports ConnRecv
begin

text \<open>
  The send side of a connection: the callback of the vectors to send keeps the contract of
  \<^verbatim>\<open>sender\<close>, so the bytes of the posted vectors, each followed by the file its callback
  sends, leave in the order of posting, whatever pieces the socket takes.
\<close>

section \<open>What a vector puts on the wire\<close>

definition file_tail :: "rpc_world \<Rightarrow> iovec \<Rightarrow> string" where
  "file_tail w v = (case cbParam v of SendParam cbp \<Rightarrow> if fileLen cbp = 0 then [] else file_slice w cbp | _ \<Rightarrow> [])"

definition send_image :: "rpc_world \<Rightarrow> iovec \<Rightarrow> string" where
  "send_image w v = rest_bytes w v @ (if callback v = NoCb then [] else file_tail w v)"

definition send_pending :: "conn \<Rightarrow> iovec list" where
  "send_pending c = (case mCurSendBlock c of None \<Rightarrow> [] | Some v \<Rightarrow> [v]) @ mSendQ c"

definition sendable :: "rpc_world \<Rightarrow> iovec \<Rightarrow> bool" where
  "sendable w v \<longleftrightarrow> vec_ok w v \<and> callback v \<noteq> RecvCb \<and> (case cbParam v of
     SendParam cbp \<Rightarrow> sock_sendfile w cbp \<noteq> Inl Blocked \<and>
       (case cbCev cbp of None \<Rightarrow> False | Some i \<Rightarrow> isServerGen i w \<longrightarrow> cbCs cbp) | _ \<Rightarrow> True)"

definition postable :: "rpc_world \<Rightarrow> iovec list \<Rightarrow> bool" where
  "postable w vs \<longleftrightarrow> distinct (map base vs) \<and> (\<forall>v \<in> set vs. sendable w v)"

section \<open>The callback keeps the contract\<close>

lemma delete_buf_frame:
  "delete_buf p w = Inr w' \<Longrightarrow> w' = w\<lparr>heap := heap w'\<rparr> \<and> (\<forall>b. b \<noteq> p \<longrightarrow> heap w' b = heap w b)"
  by (auto simp: delete_buf_def split: if_splits option.splits)

lemma sendReqCallback_frame:
  "sendReqCallback cbp st (c, w) = Inr (c', w') \<Longrightarrow> sout w' = sout w \<and> heap w' = heap w \<and> files w' = files w \<and>
     squota w' = squota w \<and> isServerGen j w' = isServerGen j w \<and>
     mSendQ c' = mSendQ c \<and> mCurSendBlock c' = mCurSendBlock c \<and> mReadyToSend c' = mReadyToSend c \<and> mCleaning c' = mCleaning c"
  by (auto simp: isServerGen_def sendReqCallback_def removeEventEntry_def completeEvent_def cev_done_def setStatus_def upd_cev_def Let_def
      split: option.splits if_splits)

lemma sendRspCallback_frame:
  "sendRspCallback cbp st (c, w) = Inr (c', w') \<Longrightarrow> sout w' = sout w \<and> heap w' = heap w \<and> files w' = files w \<and> c' = c \<and>
     squota w' = squota w \<and> isServerGen j w' = isServerGen j w"
  by (auto simp: isServerGen_def sendRspCallback_def completeEvent_def cev_done_def setStatus_def upd_cev_def split: option.splits if_splits)

lemma sendCallback_frame:
  assumes "sendCallback v st (c, w) = Inr (c', w')"
  shows "sout w' = sout w @ (if st = DONE then file_tail w v else []) \<and> files w' = files w \<and>
    (\<forall>b. b \<noteq> base v \<longrightarrow> heap w' b = heap w b) \<and> mSendQ c' = mSendQ c \<and> mCurSendBlock c' = mCurSendBlock c \<and>
    squota w' = squota w \<and> isServerGen j w' = isServerGen j w \<and> mReadyToSend c' = mReadyToSend c \<and> mCleaning c' = mCleaning c"
proof -
  obtain w1 where w1: "(if alloc v = SYS_ALLOC then delete_buf (base v) w else Inr w) = Inr w1"
    using assms by (auto simp: sendCallback_def and_then_def split: sum.splits)
  have f1: "sout w1 = sout w" "files w1 = files w" "\<forall>b. b \<noteq> base v \<longrightarrow> heap w1 b = heap w b"
    "squota w1 = squota w" "isServerGen j w1 = isServerGen j w"
  proof -
    have e: "w1 = w\<lparr>heap := heap w1\<rparr>" and h: "\<forall>b. b \<noteq> base v \<longrightarrow> heap w1 b = heap w b"
      using w1 delete_buf_frame by (auto split: if_splits)
    show "sout w1 = sout w" using arg_cong [OF e, of sout] by simp
    show "files w1 = files w" using arg_cong [OF e, of files] by simp
    show "squota w1 = squota w" using arg_cong [OF e, of squota] by simp
    show "isServerGen j w1 = isServerGen j w" using arg_cong [OF e, of cevs] by (simp add: isServerGen_def)
    show "\<forall>b. b \<noteq> base v \<longrightarrow> heap w1 b = heap w b" by (rule h)
  qed
  show ?thesis
  proof (cases "cbParam v")
    case (SendParam cbp)
    obtain bs where sf: "(if st = DONE \<and> fileLen cbp \<noteq> 0 then sock_sendfile w1 cbp else Inr []) = Inr bs"
      using assms SendParam w1 by (auto simp: sendCallback_def and_then_def split: sum.splits)
    define st1 where "st1 = (if st = DONE \<and> fileLen cbp \<noteq> 0 \<and> length bs \<noteq> unat (fileLen cbp) then ERROR else st)"
    let ?w2 = "w1\<lparr>sout := sout w1 @ bs\<rparr>"
    have bs: "bs = (if st = DONE then file_tail w v else [])"
      using sf by (auto simp: sock_sendfile_def file_tail_def SendParam file_slice_def f1 split: if_splits)
    have e: "sendCallback v st (c, w) = (case cbCev cbp of None \<Rightarrow> Inl Dangling
       | Some i \<Rightarrow> if isServerGen i ?w2 then sendRspCallback cbp st1 (c, ?w2) else sendReqCallback cbp st1 (c, ?w2))"
      unfolding sendCallback_def prod.case w1 and_then_simps SendParam cbparam.case Let_def st1_def sf by (rule refl)
    obtain i where i: "cbCev cbp = Some i"
      and r: "(if isServerGen i ?w2 then sendRspCallback cbp st1 (c, ?w2) else sendReqCallback cbp st1 (c, ?w2)) = Inr (c', w')"
      using assms e by (cases "cbCev cbp") simp_all
    have "sout w' = sout ?w2 \<and> heap w' = heap ?w2 \<and> files w' = files ?w2 \<and> mSendQ c' = mSendQ c \<and>
      mCurSendBlock c' = mCurSendBlock c \<and> squota w' = squota ?w2 \<and> isServerGen j w' = isServerGen j ?w2 \<and>
      mReadyToSend c' = mReadyToSend c \<and> mCleaning c' = mCleaning c"
    proof (cases "isServerGen i ?w2")
      case True
      then have "sendRspCallback cbp st1 (c, ?w2) = Inr (c', w')" using r by (simp only: if_True)
      from sendRspCallback_frame [OF this, of j] show ?thesis by simp
    next
      case False
      then have "sendReqCallback cbp st1 (c, ?w2) = Inr (c', w')" using r by (simp only: if_False)
      from sendReqCallback_frame [OF this, of j] show ?thesis by simp
    qed
    moreover have "isServerGen j ?w2 = isServerGen j w1" by (simp add: isServerGen_def)
    ultimately show ?thesis using f1 bs by simp
  qed (use assms w1 f1 in \<open>auto simp: sendCallback_def file_tail_def\<close>)
qed

interpretation send_side: sender sendCallback file_tail
proof (unfold_locales, goal_cases)
  case (4 v st c w c' w')
  have "files w' = files w" using sendCallback_frame [OF 4] by blast
  then show ?case by (auto simp: fun_eq_iff file_tail_def file_slice_def split: cbparam.split)
next
  case (5 w q b)
  then show ?case by (auto simp: fun_eq_iff file_tail_def file_slice_def split: cbparam.split)
next
  case (6 w v k)
  then show ?case by (simp add: file_tail_def)
qed (use sendCallback_frame in blast)+

text \<open>The callback dispatch of a connection runs the send callback on its vectors.\<close>

lemma send_fill_same:
  "send_fill t nw v w = Inr (v', w', nw') \<Longrightarrow> callback v' = callback v \<and> cbParam v' = cbParam v \<and> base v' = base v \<and> alloc v' = alloc v"
proof (induction t nw v w rule: send_fill.induct)
  case (1 t nw v w)
  obtain r q where sq: "sys_send (remain v) (squota w) = (r, q)" by (cases "sys_send (remain v) (squota w)")
  show ?case
  proof (cases "\<exists>k bs. \<not> iov_done v \<and> t \<and> r = Took k \<and> mem_read (base v) (xferred v) k w = Inr bs \<and> k \<noteq> 0")
    case True
    then obtain k bs where k: "\<not> iov_done v" "t" "r = Took k" "mem_read (base v) (xferred v) k w = Inr bs" "k \<noteq> 0" by blast
    then have "send_fill t LMoved (incXferred k v) (w\<lparr>squota := q, sout := sout w @ bs\<rparr>) = Inr (v', w', nw')"
      using 1(2) sq by (subst (asm) send_fill.simps) simp
    with 1(1) [OF k(1) _ sq [symmetric] k(3,4,5)] k(2) show ?thesis by (simp add: incXferred_def)
  next
    case False
    then show ?thesis using 1(2) sq
      by (subst (asm) send_fill.simps) (auto split: if_splits send_result.splits sum.splits)
  qed
qed

lemma run_cb_io: "callback v \<noteq> RecvCb \<Longrightarrow> run_cb (io_cb raw) v st s = run_cb sendCallback v st s"
  by (cases "callback v") (simp_all add: run_cb_def io_cb_def)

lemma sendvecProgress_io:
  assumes "\<forall>v \<in> set (send_pending c). callback v \<noteq> RecvCb"
  shows "sendvecProgress (io_cb raw) (c, w) = sendvecProgress sendCallback (c, w)"
proof (cases "mCurSendBlock c")
  case (Some v)
  then have "callback v \<noteq> RecvCb" using assms by (simp add: send_pending_def)
  then have nr: "callback v' \<noteq> RecvCb" if "send_fill t nw v w = Inr (v', w', nw')" for t nw v' w' nw'
    using send_fill_same [OF that] by simp
  show ?thesis
  proof (cases "send_fill (\<not> mCleaning c) LZero v w")
    case (Inr x)
    then obtain v' w' nw' where x: "x = (v', w', nw')" "callback v' \<noteq> RecvCb"
      using nr by (cases x) auto
    show ?thesis by (simp add: sendvecProgress_def Some Inr x(1) run_cb_io [OF x(2)])
  qed (simp add: sendvecProgress_def Some)
qed (simp add: sendvecProgress_def)

lemma run_cb_frame: "run_cb sendCallback v st (c, w) = Inr (c', w') \<Longrightarrow> mSendQ c' = mSendQ c"
  using sendCallback_frame [of v st c w c' w'] by (auto simp: run_cb_def split: if_splits)

lemma sendvec_sendQ: "sendvecProgress sendCallback (c, w) = Inr (rc, c', w') \<Longrightarrow> mSendQ c' = mSendQ c"
  by (auto simp: sendvecProgress_def and_then_def split: option.splits if_splits sum.splits dest!: run_cb_frame)

lemma sendProgress_io:
  "\<forall>v \<in> set (send_pending c). callback v \<noteq> RecvCb \<Longrightarrow> sendProgress n (io_cb raw) (c, w) = sendProgress n sendCallback (c, w)"
proof (induction n arbitrary: c w)
  case (Suc n)
  note eq = sendvecProgress_io [OF Suc.prems, of raw w]
  show ?case
  proof (cases "mReadyToSend c")
    case True
    show ?thesis
    proof (cases "sendvecProgress sendCallback (c, w)")
      case (Inr x)
      then obtain rc c1 w1 where x: "sendvecProgress sendCallback (c, w) = Inr (rc, c1, w1)" by (cases x) auto
      have q: "mSendQ c1 = mSendQ c" by (rule sendvec_sendQ [OF x])
      have "sendProgress n (io_cb raw) (c1\<lparr>mCurSendBlock := Some u, mSendQ := us\<rparr>, w1) =
          sendProgress n sendCallback (c1\<lparr>mCurSendBlock := Some u, mSendQ := us\<rparr>, w1)" if "mSendQ c1 = u # us" for u us
        by (rule Suc.IH) (use Suc.prems q that in \<open>auto simp: send_pending_def\<close>)
      then show ?thesis using True eq x by (simp split: list.split)
    qed (use True eq in simp)
  qed (simp add: Suc.IH Suc.prems send_pending_def split: list.split)
qed simp

lemma sending_ok_postable: "postable w (send_pending c) \<Longrightarrow> send_side.sending_ok (c, w)"
  by (auto simp: postable_def sendable_def send_side.sending_ok_def send_side.pending_def send_pending_def split: option.splits)

lemma wire_bytes_image: "send_side.wire_bytes (c, w) = sout w @ concat (map (send_image w) (send_pending c))"
  by (simp add: send_side.wire_bytes_def send_side.pending_def send_side.vec_bytes_def send_image_def send_pending_def
      fun_eq_iff cong: map_cong)


section \<open>A socket with room\<close>

lemma send_fill_room:
  assumes "vec_ok w v" "squota w = [OutSpace N]" "remain v < N"
  shows "\<exists>nw'. send_fill True nw v w = Inr (v\<lparr>xferred := vsize v\<rparr>,
    w\<lparr>squota := [OutSpace (N - remain v)], sout := sout w @ rest_bytes w v\<rparr>, nw')"
proof (cases "iov_done v")
  case True
  then have "remain v = 0" "v\<lparr>xferred := vsize v\<rparr> = v" "rest_bytes w v = []"
    by (simp_all add: iov_done_def remain_def rest_bytes_def peek_def split: option.split)
  moreover have "w\<lparr>squota := [OutSpace N], sout := sout w\<rparr> = w" using assms(2) by simp
  ultimately show ?thesis using True by (simp add: send_fill.simps)
next
  case False
  obtain buf where b: "heap w (base v) = Some buf" "vsize v \<le> length buf" "xferred v \<le> vsize v"
    using assms(1) by (auto simp: vec_ok_def)
  have r: "0 < remain v" "xferred v + remain v = vsize v" using False b(3) by (auto simp: remain_def iov_done_def)
  have m: "mem_read (base v) (xferred v) (remain v) w = Inr (rest_bytes w v)"
    using b r by (simp add: mem_read_def rest_bytes_def)
  have d: "iov_done (incXferred (remain v) v)" "incXferred (remain v) v = v\<lparr>xferred := vsize v\<rparr>"
    using r by (simp_all add: iov_done_def incXferred_def)
  have s: "sys_send (remain v) (squota w) = (Took (remain v), [OutSpace (N - remain v)])" using assms(2,3) by simp
  have "send_fill True nw v w = send_fill True LMoved (incXferred (remain v) v)
      (w\<lparr>squota := [OutSpace (N - remain v)], sout := sout w @ rest_bytes w v\<rparr>)"
    using False r(1) by (subst send_fill.simps) (simp add: s m)
  also have "\<dots> = Inr (incXferred (remain v) v, w\<lparr>squota := [OutSpace (N - remain v)], sout := sout w @ rest_bytes w v\<rparr>, LMoved)"
    using d(1) by (subst send_fill.simps) simp
  finally show ?thesis using d(2) by simp
qed

lemma sendCallback_ok:
  assumes "sendable w0 v" "heap w (base v) \<noteq> None" "\<And>j. isServerGen j w = isServerGen j w0" "files w = files w0"
  shows "\<exists>c' w'. sendCallback v st (c, w) = Inr (c', w')"
proof -
  have "\<exists>w1. (if alloc v = SYS_ALLOC then delete_buf (base v) w else Inr w) = Inr w1 \<and>
     (\<forall>j. isServerGen j w1 = isServerGen j w) \<and> files w1 = files w"
    using assms(2) by (auto simp: delete_buf_def isServerGen_def)
  then obtain w1 where w1: "(if alloc v = SYS_ALLOC then delete_buf (base v) w else Inr w) = Inr w1"
    and g: "\<And>j. isServerGen j w1 = isServerGen j w" "files w1 = files w" by blast
  have sg: "isServerGen j (w1\<lparr>sout := b\<rparr>) = isServerGen j w0" for j b using g assms(3) by (simp add: isServerGen_def)
  show ?thesis
  proof (cases "cbParam v")
    case (SendParam cbp)
    then obtain i where i: "cbCev cbp = Some i" "isServerGen i w0 \<longrightarrow> cbCs cbp" and f: "sock_sendfile w0 cbp \<noteq> Inl Blocked"
      using assms(1) by (auto simp: sendable_def split: option.splits)
    have "sock_sendfile w1 cbp = sock_sendfile w0 cbp"
      using g(2) assms(4) by (simp add: sock_sendfile_def file_slice_def)
    then have "\<exists>bs. sock_sendfile w1 cbp = Inr bs" using f by (simp add: sock_sendfile_def split: if_splits)
    then obtain bs where sf: "(if st = DONE \<and> fileLen cbp \<noteq> 0 then sock_sendfile w1 cbp else Inr []) = Inr bs"
      by (cases "st = DONE \<and> fileLen cbp \<noteq> 0") auto
    have rsp: "isServerGen i w2 \<Longrightarrow> cbCs cbp \<Longrightarrow> \<exists>c' w'. sendRspCallback cbp st1 (c, w2) = Inr (c', w')" for st1 w2
      using i(1) by (simp add: sendRspCallback_def)
    have req: "\<exists>c' w'. sendReqCallback cbp st1 (c, w2) = Inr (c', w')" for st1 w2
      using i(1) by (simp add: sendReqCallback_def Let_def)
    show ?thesis unfolding sendCallback_def prod.case w1 and_then_simps SendParam cbparam.case sf Let_def i(1) option.case sg
      using rsp [OF _ ] req i(2) sg by (cases "isServerGen i w0") simp_all
  qed (use w1 in \<open>simp_all add: sendCallback_def\<close>)
qed

lemma sendvec_room:
  assumes "mCurSendBlock c = Some v" "mReadyToSend c" "\<not> mCleaning c" "sendable w v" "squota w = [OutSpace N]" "remain v < N"
  obtains c' w' where "sendvecProgress sendCallback (c, w) = Inr (C_SUCCESS, c', w')" "sout w' = sout w @ send_image w v"
    "squota w' = [OutSpace (N - remain v)]" "files w' = files w" "\<And>b. b \<noteq> base v \<Longrightarrow> heap w' b = heap w b"
    "\<And>j. isServerGen j w' = isServerGen j w" "mSendQ c' = mSendQ c" "mCurSendBlock c' = None" "mReadyToSend c'" "\<not> mCleaning c'"
proof -
  have ok: "vec_ok w v" using assms(4) by (simp add: sendable_def)
  let ?v = "v\<lparr>xferred := vsize v\<rparr>" and ?c = "c\<lparr>mCurSendBlock := None\<rparr>"
  let ?w = "w\<lparr>squota := [OutSpace (N - remain v)], sout := sout w @ rest_bytes w v\<rparr>"
  obtain nw' where f: "send_fill True LZero v w = Inr (?v, ?w, nw')" using send_fill_room [OF ok assms(5,6)] by blast
  have sg: "isServerGen j ?w = isServerGen j w" for j by (simp add: isServerGen_def)
  have tail: "file_tail ?w ?v = file_tail w v" by (simp add: file_tail_def file_slice_def split: cbparam.split)
  have p: "sendvecProgress sendCallback (c, w) = and_then (run_cb sendCallback ?v DONE (?c, ?w)) (\<lambda>s. Inr (C_SUCCESS, s))"
    using assms(1-3) f by (simp add: sendvecProgress_def iov_done_def)
  show thesis
  proof (cases "callback v = NoCb")
    case True
    then show thesis
      by (intro that [of ?c ?w]) (use p sg assms in \<open>simp_all add: run_cb_def send_image_def\<close>)
  next
    case False
    have s: "sendable w ?v" using assms(4) by (auto simp: sendable_def vec_ok_def)
    have h: "heap ?w (base ?v) \<noteq> None" using ok by (auto simp: vec_ok_def)
    have "\<exists>c' w'. sendCallback ?v DONE (?c, ?w) = Inr (c', w')" by (rule sendCallback_ok [OF s h sg]) simp
    then obtain c' w' where r: "sendCallback ?v DONE (?c, ?w) = Inr (c', w')" by blast
    note fr = sendCallback_frame [OF r]
    show thesis
    proof (rule that)
      show "sendvecProgress sendCallback (c, w) = Inr (C_SUCCESS, c', w')" using p r False by (simp add: run_cb_def)
      show "sout w' = sout w @ send_image w v" using fr False tail by (simp add: send_image_def)
      show "isServerGen j w' = isServerGen j w" for j using fr [of j] sg by simp
    qed (use fr assms in auto)
  qed
qed

lemma sendable_frame:
  assumes "heap w' (base v) = heap w (base v)" "\<And>j. isServerGen j w' = isServerGen j w" "files w' = files w"
  shows "sendable w' v = sendable w v" and "send_image w' v = send_image w v"
proof -
  have sl: "file_slice w' p = file_slice w p" "sock_sendfile w' p = sock_sendfile w p" for p
    using assms(3) by (simp_all add: file_slice_def sock_sendfile_def)
  have "vec_ok w' v = vec_ok w v" using assms(1) by (simp add: vec_ok_def)
  then show "sendable w' v = sendable w v" unfolding sendable_def by (simp only: sl assms(2))
  show "send_image w' v = send_image w v"
    using assms(1) by (simp add: send_image_def rest_bytes_def file_tail_def sl split: cbparam.split)
qed

lemma send_all:
  assumes "mCurSendBlock c = Some v" "mReadyToSend c" "\<not> mCleaning c" "postable w (v # mSendQ c)" "squota w = [OutSpace N]"
    and "sum_list (map remain (v # mSendQ c)) < N"
  shows "\<exists>c' w'. sendProgress (Suc (length (mSendQ c))) sendCallback (c, w) = Some (Inr (C_SUCCESS, c', w')) \<and>
    send_pending c' = [] \<and> sout w' = sout w @ concat (map (send_image w) (v # mSendQ c))"
  using assms
proof (induction "mSendQ c" arbitrary: c v w N)
  case Nil
  have s: "sendable w v" "remain v < N" using Nil.prems(4,6) Nil.hyps [symmetric] by (simp_all add: postable_def)
  obtain c' w' where r: "sendvecProgress sendCallback (c, w) = Inr (C_SUCCESS, c', w')" "sout w' = sout w @ send_image w v"
    "mSendQ c' = mSendQ c" "mCurSendBlock c' = None"
    by (rule sendvec_room [OF Nil.prems(1-3) s(1) Nil.prems(5) s(2)])
  then show ?case using Nil.prems(2) Nil.hyps [symmetric] by (simp add: send_pending_def)
next
  case (Cons u us)
  have s: "sendable w v" "remain v < N" "remain v + sum_list (map remain (u # us)) < N"
    using Cons.prems(4,6) Cons.hyps(2) [symmetric] by (simp_all add: postable_def)
  obtain c1 w1 where r: "sendvecProgress sendCallback (c, w) = Inr (C_SUCCESS, c1, w1)" "sout w1 = sout w @ send_image w v"
    "squota w1 = [OutSpace (N - remain v)]" "files w1 = files w" "\<And>b. b \<noteq> base v \<Longrightarrow> heap w1 b = heap w b"
    "\<And>j. isServerGen j w1 = isServerGen j w" "mSendQ c1 = mSendQ c" "mCurSendBlock c1 = None" "mReadyToSend c1" "\<not> mCleaning c1"
    by (rule sendvec_room [OF Cons.prems(1-3) s(1) Cons.prems(5) s(2)]) blast
  have other: "base x \<noteq> base v" if "x \<in> set (u # us)" for x
    using Cons.prems(4) Cons.hyps(2) [symmetric] that by (auto simp: postable_def) (metis imageI)
  have fr: "sendable w1 x = sendable w x" "send_image w1 x = send_image w x" if "x \<in> set (u # us)" for x
    using sendable_frame [OF r(5) [OF other [OF that]] r(6,4)] by blast+
  let ?c = "c1\<lparr>mCurSendBlock := Some u, mSendQ := us\<rparr>"
  have "postable w (u # us)" using Cons.prems(4) Cons.hyps(2) [symmetric] by (auto simp: postable_def)
  then have pre: "postable w1 (u # mSendQ ?c)" using fr(1) by (auto simp: postable_def)
  have "sum_list (map remain (u # mSendQ ?c)) < N - remain v" using s(3) by simp
  with Cons.hyps(1) [of ?c u w1 "N - remain v"] pre r(3,9,10) obtain c' w' where i:
    "sendProgress (Suc (length us)) sendCallback (?c, w1) = Some (Inr (C_SUCCESS, c', w'))" "send_pending c' = []"
    "sout w' = sout w1 @ concat (map (send_image w1) (u # us))" by auto
  have "sendProgress (Suc (length (mSendQ c))) sendCallback (c, w) = sendProgress (Suc (length us)) sendCallback (?c, w1)"
    using Cons.prems(2) Cons.hyps(2) [symmetric] r(1,7,8) by simp
  moreover have "concat (map (send_image w1) (u # us)) = concat (map (send_image w) (u # us))"
    by (rule arg_cong [where f = concat], rule map_cong) (simp_all add: fr(2))
  ultimately show ?case using i r(2) Cons.hyps(2) [symmetric] by (intro exI [of _ c'] exI [of _ w']) simp
qed

lemma drain_pending:
  assumes "mReadyToSend c" "\<not> mCleaning c" "postable w (send_pending c)" "squota w = [OutSpace N]"
    and "sum_list (map remain (send_pending c)) < N"
  shows "\<exists>c' w'. sendProgress (Suc (length (mSendQ c))) (io_cb raw) (c, w) = Some (Inr (C_SUCCESS, c', w')) \<and>
    send_pending c' = [] \<and> sout w' = sout w @ concat (map (send_image w) (send_pending c))"
proof -
  have "\<forall>v \<in> set (send_pending c). callback v \<noteq> RecvCb" using assms(3) by (auto simp: postable_def sendable_def)
  then have io: "sendProgress n (io_cb raw) (c, w) = sendProgress n sendCallback (c, w)" for n by (rule sendProgress_io)
  show ?thesis
  proof (cases "mCurSendBlock c")
    case (Some v)
    then show ?thesis unfolding io using send_all [OF Some assms(1,2)] assms(3-5) by (simp add: send_pending_def)
  next
    case None
    show ?thesis
    proof (cases "mSendQ c")
      case Nil
      then show ?thesis unfolding io using None assms(1) by (simp add: send_pending_def sendvecProgress_def)
    next
      case (Cons v q)
      let ?c = "c\<lparr>mCurSendBlock := Some v, mSendQ := q\<rparr>"
      have "sendProgress (Suc (length (mSendQ c))) sendCallback (c, w) = sendProgress (length (mSendQ c)) sendCallback (?c, w)"
        using None Cons assms(1) by (simp add: sendvecProgress_def)
      then show ?thesis unfolding io using send_all [of ?c v w N] assms None Cons by (simp add: send_pending_def)
    qed
  qed
qed

text \<open>C9: With room on the socket everything that was posted goes out in one call of \<^verbatim>\<open>sendProgress\<close>: one
  turn per vector is enough, and the wire then has the images of the posted vectors, in order.\<close>

theorem send_drains:
  assumes "mReadyToSend c" "\<not> mCleaning c" "postable w (send_pending c)" "squota w = [OutSpace N]"
    and "sum_list (map remain (send_pending c)) < N"
  shows "\<exists>c' w'. sendProgress (Suc (length (mSendQ c))) (io_cb raw) (c, w) = Some (Inr (C_SUCCESS, c', w')) \<and>
    send_pending c' = [] \<and> sout w' = sout w @ concat (map (send_image w) (send_pending c))"
  using assms by (rule drain_pending)

text \<open>A file that is shorter than announced holds the sending thread for ever.\<close>

lemma short_file_never_sent:
  assumes "cbParam v = SendParam cbp" "fileLen cbp \<noteq> 0" "files w (filePath cbp) = Some s"
    and "length s < unat (fileOffset cbp) + unat (fileLen cbp)" "alloc v = USER_ALLOC"
  shows "sendCallback v DONE (c, w) = Inl Blocked"
proof -
  have "0 < unat (fileLen cbp)" using assms(2) by (simp add: unat_gt_0)
  then have "sock_sendfile w cbp = Inl Blocked" using assms(3,4) by (auto simp: sock_sendfile_def file_slice_def)
  then show ?thesis using assms(1,2,5) by (simp add: sendCallback_def)
qed

text \<open>A connection with a message and a file to send.\<close>

definition sample_send :: "conn \<times> rpc_world" where
  "sample_send =
    (let cbp = cb_param_zero\<lparr>cbCev := Some 0, cbCs := True, fileLen := 2, fileOffset := 1, filePath := ''f''\<rparr>;
         w = (sample_world [])\<lparr>heap := [1 \<mapsto> ''head'', 2 \<mapsto> ''body''], nextp := 3, squota := [OutSpace 9],
           files := [''f'' \<mapsto> ''xyz''], cevs := [0 \<mapsto> CommEvent_new None None (mSourceEp sample_req)], nextCev := 1\<rparr>
     in (sample_conn\<lparr>mReadyToSend := True,
           mCurSendBlock := Some (IoVec_full 1 4 NoCb NoParam SYS_ALLOC), mSendQ := [IoVec_full 2 4 SendCb (SendParam cbp) SYS_ALLOC]\<rparr>, w))"

lemma sample_send_facts:
  "mReadyToSend (fst sample_send)" "\<not> mCleaning (fst sample_send)"
  "mCurSendBlock (fst sample_send) = Some (hd (send_pending (fst sample_send)))"
  "postable (snd sample_send) (send_pending (fst sample_send))" "squota (snd sample_send) = [OutSpace 9]"
  "sum_list (map remain (send_pending (fst sample_send))) = 8"
  "concat (map (send_image (snd sample_send)) (send_pending (fst sample_send))) = ''headbodyyz''"
  by (simp_all add: sample_send_def sample_conn_def sample_world_def Conn_new_def updateActSn_def send_pending_def postable_def
      sendable_def vec_ok_def IoVec_full_def isServerGen_def remain_def send_image_def rest_bytes_def peek_def file_tail_def
      file_slice_def sock_sendfile_def cb_param_zero_def Let_def)

theorem send_drains_witness:
  "\<exists>c' w'. sendProgress (Suc (length (mSendQ (fst sample_send)))) (io_cb sample_rsp) (fst sample_send, snd sample_send) =
      Some (Inr (C_SUCCESS, c', w')) \<and> send_pending c' = [] \<and> sout w' = sout (snd sample_send) @ ''headbodyyz''"
  using send_drains [OF sample_send_facts(1,2,4,5), of sample_rsp] unfolding sample_send_facts(6,7) by simp


end
