(* ===== verification/ConnMgr.thy ===== *)
theory ConnMgr
  imports Conn "HOL-Library.List_Lexorder" "HOL-Library.Char_ord"
begin

text \<open>
  The connection manager (src/net/connmgr.cpp): a map from sockets to connections and a map from
  the host and port of a peer to the set of its sockets. The two maps refine one table, from a
  socket to its peer and connection, which is the contract the network layer relies on. The
  references that \<^verbatim>\<open>find\<close> takes and the cleanup that \<^verbatim>\<open>remove\<close> starts are done where the
  connections are (Net).
\<close>

type_synonym conn_id = nat

datatype mgr_status = MGR_SUCCESS | ERR_NOT_FOUND | ERR_AINSERTED

record conn_mgr =
  sockConnMap :: "(int \<times> conn_id) list"      \<comment> \<open>in the order of the keys\<close>
  epSockMap :: "(string \<times> int list) list"    \<comment> \<open>in the order of the keys; each set in order\<close>

definition ConnMgr_new :: conn_mgr where
  "ConnMgr_new = \<lparr>sockConnMap = [], epSockMap = []\<rparr>"

section \<open>The operations\<close>

definition mgr_find :: "int \<Rightarrow> conn_mgr \<Rightarrow> conn_id option" where
  "mgr_find s m = map_of (sockConnMap m) s"

text \<open>The first socket of the set; an empty set has none (\<^verbatim>\<open>*begin()\<close> of it is undefined).\<close>

definition mgr_find_ep :: "endpoint \<Rightarrow> conn_mgr \<Rightarrow> fault + conn_id option" where
  "mgr_find_ep ep m = (case map_of (epSockMap m) (toHostPortStr ep) of
      None \<Rightarrow> Inr None
    | Some [] \<Rightarrow> Inl Dangling
    | Some (s # _) \<Rightarrow> Inr (mgr_find s m))"

definition set_insert :: "int \<Rightarrow> int list \<Rightarrow> int list" where
  "set_insert x xs = (if x \<in> set xs then xs else insort x xs)"

definition mgr_insert :: "endpoint \<Rightarrow> int \<Rightarrow> conn_id \<Rightarrow> conn_mgr \<Rightarrow> mgr_status \<times> conn_mgr" where
  "mgr_insert ep s i m =
     (if map_of (sockConnMap m) s \<noteq> None then (ERR_AINSERTED, m)
      else let k = toHostPortStr ep;
               es = (if map_of (epSockMap m) k = None then insort_key fst (k, []) (epSockMap m) else epSockMap m)
           in (MGR_SUCCESS, m\<lparr>sockConnMap := insort_key fst (s, i) (sockConnMap m),
                  epSockMap := map (\<lambda>(k', ss). (k', if k' = k then set_insert s ss else ss)) es\<rparr>))"

text \<open>\<^verbatim>\<open>remove\<close>: the first set that has the socket loses it, and its entry goes when it is empty.\<close>

fun ep_remove :: "int \<Rightarrow> (string \<times> int list) list \<Rightarrow> (string \<times> int list) list" where
  "ep_remove s [] = []"
| "ep_remove s ((k, ss) # es) =
     (if s \<in> set ss then (if remove1 s ss = [] then es else (k, remove1 s ss) # es)
      else (k, ss) # ep_remove s es)"

definition mgr_remove :: "int \<Rightarrow> conn_mgr \<Rightarrow> mgr_status \<times> conn_id option \<times> conn_mgr" where
  "mgr_remove s m =
     (let m1 = m\<lparr>epSockMap := ep_remove s (epSockMap m)\<rparr>
      in case map_of (sockConnMap m) s of
          None \<Rightarrow> (ERR_NOT_FOUND, None, m1)
        | Some i \<Rightarrow> (MGR_SUCCESS, Some i, m1\<lparr>sockConnMap := filter (\<lambda>p. fst p \<noteq> s) (sockConnMap m1)\<rparr>))"

text \<open>
  The selection loop of \<^verbatim>\<open>removeInactive\<close>: at most \<^verbatim>\<open>NUM_REMOVE_INACTIVE\<close> idle connections,
  by activity number, kept in a map whose last entry gives way to an older connection.
\<close>

definition NUM_REMOVE_INACTIVE :: nat where "NUM_REMOVE_INACTIVE = 64"

fun select_inactive :: "nat \<Rightarrow> (int \<times> conn) list \<Rightarrow> (u64 \<times> int) list \<Rightarrow> (u64 \<times> int) list" where
  "select_inactive n [] sel = sel"
| "select_inactive n ((s, c) # cs) sel =
     select_inactive n cs
       (if \<not> isIdle c then sel
        else if length sel < n then
          (if mActivitySn c \<in> fst ` set sel then sel else insort_key fst (mActivitySn c, s) sel)
        else if mActivitySn c < fst (last sel) then
          (if mActivitySn c \<in> fst ` set (butlast sel) then butlast sel
           else insort_key fst (mActivitySn c, s) (butlast sel))
        else sel)"

section \<open>The table behind the maps\<close>

definition keys_ok :: "('k :: linorder \<times> 'v) list \<Rightarrow> bool" where
  "keys_ok xs \<longleftrightarrow> sorted (map fst xs) \<and> distinct (map fst xs)"

definition mgr_inv :: "conn_mgr \<Rightarrow> bool" where
  "mgr_inv m \<longleftrightarrow> keys_ok (sockConnMap m) \<and> keys_ok (epSockMap m) \<and>
     (\<forall>k ss. map_of (epSockMap m) k = Some ss \<longrightarrow> ss \<noteq> [] \<and> sorted ss \<and> distinct ss) \<and>
     (\<forall>s. map_of (sockConnMap m) s \<noteq> None \<longleftrightarrow> (\<exists>k ss. map_of (epSockMap m) k = Some ss \<and> s \<in> set ss)) \<and>
     (\<forall>k ss k' ss' s. map_of (epSockMap m) k = Some ss \<longrightarrow> map_of (epSockMap m) k' = Some ss' \<longrightarrow>
        s \<in> set ss \<longrightarrow> s \<in> set ss' \<longrightarrow> k = k')"

definition peer_of :: "int \<Rightarrow> conn_mgr \<Rightarrow> string option" where
  "peer_of s m = map_option fst (find (\<lambda>(k, ss). s \<in> set ss) (epSockMap m))"

definition mgr_table :: "conn_mgr \<Rightarrow> int \<Rightarrow> (string \<times> conn_id) option" where
  "mgr_table m s = (case (peer_of s m, mgr_find s m) of (Some k, Some i) \<Rightarrow> Some (k, i) | _ \<Rightarrow> None)"

text \<open>The contract: a table from sockets to peers and connections.\<close>

locale conn_table =
  fixes ok :: "'m \<Rightarrow> bool"
    and table :: "'m \<Rightarrow> int \<Rightarrow> (string \<times> conn_id) option"
    and new :: 'm
    and find_sock :: "int \<Rightarrow> 'm \<Rightarrow> conn_id option"
    and find_peer :: "endpoint \<Rightarrow> 'm \<Rightarrow> fault + conn_id option"
    and ins :: "endpoint \<Rightarrow> int \<Rightarrow> conn_id \<Rightarrow> 'm \<Rightarrow> mgr_status \<times> 'm"
    and del :: "int \<Rightarrow> 'm \<Rightarrow> mgr_status \<times> conn_id option \<times> 'm"
  assumes new_ok: "ok new" and new_table: "table new = Map.empty"
    and find_sock: "ok m \<Longrightarrow> find_sock s m = map_option snd (table m s)"
    and find_peer: "ok m \<Longrightarrow> \<exists>r. find_peer ep m = Inr r \<and>
       (case r of None \<Rightarrow> \<forall>s i. table m s \<noteq> Some (toHostPortStr ep, i)
        | Some i \<Rightarrow> \<exists>s. table m s = Some (toHostPortStr ep, i) \<and>
            (\<forall>s' j. table m s' = Some (toHostPortStr ep, j) \<longrightarrow> s \<le> s'))"
    and ins: "ok m \<Longrightarrow> ins ep s i m = (rc, m') \<Longrightarrow> ok m' \<and>
       (if table m s = None then rc = MGR_SUCCESS \<and> table m' = (table m)(s \<mapsto> (toHostPortStr ep, i))
        else rc = ERR_AINSERTED \<and> table m' = table m)"
    and del: "ok m \<Longrightarrow> del s m = (rc, r, m') \<Longrightarrow> ok m' \<and> table m' = (table m)(s := None) \<and>
       r = map_option snd (table m s) \<and> (rc = MGR_SUCCESS \<longleftrightarrow> table m s \<noteq> None)"
begin

lemma find_after_ins:
  assumes "ok m" "table m s = None" "ins ep s i m = (rc, m')"
  shows "rc = MGR_SUCCESS" and "find_sock s m' = Some i" and "s' \<noteq> s \<Longrightarrow> find_sock s' m' = find_sock s' m"
    and "find_peer ep m' \<noteq> Inr None"
proof -
  have i: "ok m'" "rc = MGR_SUCCESS" "table m' = (table m)(s \<mapsto> (toHostPortStr ep, i))"
    using ins [OF assms(1,3)] assms(2) by auto
  show "rc = MGR_SUCCESS" by (rule i)
  show "find_sock s m' = Some i" "s' \<noteq> s \<Longrightarrow> find_sock s' m' = find_sock s' m"
    by (simp_all add: find_sock [OF i(1)] find_sock [OF assms(1)] i(3))
  have "table m' s = Some (toHostPortStr ep, i)" by (simp add: i(3))
  then show "find_peer ep m' \<noteq> Inr None" using find_peer [OF i(1), of ep] by auto
qed

lemma find_after_del:
  assumes "ok m" "del s m = (rc, r, m')"
  shows "find_sock s m' = None" and "s' \<noteq> s \<Longrightarrow> find_sock s' m' = find_sock s' m"
proof -
  have d: "ok m'" "table m' = (table m)(s := None)" using del [OF assms] by auto
  show "find_sock s m' = None" "s' \<noteq> s \<Longrightarrow> find_sock s' m' = find_sock s' m"
    by (simp_all add: find_sock [OF d(1)] find_sock [OF assms(1)] d(2))
qed

end

section \<open>The maps refine the table\<close>

lemma map_fst_insort: "map fst (insort_key fst (k, v) xs) = insort k (map fst xs)"
  by (induction xs) auto

lemma keys_ok_insort: "keys_ok xs \<Longrightarrow> k \<notin> fst ` set xs \<Longrightarrow> keys_ok (insort_key fst (k, v) xs)"
  by (auto simp: keys_ok_def map_fst_insort sorted_insort distinct_insort)

lemma map_of_value_map: "map_of (map (\<lambda>(k', v). (k', f k' v)) xs) k = map_option (f k) (map_of xs k)"
  by (induction xs) auto

lemma keys_ok_map: "keys_ok (map (\<lambda>(k', v). (k', f k' v)) xs) = keys_ok xs"
  by (simp add: keys_ok_def comp_def case_prod_beta')

lemma keys_ok_filter: "keys_ok xs \<Longrightarrow> keys_ok (filter P xs)"
proof -
  assume a: "keys_ok xs"
  have "sorted (map fst xs) \<Longrightarrow> sorted (map fst (filter P xs))" by (rule sorted_filter)
  with a show ?thesis by (simp add: keys_ok_def distinct_map_filter)
qed

lemma map_of_del: "map_of (filter (\<lambda>p. fst p \<noteq> k) xs) = (map_of xs)(k := None)"
  by (induction xs) (auto simp: fun_eq_iff)

lemma set_insert_simps [simp]: "set (set_insert x xs) = insert x (set xs)" "set_insert x xs \<noteq> []"
  "sorted xs \<Longrightarrow> sorted (set_insert x xs)" "distinct xs \<Longrightarrow> distinct (set_insert x xs)"
  by (auto simp: set_insert_def set_insort_key sorted_insort distinct_insort)

lemma set_insert_Nil [simp]: "set_insert x [] = [x]"
  by (simp add: set_insert_def)

lemma peer_of_Some:
  assumes "mgr_inv m"
  shows "peer_of s m = Some k \<longleftrightarrow> (\<exists>ss. map_of (epSockMap m) k = Some ss \<and> s \<in> set ss)"
proof -
  have d: "distinct (map fst (epSockMap m))" using assms by (simp add: mgr_inv_def keys_ok_def)
  have one: "k1 = k2" if "map_of (epSockMap m) k1 = Some a" "map_of (epSockMap m) k2 = Some b" "s \<in> set a" "s \<in> set b"
    for k1 k2 a b using assms that unfolding mgr_inv_def by blast
  show ?thesis
  proof (cases "find (\<lambda>(k, ss). s \<in> set ss) (epSockMap m)")
    case None
    then have "\<forall>(k, ss) \<in> set (epSockMap m). s \<notin> set ss" by (auto simp: find_None_iff)
    then show ?thesis using None by (auto simp: peer_of_def dest: map_of_SomeD)
  next
    case (Some p)
    obtain k' ss where p: "p = (k', ss)" by (cases p)
    have m: "(k', ss) \<in> set (epSockMap m)" "s \<in> set ss" using Some p by (auto simp: find_Some_iff) (metis nth_mem)
    have "map_of (epSockMap m) k' = Some ss" using m(1) d by simp
    then show ?thesis using Some p m(2) one by (auto simp: peer_of_def)
  qed
qed

lemma mgr_table_Some:
  assumes "mgr_inv m"
  shows "mgr_table m s = Some (k, i) \<longleftrightarrow> map_of (sockConnMap m) s = Some i \<and> (\<exists>ss. map_of (epSockMap m) k = Some ss \<and> s \<in> set ss)"
  unfolding peer_of_Some [OF assms, symmetric] by (auto simp: mgr_table_def mgr_find_def split: option.split)

lemma mgr_table_None:
  assumes "mgr_inv m"
  shows "mgr_table m s = None \<longleftrightarrow> map_of (sockConnMap m) s = None"
proof -
  have "map_of (sockConnMap m) s \<noteq> None \<longleftrightarrow> (\<exists>k ss. map_of (epSockMap m) k = Some ss \<and> s \<in> set ss)"
    using assms unfolding mgr_inv_def by blast
  then show ?thesis using mgr_table_Some [OF assms, of s] by (cases "mgr_table m s") force+
qed

lemma mgr_find_table: "mgr_inv m \<Longrightarrow> mgr_find s m = map_option snd (mgr_table m s)"
  using iffD1 [OF mgr_table_Some, of m s] mgr_table_None [of m s]
  by (cases "mgr_table m s") (auto simp: mgr_find_def)

lemma mgr_find_ep_table:
  assumes "mgr_inv m"
  shows "\<exists>r. mgr_find_ep ep m = Inr r \<and>
       (case r of None \<Rightarrow> \<forall>s i. mgr_table m s \<noteq> Some (toHostPortStr ep, i)
        | Some i \<Rightarrow> \<exists>s. mgr_table m s = Some (toHostPortStr ep, i) \<and>
            (\<forall>s' j. mgr_table m s' = Some (toHostPortStr ep, j) \<longrightarrow> s \<le> s'))"
proof (cases "map_of (epSockMap m) (toHostPortStr ep)")
  case None
  then show ?thesis by (simp add: mgr_find_ep_def mgr_table_Some [OF assms])
next
  case (Some ss)
  then have ss: "ss \<noteq> []" "sorted ss" using assms unfolding mgr_inv_def by blast+
  then obtain s r where r: "ss = s # r" by (cases ss) auto
  have "map_of (sockConnMap m) s \<noteq> None" using assms Some r unfolding mgr_inv_def by (metis list.set_intros(1))
  then obtain i where i: "map_of (sockConnMap m) s = Some i" by blast
  have "mgr_table m s = Some (toHostPortStr ep, i)" using Some r i by (simp add: mgr_table_Some [OF assms])
  moreover have "\<forall>s' j. mgr_table m s' = Some (toHostPortStr ep, j) \<longrightarrow> s \<le> s'"
    using Some r ss(2) by (auto simp: mgr_table_Some [OF assms])
  ultimately show ?thesis using Some r i by (auto simp: mgr_find_ep_def mgr_find_def)
qed

text \<open>Insertion.\<close>

lemma mgr_insert_maps:
  assumes "mgr_inv m" "map_of (sockConnMap m) s = None" "mgr_insert ep s i m = (rc, m')"
  shows "rc = MGR_SUCCESS" and "map_of (sockConnMap m') = (map_of (sockConnMap m))(s \<mapsto> i)"
    and "map_of (epSockMap m') = (map_of (epSockMap m))(toHostPortStr ep \<mapsto>
          set_insert s (case map_of (epSockMap m) (toHostPortStr ep) of None \<Rightarrow> [] | Some ss \<Rightarrow> ss))"
    and "keys_ok (sockConnMap m')" and "keys_ok (epSockMap m')"
proof -
  let ?k = "toHostPortStr ep"
  let ?es = "if map_of (epSockMap m) ?k = None then insort_key fst (?k, []) (epSockMap m) else epSockMap m"
  have k: "keys_ok (sockConnMap m)" "keys_ok (epSockMap m)" using assms(1) by (simp_all add: mgr_inv_def)
  have m': "rc = MGR_SUCCESS" "sockConnMap m' = insort_key fst (s, i) (sockConnMap m)"
    "epSockMap m' = map (\<lambda>(k', ss). (k', if k' = ?k then set_insert s ss else ss)) ?es"
    using assms(2,3) by (auto simp: mgr_insert_def Let_def)
  have sn: "s \<notin> fst ` set (sockConnMap m)" using assms(2) by (simp add: map_of_eq_None_iff)
  have es: "keys_ok ?es" "map_of ?es = (map_of (epSockMap m))(?k \<mapsto>
      case map_of (epSockMap m) ?k of None \<Rightarrow> [] | Some ss \<Rightarrow> ss)"
  proof -
    show "keys_ok ?es" using k(2) by (auto simp: keys_ok_insort map_of_eq_None_iff)
    show "map_of ?es = (map_of (epSockMap m))(?k \<mapsto> case map_of (epSockMap m) ?k of None \<Rightarrow> [] | Some ss \<Rightarrow> ss)"
    proof (cases "map_of (epSockMap m) ?k")
      case None
      then have "?k \<notin> fst ` set (epSockMap m)" by (simp add: map_of_eq_None_iff)
      then show ?thesis using None k(2) by (simp add: map_of_insort keys_ok_def)
    qed (auto simp: fun_eq_iff)
  qed
  show "rc = MGR_SUCCESS" by (rule m')
  show "map_of (sockConnMap m') = (map_of (sockConnMap m))(s \<mapsto> i)"
    using k(1) sn by (simp add: m'(2) map_of_insort keys_ok_def)
  show "keys_ok (sockConnMap m')" using k(1) sn by (simp add: m'(2) keys_ok_insort)
  show "keys_ok (epSockMap m')" unfolding m'(3) keys_ok_map by (rule es(1))
  show "map_of (epSockMap m') = (map_of (epSockMap m))(?k \<mapsto>
      set_insert s (case map_of (epSockMap m) ?k of None \<Rightarrow> [] | Some ss \<Rightarrow> ss))"
    unfolding m'(3) map_of_value_map fun_eq_iff es(2) by (auto simp: option.map_ident)
qed

lemma mgr_insert_inv:
  assumes "mgr_inv m" "map_of (sockConnMap m) s = None" "mgr_insert ep s i m = (rc, m')"
  shows "mgr_inv m'"
proof -
  note maps = mgr_insert_maps [OF assms]
  let ?k = "toHostPortStr ep" and ?e = "map_of (epSockMap m)"
  let ?old = "case ?e ?k of None \<Rightarrow> [] | Some ss \<Rightarrow> ss"
  have good: "ss \<noteq> [] \<and> sorted ss \<and> distinct ss" if "?e k = Some ss" for k ss
    using assms(1) that unfolding mgr_inv_def by blast
  have cov: "map_of (sockConnMap m) x \<noteq> None \<longleftrightarrow> (\<exists>k ss. ?e k = Some ss \<and> x \<in> set ss)" for x
    using assms(1) unfolding mgr_inv_def by blast
  have dis: "k = k'" if "?e k = Some ss" "?e k' = Some ss'" "x \<in> set ss" "x \<in> set ss'" for k k' ss ss' x
    using assms(1) that unfolding mgr_inv_def by blast
  have sn: "s \<notin> set ss" if "?e k = Some ss" for k ss using cov [of s] assms(2) that by auto
  have so: "sorted ?old \<and> distinct ?old" using good by (auto split: option.split)
  show ?thesis unfolding mgr_inv_def
  proof (intro conjI allI impI)
    show "keys_ok (sockConnMap m')" "keys_ok (epSockMap m')" by (rule maps)+
  next
    fix k ss assume "map_of (epSockMap m') k = Some ss"
    then have "k = ?k \<and> ss = set_insert s ?old \<or> k \<noteq> ?k \<and> ?e k = Some ss" unfolding maps(3) by (auto split: if_splits)
    then have "ss \<noteq> [] \<and> sorted ss \<and> distinct ss"
    proof
      assume "k = ?k \<and> ss = set_insert s ?old"
      then show ?thesis using so by (simp only: set_insert_simps simp_thms)
    qed (use good in blast)
    then show "ss \<noteq> []" "sorted ss" "distinct ss" by blast+
  next
    fix x
    show "map_of (sockConnMap m') x \<noteq> None \<longleftrightarrow> (\<exists>k ss. map_of (epSockMap m') k = Some ss \<and> x \<in> set ss)"
    proof
      assume "map_of (sockConnMap m') x \<noteq> None"
      then consider "x = s" | "map_of (sockConnMap m) x \<noteq> None" unfolding maps(2) by (auto split: if_splits)
      then show "\<exists>k ss. map_of (epSockMap m') k = Some ss \<and> x \<in> set ss"
      proof cases
        case 1
        then show ?thesis unfolding maps(3) by (intro exI [of _ ?k]) simp
      next
        case 2
        then obtain k ss where k: "?e k = Some ss" "x \<in> set ss" using cov by blast
        then show ?thesis unfolding maps(3) by (cases "k = ?k") (auto intro!: exI [of _ k])
      qed
    next
      assume "\<exists>k ss. map_of (epSockMap m') k = Some ss \<and> x \<in> set ss"
      then obtain k ss where "map_of (epSockMap m') k = Some ss" "x \<in> set ss" by blast
      then have "x = s \<or> (\<exists>k ss. ?e k = Some ss \<and> x \<in> set ss)"
        unfolding maps(3) by (auto split: if_splits option.splits)
      then show "map_of (sockConnMap m') x \<noteq> None" unfolding maps(2) using cov [of x] by auto
    qed
  next
    fix k ss k' ss' x
    assume a: "map_of (epSockMap m') k = Some ss" "map_of (epSockMap m') k' = Some ss'" "x \<in> set ss" "x \<in> set ss'"
    have old: "k = ?k \<and> x = s \<or> (\<exists>ss. ?e k = Some ss \<and> x \<in> set ss)"
      if "map_of (epSockMap m') k = Some ss" "x \<in> set ss" for k ss
      using that unfolding maps(3) by (auto split: if_splits option.splits)
    show "k = k'" using old [OF a(1,3)] old [OF a(2,4)] dis sn by blast
  qed
qed

lemma mgr_insert_table:
  assumes "mgr_inv m" "map_of (sockConnMap m) s = None" "mgr_insert ep s i m = (rc, m')"
  shows "mgr_table m' = (mgr_table m)(s \<mapsto> (toHostPortStr ep, i))"
proof (rule ext)
  fix x
  note maps = mgr_insert_maps [OF assms]
  have inv: "mgr_inv m'" by (rule mgr_insert_inv [OF assms])
  let ?k = "toHostPortStr ep"
  show "mgr_table m' x = ((mgr_table m)(s \<mapsto> (?k, i))) x"
  proof (cases "x = s")
    case True
    have "mgr_table m' s = Some (?k, i)" by (simp add: mgr_table_Some [OF inv] maps)
    then show ?thesis using True by simp
  next
    case False
    have "mgr_table m' x = Some (k, j) \<longleftrightarrow> mgr_table m x = Some (k, j)" for k j
      unfolding mgr_table_Some [OF inv] mgr_table_Some [OF assms(1)] maps using False
      by (cases "map_of (epSockMap m) ?k") auto
    then have "mgr_table m' x = mgr_table m x" by (cases "mgr_table m' x"; cases "mgr_table m x") (metis prod.exhaust option.distinct(1))+
    then show ?thesis using False by simp
  qed
qed

text \<open>Removal.\<close>

lemma ep_remove_fst: "fst ` set (ep_remove s es) \<subseteq> fst ` set es"
  by (induction s es rule: ep_remove.induct) auto

lemma ep_remove_keys: "keys_ok es \<Longrightarrow> keys_ok (ep_remove s es) \<and> fst ` set (ep_remove s es) \<subseteq> fst ` set es"
proof (induction s es rule: ep_remove.induct)
  case (2 s k ss es)
  have sub: "x \<in> set (map fst (ep_remove s es)) \<Longrightarrow> x \<in> set (map fst es)" for x
    using ep_remove_fst [of s es] by auto
  from 2 sub show ?case by (auto simp: keys_ok_def simp del: set_map)
qed simp

lemma ep_remove_map_of:
  assumes "distinct (map fst es)" "\<And>k ss. (k, ss) \<in> set es \<Longrightarrow> s \<in> set ss \<Longrightarrow> k = key"
  shows "map_of (ep_remove s es) = (case map_of es key of None \<Rightarrow> map_of es
     | Some ss \<Rightarrow> if s \<in> set ss then (map_of es)(key := if remove1 s ss = [] then None else Some (remove1 s ss)) else map_of es)"
  using assms
proof (induction s es rule: ep_remove.induct)
  case (2 s k ss es)
  show ?case
  proof (cases "s \<in> set ss")
    case True
    then have "k = key" using "2.prems"(2) [of k ss] by simp
    moreover have "map_of es k = None" using "2.prems"(1) by (simp add: map_of_eq_None_iff)
    ultimately show ?thesis using True by (auto simp: fun_eq_iff)
  next
    case False
    have ih: "map_of (ep_remove s es) = (case map_of es key of None \<Rightarrow> map_of es
     | Some ss \<Rightarrow> if s \<in> set ss then (map_of es)(key := if remove1 s ss = [] then None else Some (remove1 s ss)) else map_of es)"
      by (rule "2.IH") (use False "2.prems" in auto)
    show ?thesis
    proof (cases "k = key")
      case True
      then have "map_of es key = None" using "2.prems"(1) by (simp add: map_of_eq_None_iff)
      then show ?thesis using False True ih by (simp add: fun_eq_iff)
    next
      case neq: False
      then show ?thesis using False ih by (auto simp: fun_eq_iff split: option.splits)
    qed
  qed
qed (auto split: option.split)

lemma mgr_remove_maps:
  assumes "mgr_inv m" "mgr_remove s m = (rc, r, m')"
  shows "map_of (sockConnMap m') = (map_of (sockConnMap m))(s := None)"
    and "map_of (epSockMap m') k = (case map_of (epSockMap m) k of None \<Rightarrow> None
          | Some ss \<Rightarrow> if remove1 s ss = [] then None else Some (remove1 s ss))"
    and "r = map_of (sockConnMap m) s" and "rc = MGR_SUCCESS \<longleftrightarrow> map_of (sockConnMap m) s \<noteq> None"
    and "keys_ok (sockConnMap m')" and "keys_ok (epSockMap m')"
proof -
  have k: "keys_ok (sockConnMap m)" "keys_ok (epSockMap m)" using assms(1) by (simp_all add: mgr_inv_def)
  have e: "epSockMap m' = ep_remove s (epSockMap m)" using assms(2) by (auto simp: mgr_remove_def Let_def split: option.splits)
  show "map_of (sockConnMap m') = (map_of (sockConnMap m))(s := None)" "r = map_of (sockConnMap m) s"
    "rc = MGR_SUCCESS \<longleftrightarrow> map_of (sockConnMap m) s \<noteq> None"
    using assms(2) by (cases "map_of (sockConnMap m) s"; auto simp: mgr_remove_def Let_def map_of_del fun_eq_iff)+
  show "keys_ok (sockConnMap m')"
    using assms(2) k(1) by (auto simp: mgr_remove_def Let_def keys_ok_filter split: option.splits)
  show "keys_ok (epSockMap m')" unfolding e using ep_remove_keys [OF k(2)] by blast
  have good: "ss \<noteq> []" if "map_of (epSockMap m) k = Some ss" for k ss using assms(1) that unfolding mgr_inv_def by blast
  have dis: "k = k'" if "map_of (epSockMap m) k = Some ss" "map_of (epSockMap m) k' = Some ss'" "s \<in> set ss" "s \<in> set ss'"
    for k k' ss ss' using assms(1) that unfolding mgr_inv_def by blast
  have d: "distinct (map fst (epSockMap m))" using k(2) by (simp add: keys_ok_def)
  obtain key where key: "\<And>k ss. (k, ss) \<in> set (epSockMap m) \<Longrightarrow> s \<in> set ss \<Longrightarrow> k = key"
  proof (cases "\<exists>k ss. (k, ss) \<in> set (epSockMap m) \<and> s \<in> set ss")
    case True
    then obtain k0 ss0 where "map_of (epSockMap m) k0 = Some ss0" "s \<in> set ss0" using d by auto
    then show thesis using that [of k0] dis d by auto
  qed (use that in blast)
  have rm: "map_of (ep_remove s (epSockMap m)) = (case map_of (epSockMap m) key of None \<Rightarrow> map_of (epSockMap m)
     | Some ss \<Rightarrow> if s \<in> set ss then (map_of (epSockMap m))(key := if remove1 s ss = [] then None else Some (remove1 s ss))
         else map_of (epSockMap m))"
    by (rule ep_remove_map_of [OF d]) (rule key)
  show "map_of (epSockMap m') k = (case map_of (epSockMap m) k of None \<Rightarrow> None
          | Some ss \<Rightarrow> if remove1 s ss = [] then None else Some (remove1 s ss))"
  proof (cases "map_of (epSockMap m) k")
    case None
    then have "k \<notin> fst ` set (epSockMap m)" by (simp add: map_of_eq_None_iff)
    then have "k \<notin> fst ` set (ep_remove s (epSockMap m))" using ep_remove_keys [OF k(2)] by blast
    then have "map_of (ep_remove s (epSockMap m)) k = None" by (simp add: map_of_eq_None_iff)
    then show ?thesis unfolding e using None by simp
  next
    case (Some ss)
    show ?thesis
    proof (cases "s \<in> set ss")
      case True
      then have "k = key" using Some key map_of_SomeD by metis
      then show ?thesis unfolding e rm using Some True by simp
    next
      case False
      then have "remove1 s ss = ss" by (rule remove1_idem)
      then show ?thesis unfolding e rm using Some False good [OF Some] by (cases "k = key") (auto split: option.splits)
    qed
  qed
qed

lemma mgr_remove_inv:
  assumes "mgr_inv m" "mgr_remove s m = (rc, r, m')"
  shows "mgr_inv m'"
proof -
  note maps = mgr_remove_maps [OF assms]
  have good: "ss \<noteq> [] \<and> sorted ss \<and> distinct ss" if "map_of (epSockMap m) k = Some ss" for k ss
    using assms(1) that unfolding mgr_inv_def by blast
  have cov: "map_of (sockConnMap m) x \<noteq> None \<longleftrightarrow> (\<exists>k ss. map_of (epSockMap m) k = Some ss \<and> x \<in> set ss)" for x
    using assms(1) unfolding mgr_inv_def by blast
  have dis: "k = k'" if "map_of (epSockMap m) k = Some ss" "map_of (epSockMap m) k' = Some ss'" "x \<in> set ss" "x \<in> set ss'"
    for k k' ss ss' x using assms(1) that unfolding mgr_inv_def by blast
  have new: "map_of (epSockMap m') k = Some ss' \<longleftrightarrow> (\<exists>ss. map_of (epSockMap m) k = Some ss \<and> ss' = remove1 s ss \<and> ss' \<noteq> [])"
    for k ss' unfolding maps(2) by (auto split: option.splits)
  have mem: "x \<in> set (remove1 s ss) \<longleftrightarrow> x \<noteq> s \<and> x \<in> set ss" if "map_of (epSockMap m) k = Some ss" for x k ss
    using good [OF that] by auto
  show ?thesis unfolding mgr_inv_def
  proof (intro conjI allI impI)
    show "keys_ok (sockConnMap m')" "keys_ok (epSockMap m')" by (rule maps)+
  next
    fix k ss assume "map_of (epSockMap m') k = Some ss"
    then show "ss \<noteq> []" "sorted ss" "distinct ss" unfolding new using good by (auto simp: sorted_remove1)
  next
    fix x
    show "map_of (sockConnMap m') x \<noteq> None \<longleftrightarrow> (\<exists>k ss. map_of (epSockMap m') k = Some ss \<and> x \<in> set ss)"
    proof
      assume "map_of (sockConnMap m') x \<noteq> None"
      then have x: "x \<noteq> s" "map_of (sockConnMap m) x \<noteq> None" unfolding maps(1) by (auto split: if_splits)
      then obtain k ss where k: "map_of (epSockMap m) k = Some ss" "x \<in> set ss" using cov by blast
      then have "x \<in> set (remove1 s ss)" using mem x by blast
      then show "\<exists>k ss. map_of (epSockMap m') k = Some ss \<and> x \<in> set ss" unfolding new using k(1) by (metis list.set_cases list.distinct(1))
    next
      assume "\<exists>k ss. map_of (epSockMap m') k = Some ss \<and> x \<in> set ss"
      then obtain k ss where "map_of (epSockMap m) k = Some ss" "x \<in> set (remove1 s ss)" unfolding new by blast
      then have "x \<noteq> s" "map_of (sockConnMap m) x \<noteq> None" using mem cov by blast+
      then show "map_of (sockConnMap m') x \<noteq> None" unfolding maps(1) by simp
    qed
  next
    fix k ss k' ss' x
    assume "map_of (epSockMap m') k = Some ss" "map_of (epSockMap m') k' = Some ss'" "x \<in> set ss" "x \<in> set ss'"
    then show "k = k'" unfolding new using dis mem by blast
  qed
qed

lemma mgr_remove_table:
  assumes "mgr_inv m" "mgr_remove s m = (rc, r, m')"
  shows "mgr_table m' = (mgr_table m)(s := None)"
proof (rule ext)
  fix x
  note maps = mgr_remove_maps [OF assms]
  have inv: "mgr_inv m'" by (rule mgr_remove_inv [OF assms])
  have mem: "x \<in> set (remove1 s ss) \<longleftrightarrow> x \<noteq> s \<and> x \<in> set ss" if "map_of (epSockMap m) k = Some ss" for x k ss
    using assms(1) that unfolding mgr_inv_def by (metis set_remove1_eq DiffD1 DiffD2 DiffI insertE insertI1 singletonD)
  have "mgr_table m' x = Some (k, i) \<longleftrightarrow> x \<noteq> s \<and> mgr_table m x = Some (k, i)" for k i
    unfolding mgr_table_Some [OF inv] mgr_table_Some [OF assms(1)] maps(1,2)
    using mem [of k] by (cases "map_of (epSockMap m) k") (auto simp: list.set_intros, metis list.distinct(1) list.set_cases empty_iff list.set(1))
  then show "mgr_table m' x = ((mgr_table m)(s := None)) x"
    by (cases "mgr_table m' x"; cases "mgr_table m x") auto
qed

interpretation mgr: conn_table mgr_inv mgr_table ConnMgr_new mgr_find mgr_find_ep mgr_insert mgr_remove
proof (unfold_locales, goal_cases)
  case 1
  show ?case by (simp add: mgr_inv_def ConnMgr_new_def keys_ok_def)
next
  case 2
  show ?case by (simp add: fun_eq_iff mgr_table_def ConnMgr_new_def peer_of_def)
next
  case (3 m s)
  then show ?case by (rule mgr_find_table)
next
  case (4 m ep)
  then show ?case by (rule mgr_find_ep_table)
next
  case (5 m ep s i rc m')
  show ?case
  proof (cases "map_of (sockConnMap m) s")
    case None
    then show ?thesis
      using mgr_table_None [OF 5(1)] mgr_insert_maps(1) [OF 5(1) None 5(2)] mgr_insert_inv [OF 5(1) None 5(2)]
        mgr_insert_table [OF 5(1) None 5(2)] by simp
  next
    case (Some j)
    then show ?thesis using 5 mgr_table_None [OF 5(1), of s] by (auto simp: mgr_insert_def)
  qed
next
  case (6 m s rc r m')
  show ?case
    using mgr_remove_maps [OF 6] mgr_remove_inv [OF 6] mgr_remove_table [OF 6] mgr_table_None [OF 6(1), of s]
      mgr_find_table [OF 6(1), of s]
    by (cases "mgr_table m s") (simp_all add: mgr_find_def)
qed

text \<open>C19: The two maps of the connection manager refine one table from sockets to peers and connections: inserting
  adds a row (or is refused when the socket has one), removing takes the row away and answers its
  connection, a socket finds its connection, a peer finds the connection of its lowest socket, and no operation
  touches an empty socket set or leaves the maps out of step.\<close>

theorem conn_manager_refines_table:
  assumes "mgr_inv m"
  shows "mgr_find s m = map_option snd (mgr_table m s) \<and>
    (\<exists>r. mgr_find_ep ep m = Inr r \<and>
       (case r of None \<Rightarrow> \<forall>s i. mgr_table m s \<noteq> Some (toHostPortStr ep, i)
        | Some i \<Rightarrow> \<exists>s. mgr_table m s = Some (toHostPortStr ep, i) \<and>
            (\<forall>s' j. mgr_table m s' = Some (toHostPortStr ep, j) \<longrightarrow> s \<le> s'))) \<and>
    (\<forall>rc m'. mgr_insert ep s i m = (rc, m') \<longrightarrow> mgr_inv m' \<and>
       (if mgr_table m s = None then rc = MGR_SUCCESS \<and> mgr_table m' = (mgr_table m)(s \<mapsto> (toHostPortStr ep, i))
        else rc = ERR_AINSERTED \<and> mgr_table m' = mgr_table m)) \<and>
    (\<forall>rc r m'. mgr_remove s m = (rc, r, m') \<longrightarrow> mgr_inv m' \<and> mgr_table m' = (mgr_table m)(s := None) \<and>
       r = map_option snd (mgr_table m s) \<and> (rc = MGR_SUCCESS \<longleftrightarrow> mgr_table m s \<noteq> None))"
  using mgr.find_sock [OF assms] mgr.find_peer [OF assms] mgr.ins [OF assms] mgr.del [OF assms] by blast

definition sample_ep :: endpoint where
  "sample_ep = \<lparr>mHostName = ''b'', mLocation = [], mService = [], mPort = 80\<rparr>"

definition sample_mgr :: conn_mgr where
  "sample_mgr = snd (mgr_insert sample_ep 7 1 (snd (mgr_insert sample_ep 9 0 ConnMgr_new)))"

lemma sample_mgr_inv: "mgr_inv sample_mgr"
  unfolding sample_mgr_def
  by (metis mgr.ins mgr.new_ok prod.collapse)

theorem conn_manager_refines_table_witness:
  "mgr_find 9 sample_mgr = Some 0 \<and> mgr_find_ep sample_ep sample_mgr = Inr (Some 1) \<and>
   mgr_table (snd (snd (mgr_remove 7 sample_mgr))) = (mgr_table sample_mgr)(7 := None)"
  using conn_manager_refines_table [OF sample_mgr_inv, of 7 sample_ep 0]
  by (cases "mgr_remove 7 sample_mgr")
    (simp add: sample_mgr_def mgr_insert_def ConnMgr_new_def mgr_find_def mgr_find_ep_def set_insert_def Let_def)

section \<open>The inactive connections\<close>

text \<open>The reference: sort the idle connections by activity and take the first ones.\<close>

definition idle_entries :: "(int \<times> conn) list \<Rightarrow> (u64 \<times> int) list" where
  "idle_entries cs = map (\<lambda>(s, c). (mActivitySn c, s)) (filter (\<lambda>(s, c). isIdle c) cs)"

definition least_active :: "nat \<Rightarrow> (int \<times> conn) list \<Rightarrow> (u64 \<times> int) list" where
  "least_active n cs = take n (sort_key fst (idle_entries cs))"

lemma take_insort:
  assumes "sorted (map f xs)" "f x \<notin> f ` set xs" "0 < n"
  shows "take n (insort_key f x xs) =
    (if length (take n xs) < n then insort_key f x (take n xs)
     else if f x < f (last (take n xs)) then insort_key f x (butlast (take n xs)) else take n xs)"
  using assms
proof (induction xs arbitrary: n)
  case (Cons y ys)
  then obtain m where n: "n = Suc m" by (cases n) auto
  show ?case
  proof (cases "f x \<le> f y")
    case True
    then have lt: "f x < f y" using Cons.prems(2) by auto
    have "f x < f z" if "z \<in> set (y # ys)" for z using lt Cons.prems(1) that by auto
    then have "f x < f (last (take n (y # ys)))" using n in_set_takeD [of "last (take n (y # ys))" n "y # ys"]
      by (metis last_in_set list.distinct(1) take_Suc_Cons)
    moreover have "insort_key f x zs = x # zs" if "set zs \<subseteq> set (y # ys)" for zs
      using that \<open>\<And>z. z \<in> set (y # ys) \<Longrightarrow> f x < f z\<close> by (cases zs) (auto intro: less_imp_le)
    moreover have "set (butlast (take n (y # ys))) \<subseteq> set (y # ys)" by (meson in_set_butlastD in_set_takeD subsetI)
    ultimately show ?thesis using n by (auto simp: butlast_take insort_is_Cons set_take_subset take_butlast min_def not_less
        take_Cons' butlast_conv_take simp del: insort_key.simps)
  next
    case False
    then show ?thesis
    proof (cases m)
      case 0
      then show ?thesis using n False by auto
    next
      case (Suc k)
      then have ih: "take m (insort_key f x ys) = (if length (take m ys) < m then insort_key f x (take m ys)
         else if f x < f (last (take m ys)) then insort_key f x (butlast (take m ys)) else take m ys)"
        using Cons.IH [of m] Cons.prems by simp
      show ?thesis
      proof (cases "take m ys = []")
        case True
        then have "ys = []" using Suc by simp
        then show ?thesis using False n Suc by simp
      qed (use ih False n in auto)
    qed
  qed
qed simp

lemma select_inactive_spec:
  assumes "0 < n" "distinct (map fst (ps @ idle_entries cs))"
  shows "select_inactive n cs (take n (sort_key fst ps)) = take n (sort_key fst (rev (idle_entries cs) @ ps))"
  using assms(2)
proof (induction cs arbitrary: ps)
  case Nil
  then show ?case by (simp add: idle_entries_def)
next
  case (Cons x cs)
  obtain s c where x: "x = (s, c)" by (cases x)
  show ?case
  proof (cases "isIdle c")
    case False
    then show ?thesis using Cons by (simp add: x idle_entries_def)
  next
    case True
    let ?e = "(mActivitySn c, s)" and ?l = "sort_key fst ps"
    have d: "distinct (map fst ((?e # ps) @ idle_entries cs))" and fresh: "fst ?e \<notin> fst ` set ps"
      using Cons.prems True by (auto simp: x idle_entries_def)
    have sub: "fst ?e \<notin> fst ` set (take n ?l)" "fst ?e \<notin> fst ` set (butlast (take n ?l))"
      using fresh in_set_takeD [of _ n ?l] in_set_butlastD [of _ "take n ?l"] by (auto simp: image_iff)
    have "select_inactive n (x # cs) (take n ?l) = select_inactive n cs (take n (insort_key fst ?e ?l))"
      using take_insort [of fst ?l ?e n] fresh assms(1) True sub
      by (simp add: x del: length_take)
    also have "insort_key fst ?e ?l = sort_key fst (?e # ps)" by simp
    also have "select_inactive n cs (take n (sort_key fst (?e # ps))) = take n (sort_key fst (rev (idle_entries cs) @ ?e # ps))"
      by (rule Cons.IH [OF d])
    finally show ?thesis using True by (simp add: x idle_entries_def)
  qed
qed


definition idle_conn :: "u64 \<Rightarrow> conn" where
  "idle_conn n = (fst (Conn_new sample_ep \<lparr>heap = Map.empty, nextp = 1, sin = [], sout = [], squota = [], globalActSn = 0\<rparr>))
     \<lparr>mActivitySn := n\<rparr>"


end
