(* ===== verification/ConnFrame.thy ===== *)
theory ConnFrame
  imports ConnSend
begin

text \<open>
  What the callbacks and the progress loops of a connection leave alone: its socket, its
  reference count and the flags of its end, which only the connection's owner changes.
\<close>

definition core :: "conn \<Rightarrow> int \<times> bool \<times> int \<times> bool" where
  "core c = (mSock c, freed c, mRefCount c, mCleaning c)"

named_theorems core "what keeps the core of a connection"

lemma core_upd [simp]:
  "core (upd_cbp f c) = core c" "core (postRecv vs c) = core c" "core (postSend vs c) = core c" "core (setNextRecv nr c) = core c"
  "core (removeEventEntry i c) = core c" "core (messageIn c) = core c" "core (messageOut c) = core c"
  "core (setReadyToSend b c) = core c" "core (setState st c) = core c" "core (pushAttachMessage md c) = core c"
  "core (c\<lparr>mCurRecvBlock := a\<rparr>) = core c" "core (c\<lparr>mRecvQ := q\<rparr>) = core c" "core (c\<lparr>mReadyRecv := b\<rparr>) = core c"
  "core (c\<lparr>mCurSendBlock := a\<rparr>) = core c" "core (c\<lparr>mSendQ := q\<rparr>) = core c" "core (c\<lparr>mReadyToSend := b\<rparr>) = core c"
  "core (c\<lparr>mActivitySn := sn\<rparr>) = core c" "core (c\<lparr>mRecvCb := rc\<rparr>) = core c" "core (c\<lparr>mSendEventMap := em\<rparr>) = core c"
  by (simp_all add: core_def upd_cbp_def postRecv_def postSend_def setNextRecv_def removeEventEntry_def messageIn_def
      messageOut_def setReadyToSend_def setState_def pushAttachMessage_def Let_def)

lemma core_getAndRm: "getAndRmEvent i c = (r, c') \<Longrightarrow> core c' = core c"
  by (auto simp: getAndRmEvent_def split: option.splits)

lemma core_addEventEntry [simp]: "core (addEventEntry i e c) = core c"
  by (simp add: addEventEntry_def split: option.split)

lemma and_thenE: "and_then m f = Inr y \<Longrightarrow> (\<And>x. m = Inr x \<Longrightarrow> f x = Inr y \<Longrightarrow> P) \<Longrightarrow> P"
  by (auto simp: and_then_def split: sum.splits)

lemma repostIoVec_core [core]: "repostIoVec v n (c, w) = Inr (c', w') \<Longrightarrow> core c' = core c"
  by (auto elim!: and_thenE simp: repostIoVec_def new_buf_def Let_def split: prod.splits)

lemma repostReused_core [core]: "repostReusedIoVec n v (c, w) = Inr (c', w') \<Longrightarrow> core c' = core c"
  by (auto elim!: and_thenE simp: repostReusedIoVec_def new_buf_def Let_def split: prod.splits)

lemma recvErrCb_core [core]: "recvErrCb v b (c, w) = Inr (c', w') \<Longrightarrow> core c' = core c"
  by (auto elim!: and_thenE simp: recvErrCb_def Let_def split: option.splits if_splits)

lemma prepare2Drain_core [core]: "prepare2Drain v n (c, w) = Inr (c', w') \<Longrightarrow> core c' = core c"
  by (auto elim!: and_thenE simp: prepare2Drain_def split: if_splits prod.splits dest!: repostReused_core repostIoVec_core recvErrCb_core)

lemma recvDrain_core [core]: "recvDrain v (c, w) = Inr (c', w') \<Longrightarrow> core c' = core c"
  by (auto elim!: and_thenE simp: recvDrain_def Let_def split: if_splits prod.splits dest!: repostIoVec_core recvErrCb_core)

lemma recvHeaderCb_core [core]: "recvHeaderCb v (c, w) = Inr (rc, c', w') \<Longrightarrow> core c' = core c"
  by (auto elim!: and_thenE simp: recvHeaderCb_def Let_def split: if_splits prod.splits dest!: repostIoVec_core prepare2Drain_core)

lemma eventDone_core [core]: "eventDone_cb i (c, w) = Inr (c', w') \<Longrightarrow> core c' = core c"
  by (auto simp: eventDone_cb_def Let_def split: option.splits if_splits rpc_msg.splits)

lemma checkEventReady_core [core]: "checkEventReady b v (c, w) = Inr (c', w') \<Longrightarrow> core c' = core c"
  by (auto elim!: and_thenE simp: checkEventReady_def split: option.splits if_splits prod.splits dest!: repostIoVec_core eventDone_core)

lemma recvPrepareFileIov_core [core]: "recvPrepareFileIov (c, w) = (c', w') \<Longrightarrow> core c' = core c"
  by (auto simp: recvPrepareFileIov_def new_buf_def Let_def split: prod.splits)

lemma recvReqMsg_core [core]: "recvReqMsg r v (c, w) = Inr (c', w') \<Longrightarrow> core c' = core c"
  by (auto simp: recvReqMsg_def Let_def split: if_splits prod.splits dest!: checkEventReady_core recvPrepareFileIov_core)

lemma recvPrepareRspAttach_core [core]: "recvPrepareRspAttach md (c, w) = (md', c', w') \<Longrightarrow> core c' = core c"
  by (auto simp: recvPrepareRspAttach_def Let_def split: prod.splits)

lemma recvRspMsg_core [core]: "recvRspMsg r v (c, w) = Inr (rc, c', w') \<Longrightarrow> core c' = core c"
  by (auto elim!: and_thenE simp: recvRspMsg_def Let_def split: option.splits if_splits prod.splits
      dest!: core_getAndRm checkEventReady_core recvPrepareFileIov_core recvPrepareRspAttach_core)

lemma recvAttach_core [core]: "recvAttach v (c, w) = Inr (c', w') \<Longrightarrow> core c' = core c"
  by (cases "recvPrepareFileIov (c, w)")
    (auto simp: recvAttach_def Let_def split: if_splits dest!: checkEventReady_core recvPrepareFileIov_core)

lemma recvAttachmentCb_core [core]: "recvAttachmentCb v (c, w) = Inr (rc, c', w') \<Longrightarrow> core c' = core c"
  by (auto elim!: and_thenE simp: recvAttachmentCb_def Let_def split: if_splits dest!: recvAttach_core)

lemma recvFile_core [core]: "recvFile v (c, w) = Inr (rc, c', w') \<Longrightarrow> core c' = core c"
  by (auto elim!: and_thenE simp: recvFile_def Let_def split: if_splits option.splits dest!: checkEventReady_core)

lemma sendBadMsgErr_core [core]: "sendBadMsgErr raw b e m (c, w) = Inr (c', w') \<Longrightarrow> core c' = core c"
  by (auto elim!: and_thenE simp: sendBadMsgErr_def add_cev_def Let_def split: prod.splits)

lemma recvMessageCb_core [core]: "recvMessageCb raw v (c, w) = Inr (rc, c', w') \<Longrightarrow> core c' = core c"
  by (auto elim!: and_thenE simp: recvMessageCb_def Let_def split: option.splits rpc_msg.splits if_splits
      dest!: recvReqMsg_core recvRspMsg_core prepare2Drain_core sendBadMsgErr_core)

lemma recvCallback_core [core]: "recvCallback raw v st (c, w) = Inr (rc, c', w') \<Longrightarrow> core c' = core c"
  by (auto elim!: and_thenE simp: recvCallback_def split: if_splits nextrecv.splits
      dest!: recvErrCb_core recvHeaderCb_core recvMessageCb_core recvAttachmentCb_core recvFile_core recvDrain_core)

lemma sendCallback_core [core]: "sendCallback v st (c, w) = Inr (c', w') \<Longrightarrow> core c' = core c"
  by (auto elim!: and_thenE simp: sendCallback_def sendReqCallback_def sendRspCallback_def Let_def
      split: cbparam.splits option.splits if_splits)

lemma run_cb_core [core]: "run_cb (io_cb raw) v st (c, w) = Inr (c', w') \<Longrightarrow> core c' = core c"
  by (auto elim!: and_thenE simp: run_cb_def io_cb_def split: callback_t.splits if_splits dest!: recvCallback_core sendCallback_core)

section \<open>The loops\<close>

lemma recvvec_core [core]: "recvvecProgress (io_cb raw) (c, w) = Inr (rc, c', w') \<Longrightarrow> core c' = core c"
  by (auto elim!: and_thenE simp: recvvecProgress_def split: option.splits if_splits dest!: run_cb_core)

lemma sendvec_core [core]: "sendvecProgress (io_cb raw) (c, w) = Inr (rc, c', w') \<Longrightarrow> core c' = core c"
  by (auto elim!: and_thenE simp: sendvecProgress_def split: option.splits if_splits dest!: run_cb_core)

lemma recv_loop_core: "recv_loop n (io_cb raw) ready (c, w) = Some (Inr (rc, c', w')) \<Longrightarrow> core c' = core c"
proof (induction n arbitrary: c w)
  case (Suc n)
  define m where "m = (if mReadyRecv c \<or> ready then recvvecProgress (io_cb raw) (c\<lparr>mReadyRecv := True\<rparr>, w) else Inr (CONN_ERR_UNAVAIL, c, w))"
  obtain r1 c1 w1 where m: "m = Inr (r1, c1, w1)" using Suc.prems by (cases m) (auto simp: m_def)
  have c1: "core c1 = core c" using m by (auto simp: m_def split: if_splits dest!: recvvec_core)
  have eq: "recv_loop (Suc n) (io_cb raw) ready (c, w) = (let final = (if mReadyRecv c1 \<and> mCurRecvBlock c1 \<noteq> None then CONN_READY else C_SUCCESS)
          in if r1 = CONN_ERR_BROKEN then Some (Inr (CONN_ERR_BROKEN, c1, w1))
             else if r1 = CONN_ERR_UNAVAIL then Some (Inr (final, c1, w1))
             else (case mRecvQ c1 of
                 [] \<Rightarrow> Some (Inr (final, c1, w1))
               | v # q \<Rightarrow> if mCurRecvBlock c1 \<noteq> None then Some (Inl Assert_failed)
                   else recv_loop n (io_cb raw) ready (c1\<lparr>mCurRecvBlock := Some v, mRecvQ := q\<rparr>, w1)))"
    using m unfolding m_def by simp
  show ?case
    using Suc.prems c1 unfolding eq
    by (auto simp del: recv_loop.simps simp: Let_def split: if_splits list.splits dest: Suc.IH)
qed simp

lemma recvProgress_core: "recvProgress n (io_cb raw) ready (c, w) = Some (Inr (rc, c', w')) \<Longrightarrow> core c' = core c"
  by (rule updateActSn_cases [of c w]) (auto simp: recvProgress_def dest!: recv_loop_core)

lemma sendProgress_core: "sendProgress n (io_cb raw) (c, w) = Some (Inr (rc, c', w')) \<Longrightarrow> core c' = core c"
proof (induction n arbitrary: c w)
  case (Suc n)
  define m where "m = (if mReadyToSend c then sendvecProgress (io_cb raw) (c, w) else Inr (CONN_ERR_UNAVAIL, c, w))"
  obtain r1 c1 w1 where m: "m = Inr (r1, c1, w1)" using Suc.prems by (cases m) (auto simp: m_def)
  have c1: "core c1 = core c" using m by (auto simp: m_def split: if_splits dest!: sendvec_core)
  have eq: "sendProgress (Suc n) (io_cb raw) (c, w) = (if r1 = CONN_ERR_BROKEN then Some (Inr (CONN_ERR_BROKEN, c1, w1))
          else if r1 = CONN_ERR_UNAVAIL then Some (Inr (C_SUCCESS, c1, w1))
          else (case mSendQ c1 of
              [] \<Rightarrow> Some (Inr (C_SUCCESS, c1, w1))
            | v # q \<Rightarrow> if mCurSendBlock c1 \<noteq> None then Some (Inl Assert_failed)
                else sendProgress n (io_cb raw) (c1\<lparr>mCurSendBlock := Some v, mSendQ := q\<rparr>, w1)))"
    using m unfolding m_def by simp
  show ?case
    using Suc.prems c1 unfolding eq
    by (auto simp del: sendProgress.simps split: if_splits list.splits dest: Suc.IH)
qed simp

section \<open>The end\<close>

lemma cleanupVec_core: "cleanupVec (io_cb raw) how v (c, w) = Inr (c', w') \<Longrightarrow> core c' = core c"
  by (auto simp: cleanupVec_def split: option.splits dest!: run_cb_core)

lemma cleanupQ_core: "cleanupQ (io_cb raw) how vs (c, w) = Inr (c', w') \<Longrightarrow> core c' = core c"
  by (induction vs arbitrary: c w) (auto elim!: and_thenE dest!: cleanupVec_core)

lemma onDisconnect_core: "onDisconnect (c, w) = Inr (rc, c', w') \<Longrightarrow> core c' = core c \<and> rc = C_SUCCESS"
  by (auto simp: onDisconnect_def Let_def)

lemma conn_cleanup_effect:
  assumes "conn_cleanup (io_cb raw) onDisconnect how (c, w) = Inr (rc, c', w')"
  shows "\<not> freed c \<and> mCleaning c' \<and> mRefCount c' = mRefCount c \<and>
    (if 0 < mRefCount c then \<not> freed c' \<and> mSock c' = mSock c \<and> rc = CONN_ERR_BUSY
     else freed c' \<and> mSock c' = SOCK_DISCONNECTED \<and> mRefCount c = 0 \<and> rc = C_SUCCESS)"
proof -
  have nf: "\<not> freed c" using assms by (auto simp: conn_cleanup_def)
  show ?thesis
  proof (cases "0 < mRefCount c")
    case True
    then show ?thesis using assms nf by (auto simp: conn_cleanup_def)
  next
    case False
    let ?c1 = "c\<lparr>mCleaning := True\<rparr>"
    have "and_then (cleanupQ (io_cb raw) how (mRecvQ ?c1) (?c1, w)) (\<lambda>(c2, w2).
         and_then (cleanupVec (io_cb raw) how (mCurRecvBlock c2) (c2\<lparr>mRecvQ := []\<rparr>, w2)) (\<lambda>(c3, w3).
         let c4 = c3\<lparr>mCurRecvBlock := None\<rparr> in
         and_then (cleanupQ (io_cb raw) how (mSendQ c4) (c4, w3)) (\<lambda>(c5, w5).
         and_then (cleanupVec (io_cb raw) how (mCurSendBlock c5) (c5\<lparr>mSendQ := []\<rparr>, w5)) (\<lambda>(c6, w6).
         and_then (onDisconnect (c6\<lparr>mCurSendBlock := None\<rparr>, w6)) (\<lambda>(rc, c7, w7).
         if mCurSendBlock c7 \<noteq> None \<or> mCurRecvBlock c7 \<noteq> None \<or> mRefCount c7 \<noteq> 0 then Inl Assert_failed
         else Inr (rc, c7\<lparr>mSock := SOCK_DISCONNECTED, freed := True\<rparr>, w7)))))) = Inr (rc, c', w')"
      using assms nf False by (simp add: conn_cleanup_def Let_def)
    then obtain c7 w7 where c7: "core c7 = core ?c1" "mRefCount c7 = 0" "c' = c7\<lparr>mSock := SOCK_DISCONNECTED, freed := True\<rparr>"
        "rc = C_SUCCESS"
      by (auto elim!: and_thenE simp: Let_def split: if_splits
          dest!: cleanupQ_core cleanupVec_core onDisconnect_core)
    then show ?thesis using nf False by (simp add: core_def)
  qed
qed

lemma conn_release_effect:
  assumes "conn_release (io_cb raw) onDisconnect (c, w) = Inr (c', w')"
  shows "\<not> freed c \<and> mRefCount c' = mRefCount c - 1 \<and> mCleaning c' = mCleaning c \<and>
    (if mRefCount c = 1 \<and> mCleaning c then freed c' \<and> mSock c' = SOCK_DISCONNECTED else \<not> freed c' \<and> mSock c' = mSock c)"
proof -
  have nf: "\<not> freed c" using assms by (auto simp: conn_release_def)
  let ?c = "c\<lparr>mRefCount := mRefCount c - 1\<rparr>"
  show ?thesis
  proof (cases "mRefCount c = 1 \<and> mCleaning c")
    case True
    then obtain rc where "conn_cleanup (io_cb raw) onDisconnect (mCleanType ?c) (?c, w) = Inr (rc, c', w')"
      using assms nf by (auto elim!: and_thenE simp: conn_release_def)
    from conn_cleanup_effect [OF this] True nf show ?thesis by simp
  qed (use assms nf in \<open>auto simp: conn_release_def\<close>)
qed

end
