(* ===== verification/Net.thy ===== *)
theory Net
  imports ConnMgr ConnFrame
begin

text \<open>
  The network layer (src/net/net.cpp, netserver.cpp): the connections of a process, the
  connection manager that registers them, the queues of sockets of the data threads, and the
  handlers of the epoll threads. What the kernel answers (the result of a connect, whether a
  selector takes a socket, the error of a socket) is an argument. An operation runs under the
  lock of the manager or of the connection, so it is one step. \<^verbatim>\<open>None\<close> is a progress loop that
  ran out of fuel.
\<close>

section \<open>The state\<close>

record sock_io =
  si :: "in_item list"
  so :: string
  sq :: "out_item list"

record net =
  connMgr :: conn_mgr
  conns :: "conn_id \<Rightarrow> conn option"
  nextConn :: conn_id
  socks :: "int \<Rightarrow> sock_io"
  nw :: rpc_world
  sendSel :: "int set"
  recvSel :: "int set"
  sendQs :: "int list list"
  recvQs :: "int list list"

text \<open>
  Running an operation of a connection: the world sees the socket of the connection, and the
  sockets the operation takes out of the selectors (\<^verbatim>\<open>clearSelector\<close>) leave them. A deleted
  connection cannot be used.
\<close>

definition load_sock :: "sock_io \<Rightarrow> rpc_world \<Rightarrow> rpc_world" where
  "load_sock io w = w\<lparr>sin := si io, sout := so io, squota := sq io\<rparr>"

definition on_conn :: "conn_id \<Rightarrow> (cst \<Rightarrow> ('a \<times> cst) res) \<Rightarrow> net \<Rightarrow> ('a \<times> net) res" where
  "on_conn i f net = (case conns net i of None \<Rightarrow> Some (Inl Dangling)
     | Some c \<Rightarrow> if freed c then Some (Inl Dangling)
         else thenr (f (c, load_sock (socks net (mSock c)) (nw net))) (\<lambda>(a, c', w').
           ret (a, net\<lparr>conns := (conns net)(i \<mapsto> c'),
             socks := (socks net)(mSock c := \<lparr>si = sin w', so = sout w', sq = squota w'\<rparr>), nw := w'\<lparr>cleared := []\<rparr>,
             sendSel := sendSel net - set (cleared w'), recvSel := recvSel net - set (cleared w')\<rparr>)))"

definition upd_conn :: "conn_id \<Rightarrow> (conn \<Rightarrow> conn) \<Rightarrow> net \<Rightarrow> net res" where
  "upd_conn i f net = thenr (on_conn i (\<lambda>(c, w). ret ((), f c, w)) net) (\<lambda>(_, n). ret n)"

section \<open>Finding and removing\<close>

definition net_find :: "int \<Rightarrow> net \<Rightarrow> (conn_id option \<times> net) res" where
  "net_find s net = (case mgr_find s (connMgr net) of None \<Rightarrow> ret (None, net)
     | Some i \<Rightarrow> thenr (upd_conn i acquire net) (\<lambda>n. ret (Some i, n)))"

definition net_find_ep :: "endpoint \<Rightarrow> net \<Rightarrow> (conn_id option \<times> net) res" where
  "net_find_ep ep net = (case mgr_find_ep ep (connMgr net) of Inl e \<Rightarrow> Some (Inl e)
     | Inr None \<Rightarrow> ret (None, net)
     | Inr (Some i) \<Rightarrow> thenr (upd_conn i acquire net) (\<lambda>n. ret (Some i, n)))"

definition net_release :: "response \<Rightarrow> conn_id \<Rightarrow> net \<Rightarrow> net res" where
  "net_release raw i net = thenr (on_conn i (\<lambda>s. Some (and_then (conn_release (io_cb raw) onDisconnect s) (\<lambda>s'. Inr ((), s')))) net)
     (\<lambda>(_, n). ret n)"

definition net_cleanup :: "response \<Rightarrow> cleanup_t \<Rightarrow> conn_id \<Rightarrow> net \<Rightarrow> net res" where
  "net_cleanup raw how i net = thenr (on_conn i (\<lambda>s. Some (conn_cleanup (io_cb raw) onDisconnect how s)) net) (\<lambda>(_, n). ret n)"

datatype net_status = NET_SUCCESS | NET_ERR_EPOLL | NET_ERR_CONNECT | NET_ERR_CONN_NOTFOUND | NET_ERR_CONN_EXISTS

definition removeConn :: "response \<Rightarrow> int \<Rightarrow> net \<Rightarrow> (net_status \<times> net) res" where
  "removeConn raw s net = (case mgr_remove s (connMgr net) of
      (rc, r, m) \<Rightarrow> thenr (case r of None \<Rightarrow> ret net | Some i \<Rightarrow> net_cleanup raw ON_ERROR i net) (\<lambda>n.
        ret (if rc = MGR_SUCCESS then NET_SUCCESS else NET_ERR_CONN_NOTFOUND, n\<lparr>connMgr := m\<rparr>)))"

text \<open>\<^verbatim>\<open>ConnMgr::removeInactive\<close> and \<^verbatim>\<open>Net::removeInactive\<close>.\<close>

fun remove_all :: "response \<Rightarrow> int list \<Rightarrow> net \<Rightarrow> (nat \<times> net) res" where
  "remove_all raw [] net = ret (0, net)"
| "remove_all raw (s # ss) net = thenr (removeConn raw s net) (\<lambda>(rc, n1).
     thenr (remove_all raw ss n1) (\<lambda>(k, n2). ret ((if rc = NET_SUCCESS then k + 1 else k), n2)))"

definition registered :: "net \<Rightarrow> (int \<times> conn) list" where
  "registered net = concat (map (\<lambda>(s, i). case conns net i of None \<Rightarrow> [] | Some c \<Rightarrow> [(s, c)]) (sockConnMap (connMgr net)))"

definition removeInactive :: "response \<Rightarrow> net \<Rightarrow> (nat \<times> net) res" where
  "removeInactive raw net = remove_all raw (map snd (select_inactive NUM_REMOVE_INACTIVE (registered net) [])) net"

section \<open>Making connections\<close>

definition addToSendSelector :: "bool \<Rightarrow> int \<Rightarrow> net \<Rightarrow> net_status \<times> net" where
  "addToSendSelector ok s net = (if ok then (NET_SUCCESS, net\<lparr>sendSel := insert s (sendSel net)\<rparr>) else (NET_ERR_EPOLL, net))"

definition addToRecvSelector :: "bool \<Rightarrow> int \<Rightarrow> net \<Rightarrow> net_status \<times> net" where
  "addToRecvSelector ok s net = (if ok then (NET_SUCCESS, net\<lparr>recvSel := insert s (recvSel net)\<rparr>) else (NET_ERR_EPOLL, net))"

definition new_conn :: "endpoint \<Rightarrow> net \<Rightarrow> conn_id \<times> net" where
  "new_conn ep net = (let (c, w) = Conn_new ep (nw net) in
     (nextConn net, net\<lparr>conns := (conns net)(nextConn net \<mapsto> c), nextConn := nextConn net + 1, nw := w\<rparr>))"

definition conn_onConnect :: "conn_id \<Rightarrow> net \<Rightarrow> net res" where
  "conn_onConnect i net = thenr (on_conn i (\<lambda>s. ret ((), onConnect s)) net) (\<lambda>(_, n). ret n)"

definition mgr_add :: "endpoint \<Rightarrow> int \<Rightarrow> conn_id \<Rightarrow> net \<Rightarrow> net" where
  "mgr_add ep s i net = net\<lparr>connMgr := snd (mgr_insert ep s i (connMgr net))\<rparr>"

text \<open>
  \<^verbatim>\<open>getConn\<close>: the answers of the kernel are the socket made (if any), the result of the
  connect and whether the selectors take the socket. \<open>Inl\<close> is the exception thrown.
\<close>

definition getConn :: "response \<Rightarrow> int option \<Rightarrow> sock_status \<Rightarrow> bool \<Rightarrow> bool \<Rightarrow> endpoint \<Rightarrow> bool \<Rightarrow> int \<Rightarrow> net \<Rightarrow>
    ((net_status + conn_id) \<times> net) res" where
  "getConn raw created answer okS okR ep serverSide sk net =
     thenr (if sk \<noteq> -1 then net_find sk net else net_find_ep ep net) (\<lambda>(r, n).
     case r of Some i \<Rightarrow> ret (Inr i, n)
     | None \<Rightarrow>
       if serverSide then ret (Inl NET_ERR_CONN_NOTFOUND, n)
       else let (i, n1) = new_conn ep n in
         thenr (on_conn i (\<lambda>(c, w). let (crc, c', s) = conn_connect created answer c in ret ((crc, s), c', w)) n1) (\<lambda>((crc, s), n2).
         if crc = CONN_ERR_CONNECT then thenr (net_cleanup raw ON_ERROR i n2) (\<lambda>n3. ret (Inl NET_ERR_CONNECT, n3))
         else
           thenr (upd_conn i (setState crc) n2) (\<lambda>n3.
           thenr (conn_onConnect i n3) (\<lambda>n4.
           let n5 = mgr_add ep s i n4; (rcS, n6) = addToSendSelector okS s n5 in
           if rcS \<noteq> NET_SUCCESS then thenr (removeConn raw s n6) (\<lambda>(_, n7). ret (Inl NET_ERR_EPOLL, n7))
           else let (rcR, n7) = addToRecvSelector okR s n6 in
           if rcR \<noteq> NET_SUCCESS then thenr (removeConn raw s n7) (\<lambda>(_, n8). ret (Inl NET_ERR_EPOLL, n8))
           else thenr (upd_conn i acquire n7) (\<lambda>n8. ret (Inr i, n8))))))"

definition addConn :: "response \<Rightarrow> bool \<Rightarrow> bool \<Rightarrow> conn_id \<Rightarrow> endpoint \<Rightarrow> int \<Rightarrow> net \<Rightarrow> (net_status \<times> net) res" where
  "addConn raw okS okR i ep s net =
     thenr (net_find s net) (\<lambda>(r, n).
     case r of Some j \<Rightarrow> thenr (net_release raw j n) (\<lambda>n1. thenr (net_cleanup raw ON_ERROR i n1) (\<lambda>n2. ret (NET_ERR_CONN_EXISTS, n2)))
     | None \<Rightarrow>
         thenr (upd_conn i (\<lambda>c. (setState CONN_READY (conn_setup s c))\<lparr>mPeerEp := ep\<rparr>) n) (\<lambda>n1.
         let n2 = mgr_add ep s i n1; (rcR, n3) = addToRecvSelector okR s n2 in
         if rcR \<noteq> NET_SUCCESS then thenr (removeConn raw s n3) (\<lambda>(_, n4). ret (NET_ERR_EPOLL, n4))
         else let (rcS, n4) = addToSendSelector okS s n3 in
         if rcS \<noteq> NET_SUCCESS then thenr (removeConn raw s n4) (\<lambda>(_, n5). ret (NET_ERR_EPOLL, n5))
         else ret (NET_SUCCESS, n4)))"

definition delConn :: "response \<Rightarrow> endpoint \<Rightarrow> net \<Rightarrow> (net_status \<times> net) res" where
  "delConn raw ep net = thenr (net_find_ep ep net) (\<lambda>(r, n). case r of
      None \<Rightarrow> ret (NET_ERR_CONN_NOTFOUND, n)
    | Some i \<Rightarrow> thenr (net_release raw i n) (\<lambda>n1. case conns n1 i of None \<Rightarrow> Some (Inl Dangling)
        | Some c \<Rightarrow> if freed c then Some (Inl Dangling)
            else thenr (removeConn raw (mSock c) n1) (\<lambda>(_, n2). ret (NET_SUCCESS, n2))))"

text \<open>
  One turn of \<^verbatim>\<open>NetServer::acceptConns\<close>: what \<^verbatim>\<open>accept\<close> answers, and whether the loop goes on.
\<close>

datatype accept_answer = Accepted int string | AcceptAgain | AcceptNoFiles | AcceptError

definition accept_turn :: "response \<Rightarrow> endpoint \<Rightarrow> bool \<Rightarrow> bool \<Rightarrow> accept_answer \<Rightarrow> net \<Rightarrow> (bool \<times> net) res" where
  "accept_turn raw dep okS okR ans net = (case ans of
      AcceptAgain \<Rightarrow> ret (False, net)
    | AcceptNoFiles \<Rightarrow> thenr (removeInactive raw net) (\<lambda>(k, n). ret (0 < k, n))
    | AcceptError \<Rightarrow> ret (True, net)
    | Accepted s remote \<Rightarrow>
        let ep = setHostName remote dep; (i, n1) = new_conn dep net in
        thenr (conn_onConnect i n1) (\<lambda>n2.
        thenr (addConn raw okS okR i ep s n2) (\<lambda>(_, n3). ret (True, n3))))"

section \<open>The data threads\<close>

definition thread_index :: "int \<Rightarrow> 'a list \<Rightarrow> nat" where
  "thread_index s qs = unat (of_int s :: u64) mod length qs"

definition q_push :: "int \<Rightarrow> int list list \<Rightarrow> int list list res" where
  "q_push s qs = (if qs = [] then Some (Inl Assert_failed)
     else let k = thread_index s qs in ret (qs[k := qs ! k @ [s]]))"

definition prepareSend :: "int \<Rightarrow> conn_id option \<Rightarrow> net \<Rightarrow> net res" where
  "prepareSend s ci net =
     thenr (case ci of None \<Rightarrow> ret net | Some i \<Rightarrow> upd_conn i (setReadyToSend True) net) (\<lambda>n.
     thenr (q_push s (sendQs n)) (\<lambda>qs. ret (n\<lparr>sendQs := qs\<rparr>)))"

definition prepareRecv :: "int \<Rightarrow> net \<Rightarrow> net res" where
  "prepareRecv s net = thenr (q_push s (recvQs net)) (\<lambda>qs. ret (net\<lparr>recvQs := qs\<rparr>))"

definition sendData :: "response \<Rightarrow> nat \<Rightarrow> int \<Rightarrow> net \<Rightarrow> net res" where
  "sendData raw fuel s net = thenr (net_find s net) (\<lambda>(r, n). case r of None \<Rightarrow> ret n
     | Some i \<Rightarrow> thenr (on_conn i (sendProgress fuel (io_cb raw)) n) (\<lambda>(_, n1). net_release raw i n1))"

definition recvData :: "response \<Rightarrow> nat \<Rightarrow> bool \<Rightarrow> int \<Rightarrow> net \<Rightarrow> net res" where
  "recvData raw fuel okR s net = thenr (net_find s net) (\<lambda>(r, n). case r of None \<Rightarrow> ret n
     | Some i \<Rightarrow> thenr (on_conn i (recvProgress fuel (io_cb raw) True) n) (\<lambda>(crc, n1).
         thenr (net_release raw i n1) (\<lambda>n2.
         if crc = CONN_READY then ret (snd (addToRecvSelector okR s n2))
         else if crc = CONN_ERR_BROKEN then thenr (removeConn raw s n2) (\<lambda>(_, n3). ret n3)
         else ret n2)))"

text \<open>
  The loop of a data thread over its queue: a socket is served once for a run of equal entries, and
  a negative one ends the thread.
\<close>

function handlingData :: "(int \<Rightarrow> 's \<Rightarrow> 's res) \<Rightarrow> int list \<Rightarrow> 's \<Rightarrow> (bool \<times> 's) res" where
  "handlingData serve [] st = ret (False, st)"
| "handlingData serve (s # q) st =
     (if s < 0 then ret (True, st)
      else thenr (serve s st) (handlingData serve (dropWhile (\<lambda>x. s = x) q)))"
  by pat_completeness auto
termination
  by (relation "measure (\<lambda>(_, q, _). length q)") (auto simp: le_imp_less_Suc length_dropWhile_le)

section \<open>The epoll threads\<close>

definition send_epoll_event :: "response \<Rightarrow> bool \<Rightarrow> bool \<Rightarrow> int \<Rightarrow> net \<Rightarrow> net res" where
  "send_epoll_event raw hup err fd net = thenr (net_find fd net) (\<lambda>(r, n). case r of
      None \<Rightarrow> ret (n\<lparr>sendSel := sendSel n - {fd}\<rparr>)
    | Some i \<Rightarrow>
        if hup then thenr (net_release raw i n) (\<lambda>n1. thenr (removeConn raw fd n1) (\<lambda>(_, n2). ret n2))
        else (case conns n i of None \<Rightarrow> Some (Inl Dangling)
          | Some c \<Rightarrow>
              if mConnState c = CONN_CONNECTING \<and> err
              then thenr (net_release raw i n) (\<lambda>n1. thenr (removeConn raw fd n1) (\<lambda>(_, n2). ret n2))
              else thenr (if mConnState c = CONN_CONNECTING then upd_conn i (setState CONN_READY) n else ret n) (\<lambda>n1.
                   thenr (prepareSend fd (Some i) n1) (net_release raw i))))"

definition recv_epoll_event :: "response \<Rightarrow> bool \<Rightarrow> int \<Rightarrow> int \<Rightarrow> (net \<Rightarrow> net res) \<Rightarrow> net \<Rightarrow> net res" where
  "recv_epoll_event raw hup listenSock fd accept net =
     (if hup then
        if fd = listenSock then ret net
        else thenr (net_find fd net) (\<lambda>(r, n). case r of
            Some i \<Rightarrow> thenr (net_release raw i n) (\<lambda>n1. thenr (removeConn raw fd n1) (\<lambda>(_, n2). ret n2))
          | None \<Rightarrow> ret (n\<lparr>recvSel := recvSel n - {fd}\<rparr>))
      else if fd = listenSock then accept net
      else prepareRecv fd net)"

end
