(* ===== verification/NetInv.thy ===== *)
theory NetInv
  imports Net
begin

text \<open>
  What every operation of the network layer keeps: the manager registers exactly the live
  connections that are not being removed, under their own sockets, a connection taken out of the
  manager lives until its last reference is given back, and no reference count is negative.
\<close>

section \<open>The invariant\<close>

text \<open>
  \<open>P\<close> holds the connections under construction, which are not registered yet; \<open>N\<close> those that are
  registered under a socket that is none.
\<close>

definition conn_ok :: "conn_id set \<Rightarrow> conn_mgr \<Rightarrow> conn_id \<Rightarrow> conn \<Rightarrow> bool" where
  "conn_ok P m i c \<longleftrightarrow> 0 \<le> mRefCount c \<and>
     (if freed c then mRefCount c = 0 \<and> i \<notin> P
      else if i \<in> P then \<not> mCleaning c \<and> mRefCount c = 0
      else if mCleaning c then 0 < mRefCount c
      else mgr_find (mSock c) m = Some i)"

definition net_ok :: "conn_id set \<Rightarrow> conn_id set \<Rightarrow> net \<Rightarrow> bool" where
  "net_ok P N net \<longleftrightarrow> mgr_inv (connMgr net) \<and>
     (\<forall>s i. mgr_find s (connMgr net) = Some i \<longrightarrow> i \<notin> P \<and> (0 \<le> s \<or> i \<in> N) \<and>
        (\<exists>c. conns net i = Some c \<and> \<not> freed c \<and> \<not> mCleaning c \<and> mSock c = s)) \<and>
     (\<forall>i c. conns net i = Some c \<longrightarrow> i < nextConn net \<and> conn_ok P (connMgr net) i c) \<and> (\<forall>i\<in>P. conns net i \<noteq> None)"

abbreviation net_inv :: "net \<Rightarrow> bool" where "net_inv net \<equiv> net_ok {} {} net"

lemma conn_ok_other: "j \<noteq> i \<Longrightarrow> conn_ok (insert i P) m j c = conn_ok P m j c" "j \<noteq> i \<Longrightarrow> conn_ok (P - {i}) m j c = conn_ok P m j c"
  by (simp_all add: conn_ok_def)

lemma on_connE:
  assumes "on_conn i f net = ret (a, net')"
  obtains c c' w w' where "conns net i = Some c" "\<not> freed c" "f (c, w) = ret (a, c', w')"
    "conns net' = (conns net)(i \<mapsto> c')" "connMgr net' = connMgr net" "nextConn net' = nextConn net"
    "sendQs net' = sendQs net" "recvQs net' = recvQs net"
  using assms by (auto simp: on_conn_def thenr_ret split: option.splits if_splits)

lemma upd_connE:
  assumes "upd_conn i f net = ret net'"
  obtains c where "conns net i = Some c" "\<not> freed c"
    "conns net' = (conns net)(i \<mapsto> f c)" "connMgr net' = connMgr net" "nextConn net' = nextConn net"
    "sendQs net' = sendQs net" "recvQs net' = recvQs net"
  using assms by (auto simp: upd_conn_def thenr_ret elim!: on_connE)

text \<open>A change of one connection that keeps what the invariant says of it.\<close>

lemma net_ok_upd:
  assumes "net_ok P N net" "conns net i = Some c" "conns net' = (conns net)(i \<mapsto> c')" "connMgr net' = connMgr net"
    "nextConn net' = nextConn net" "conn_ok P (connMgr net) i c'"
    "i \<in> P \<or> (freed c' = freed c \<and> mCleaning c' = mCleaning c \<and> mSock c' = mSock c) \<or> mCleaning c"
  shows "net_ok P N net'"
  using assms unfolding net_ok_def by (auto simp: split: if_splits) (metis option.inject)+

lemma core_conn_ok: "core c' = core c \<Longrightarrow> conn_ok P m i c' = conn_ok P m i c"
  by (simp add: core_def conn_ok_def)

lemma net_ok_core:
  assumes "net_ok P N net" "conns net i = Some c" "conns net' = (conns net)(i \<mapsto> c')" "connMgr net' = connMgr net"
    "nextConn net' = nextConn net" "core c' = core c"
  shows "net_ok P N net'"
proof (rule net_ok_upd [OF assms(1-5)])
  show "conn_ok P (connMgr net) i c'" using assms(1,2) core_conn_ok [OF assms(6)] by (auto simp: net_ok_def)
qed (use assms(6) in \<open>simp add: core_def\<close>)

lemma net_okD:
  assumes "net_ok P N net" "conns net i = Some c"
  shows "i < nextConn net" "conn_ok P (connMgr net) i c"
  using assms by (auto simp: net_ok_def)

lemma net_ok_find:
  assumes "net_ok P N net" "mgr_find s (connMgr net) = Some i"
  obtains c where "conns net i = Some c" "\<not> freed c" "\<not> mCleaning c" "mSock c = s" "i \<notin> P" "0 \<le> s \<or> i \<in> N"
  using assms by (auto simp: net_ok_def)

lemma net_ok_sels [simp]:
  "net_ok P N (net\<lparr>sendSel := x\<rparr>) = net_ok P N net" "net_ok P N (net\<lparr>recvSel := x\<rparr>) = net_ok P N net"
  "net_ok P N (net\<lparr>sendQs := q\<rparr>) = net_ok P N net" "net_ok P N (net\<lparr>recvQs := q\<rparr>) = net_ok P N net"
  by (simp_all add: net_ok_def)

section \<open>Taking and giving back references\<close>

definition held :: "net \<Rightarrow> conn_id \<Rightarrow> bool" where
  "held net i \<longleftrightarrow> (\<exists>c. conns net i = Some c \<and> \<not> freed c \<and> 0 < mRefCount c)"

lemma acquire_ok:
  assumes "net_ok P N net" "mgr_find s (connMgr net) = Some i" "upd_conn i acquire net = ret net'"
  shows "net_ok P N net' \<and> held net' i \<and> connMgr net' = connMgr net"
proof -
  obtain c where c: "conns net i = Some c" "\<not> freed c" "conns net' = (conns net)(i \<mapsto> acquire c)"
      "connMgr net' = connMgr net" "nextConn net' = nextConn net"
    using assms(3) by (rule upd_connE)
  have "conn_ok P (connMgr net) i c" by (rule net_okD(2) [OF assms(1) c(1)])
  moreover have "i \<notin> P" "\<not> mCleaning c" using net_ok_find [OF assms(1,2)] c(1) by auto
  ultimately have "conn_ok P (connMgr net) i (acquire c)" "0 < mRefCount (acquire c)" using c(2)
    by (auto simp: conn_ok_def acquire_def)
  then show ?thesis using net_ok_upd [OF assms(1) c(1,3-5)] c by (auto simp: held_def acquire_def)
qed

lemma net_find_ok:
  assumes "net_ok P N net" "net_find s net = ret (r, net')"
  shows "net_ok P N net' \<and> connMgr net' = connMgr net \<and> r = mgr_find s (connMgr net) \<and> (\<forall>i. r = Some i \<longrightarrow> held net' i)"
proof (cases "mgr_find s (connMgr net)")
  case (Some i)
  then have "upd_conn i acquire net = ret net'" "r = Some i"
    using assms(2) by (auto simp: net_find_def thenr_ret)
  then show ?thesis using acquire_ok [OF assms(1) Some] Some by simp
qed (use assms in \<open>simp add: net_find_def\<close>)

lemma mgr_find_ep_registered:
  assumes "mgr_inv m" "mgr_find_ep ep m = Inr (Some i)"
  obtains s where "mgr_find s m = Some i"
  using mgr_find_ep_table [OF assms(1), of ep] assms mgr_find_table [OF assms(1)] by fastforce

lemma net_find_ep_ok:
  assumes "net_ok P N net" "net_find_ep ep net = ret (r, net')"
  shows "net_ok P N net' \<and> connMgr net' = connMgr net \<and> (\<forall>i. r = Some i \<longrightarrow> held net' i)"
proof (cases r)
  case None
  then show ?thesis using assms by (auto simp: net_find_ep_def thenr_ret split: sum.splits option.splits)
next
  case (Some i)
  then have e: "mgr_find_ep ep (connMgr net) = Inr (Some i)" "upd_conn i acquire net = ret net'"
    using assms by (auto simp: net_find_ep_def thenr_ret split: sum.splits option.splits)
  have "mgr_inv (connMgr net)" using assms(1) by (simp add: net_ok_def)
  then obtain s where "mgr_find s (connMgr net) = Some i" using e(1) by (rule mgr_find_ep_registered)
  from acquire_ok [OF assms(1) this e(2)] Some show ?thesis by simp
qed

lemma net_release_ok:
  assumes "net_ok P N net" "held net i" "net_release raw i net = ret net'"
  shows "net_ok P N net' \<and> connMgr net' = connMgr net"
proof -
  obtain c c' w w' where c: "conns net i = Some c" "\<not> freed c"
      "conn_release (io_cb raw) onDisconnect (c, w) = Inr (c', w')"
      "conns net' = (conns net)(i \<mapsto> c')" "connMgr net' = connMgr net" "nextConn net' = nextConn net"
    using assms(3) by (auto simp: net_release_def thenr_ret elim!: on_connE and_thenE)
  note eff = conn_release_effect [OF c(3)]
  have r: "0 < mRefCount c" using assms(2) c(1) by (simp add: held_def)
  have ok: "conn_ok P (connMgr net) i c" by (rule net_okD(2) [OF assms(1) c(1)])
  have "i \<notin> P" using ok c(2) r by (auto simp: conn_ok_def)
  have "conn_ok P (connMgr net) i c'" using ok eff r \<open>i \<notin> P\<close> by (auto simp: conn_ok_def split: if_splits)
  then show ?thesis
    using net_ok_upd [OF assms(1) c(1,4-6)] eff c(2,5) by (auto split: if_splits)
qed

section \<open>Removing\<close>

lemma mgr_remove_find:
  assumes "mgr_inv m" "mgr_remove s m = (rc, r, m')"
  shows "mgr_inv m'" "r = mgr_find s m" "mgr_find t m' = (if t = s then None else mgr_find t m)"
  using mgr_remove_inv [OF assms] mgr_remove_maps(1,3) [OF assms] by (simp_all add: mgr_find_def)

text \<open>The end of a connection that no one registers: it is deleted, or lives on with its references.\<close>

lemma net_cleanup_effect:
  assumes "net_cleanup raw how i net = ret net'"
  obtains c c' where "conns net i = Some c" "\<not> freed c" "conns net' = (conns net)(i \<mapsto> c')" "connMgr net' = connMgr net"
    "nextConn net' = nextConn net" "mCleaning c'" "mRefCount c' = mRefCount c" "freed c' \<longleftrightarrow> \<not> 0 < mRefCount c"
proof -
  obtain c c' w w' rc where c: "conns net i = Some c" "\<not> freed c"
      "conn_cleanup (io_cb raw) onDisconnect how (c, w) = Inr (rc, c', w')"
      "conns net' = (conns net)(i \<mapsto> c')" "connMgr net' = connMgr net" "nextConn net' = nextConn net"
    using assms by (auto simp: net_cleanup_def thenr_ret elim!: on_connE)
  show thesis by (rule that [OF c(1,2,4-6)]) (use conn_cleanup_effect [OF c(3)] in \<open>auto split: if_splits\<close>)
qed

lemma net_ok_mgr:
  assumes "mgr_inv m" "\<And>t. mgr_find t m = mgr_find t (connMgr net)" "mgr_inv (connMgr net)"
  shows "net_ok P N (net\<lparr>connMgr := m\<rparr>) = net_ok P N net"
  by (simp add: net_ok_def conn_ok_def assms)

lemma removeConn_ok:
  assumes ok: "net_ok P N net" and rm: "removeConn raw s net = ret (rc, net')"
  shows "net_ok P (N - {i. mgr_find s (connMgr net) = Some i}) net' \<and> mgr_find s (connMgr net') = None \<and>
    (\<forall>t. t \<noteq> s \<longrightarrow> mgr_find t (connMgr net') = mgr_find t (connMgr net)) \<and>
    (rc = NET_SUCCESS \<longleftrightarrow> mgr_find s (connMgr net) \<noteq> None)"
proof -
  obtain mrc r m where m: "mgr_remove s (connMgr net) = (mrc, r, m)" by (cases "mgr_remove s (connMgr net)") auto
  have mi: "mgr_inv (connMgr net)" using ok by (simp add: net_ok_def)
  note find = mgr_remove_find [OF mi m]
  have rc: "rc = NET_SUCCESS \<longleftrightarrow> mgr_find s (connMgr net) \<noteq> None"
    using rm m mgr_remove_maps(4) [OF mi m] by (auto simp: removeConn_def thenr_ret mgr_find_def split: if_splits)
  show ?thesis
  proof (cases r)
    case None
    then have "net' = net\<lparr>connMgr := m\<rparr>" using rm m by (auto simp: removeConn_def)
    moreover have same: "mgr_find t m = mgr_find t (connMgr net)" for t using find(2,3) None by simp
    moreover have "mgr_find s (connMgr net) = None" using find(2) None by simp
    ultimately show ?thesis using net_ok_mgr [OF find(1) same mi] ok rc by simp
  next
    case (Some i)
    then obtain n1 where n1: "net_cleanup raw ON_ERROR i net = ret n1" "net' = n1\<lparr>connMgr := m\<rparr>"
      using rm m by (auto simp: removeConn_def thenr_ret)
    obtain c c' where c: "conns net i = Some c" "\<not> freed c" "conns n1 = (conns net)(i \<mapsto> c')" "nextConn n1 = nextConn net"
        "mCleaning c'" "mRefCount c' = mRefCount c" "freed c' \<longleftrightarrow> \<not> 0 < mRefCount c"
      using n1(1) by (rule net_cleanup_effect)
    have i: "mgr_find s (connMgr net) = Some i" using find Some by simp
    have only: "mgr_find t (connMgr net) = Some i \<longleftrightarrow> t = s" for t
      by (rule iffI, rule net_ok_find [OF ok i], erule net_ok_find [OF ok]) (use i c(1) in simp_all)
    have iP: "i \<notin> P" by (rule net_ok_find [OF ok i])
    have reg: "i' \<notin> P \<and> (0 \<le> t \<or> i' \<in> N - {i}) \<and> (\<exists>d. conns net' i' = Some d \<and> \<not> freed d \<and> \<not> mCleaning d \<and> mSock d = t)"
      if t: "mgr_find t m = Some i'" for t i'
    proof -
      have t': "mgr_find t (connMgr net) = Some i'" "t \<noteq> s" using t find by (auto split: if_splits)
      then have "i' \<noteq> i" using only by auto
      then show ?thesis using net_ok_find [OF ok t'(1)] n1(2) c(3) by auto
    qed
    have each: "j < nextConn net' \<and> conn_ok P m j d" if j: "conns net' j = Some d" for j d
    proof (cases "j = i")
      case True
      then have "d = c'" using j n1(2) c(3) by simp
      then show ?thesis using True net_okD [OF ok c(1)] c iP n1(2) by (auto simp: conn_ok_def)
    next
      case False
      then have j': "conns net j = Some d" using j n1(2) c(3) by simp
      have "mgr_find (mSock d) m = Some j" if "mgr_find (mSock d) (connMgr net) = Some j"
        using that find i False by auto
      then show ?thesis using net_okD [OF ok j'] n1(2) c(4) by (auto simp: conn_ok_def)
    qed
    have "net_ok P (N - {i}) net'"
      unfolding net_ok_def using find(1) reg each ok c(3) n1(2) by (auto simp: net_ok_def)
    then show ?thesis using find i rc n1(2) by auto
  qed
qed

lemma remove_all_ok: "net_inv net \<Longrightarrow> remove_all raw ss net = ret (k, net') \<Longrightarrow> net_inv net'"
proof (induction ss arbitrary: net k)
  case (Cons s ss)
  then obtain rc n1 j where n1: "removeConn raw s net = ret (rc, n1)" "remove_all raw ss n1 = ret (j, net')"
    by (auto simp: thenr_ret)
  have "net_inv n1" using removeConn_ok [OF Cons.prems(1) n1(1)] by simp
  then show ?case using n1(2) by (rule Cons.IH)
qed simp

lemma removeInactive_ok: "net_inv net \<Longrightarrow> removeInactive raw net = ret (k, net') \<Longrightarrow> net_inv net'"
  unfolding removeInactive_def by (rule remove_all_ok)

section \<open>Making connections\<close>

lemma new_conn_ok:
  assumes "net_ok P N net" "new_conn ep net = (i, net')"
  obtains c where "net_ok (insert i P) N net'" "connMgr net' = connMgr net" "conns net' i = Some c" "i \<notin> P" "mSock c = SOCK_DISCONNECTED"
proof -
  have i: "i = nextConn net" using assms(2) by (auto simp: new_conn_def split: prod.splits)
  obtain c where c: "conns net' = (conns net)(i \<mapsto> c)" "connMgr net' = connMgr net" "nextConn net' = nextConn net + 1"
      "mRefCount c = 0" "\<not> freed c" "\<not> mCleaning c" "mSock c = SOCK_DISCONNECTED"
    using assms(2) by (auto simp: new_conn_def Conn_new_def updateActSn_def Let_def split: prod.splits)
  have none: "conns net i = None" using assms(1) i by (cases "conns net i") (auto simp: net_ok_def)
  then have iP: "i \<notin> P" using assms(1) by (auto simp: net_ok_def)
  have unreg: "mgr_find t (connMgr net) \<noteq> Some i" for t
    by (rule notI, erule net_ok_find [OF assms(1)]) (simp add: none)
  have "j < nextConn net' \<and> conn_ok (insert i P) (connMgr net') j d" if j: "conns net' j = Some d" for j d
  proof (cases "j = i")
    case True
    then show ?thesis using j c i by (simp add: conn_ok_def)
  next
    case False
    then have "conns net j = Some d" using j c(1) by simp
    then show ?thesis using net_okD [OF assms(1), of j d] conn_ok_other(1) [OF False] c(2,3) by simp
  qed
  moreover have "i' \<noteq> i \<and> i' \<notin> P \<and> (0 \<le> t \<or> i' \<in> N) \<and> (\<exists>d. conns net' i' = Some d \<and> \<not> freed d \<and> \<not> mCleaning d \<and> mSock d = t)"
    if t: "mgr_find t (connMgr net) = Some i'" for t i'
    by (rule net_ok_find [OF assms(1) t]) (use unreg [of t] t c(1) in auto)
  ultimately have "net_ok (insert i P) N net'" using assms(1) c(1,2) by (auto simp: net_ok_def)
  then show thesis using c iP by (intro that [of c]) auto
qed

text \<open>A connection under construction may change in every way but its reference count and its flags.\<close>

lemma building_upd:
  assumes "net_ok P N net" "i \<in> P" "conns net i = Some c" "conns net' = (conns net)(i \<mapsto> c')" "connMgr net' = connMgr net"
    "nextConn net' = nextConn net" "freed c' = freed c" "mRefCount c' = mRefCount c" "mCleaning c' = mCleaning c"
  shows "net_ok P N net'"
proof (rule net_ok_upd [OF assms(1,3-6)])
  show "conn_ok P (connMgr net) i c'" using net_okD [OF assms(1,3)] assms(2,7-) by (simp add: conn_ok_def split: if_splits)
qed (use assms(2) in simp)

lemma building_cleanup:
  assumes "net_ok P N net" "i \<in> P" "net_cleanup raw how i net = ret net'"
  shows "net_ok (P - {i}) N net' \<and> connMgr net' = connMgr net"
proof -
  obtain c c' where c: "conns net i = Some c" "\<not> freed c" "conns net' = (conns net)(i \<mapsto> c')" "connMgr net' = connMgr net"
      "nextConn net' = nextConn net" "mCleaning c'" "mRefCount c' = mRefCount c" "freed c' \<longleftrightarrow> \<not> 0 < mRefCount c"
    using assms(3) by (rule net_cleanup_effect)
  have r: "mRefCount c = 0" using net_okD [OF assms(1) c(1)] assms(2) c(2) by (simp add: conn_ok_def)
  have "j < nextConn net' \<and> conn_ok (P - {i}) (connMgr net') j d" if j: "conns net' j = Some d" for j d
  proof (cases "j = i")
    case True
    then show ?thesis using j c r net_okD [OF assms(1) c(1)] by (simp add: conn_ok_def)
  next
    case False
    then have "conns net j = Some d" using j c(3) by simp
    then show ?thesis using net_okD [OF assms(1), of j d] conn_ok_other(2) [OF False] c(4,5) by simp
  qed
  moreover have "i' \<notin> P \<and> (0 \<le> t \<or> i' \<in> N) \<and> (\<exists>d. conns net' i' = Some d \<and> \<not> freed d \<and> \<not> mCleaning d \<and> mSock d = t)"
    if t: "mgr_find t (connMgr net) = Some i'" for t i'
  proof -
    obtain d where d: "conns net i' = Some d" "\<not> freed d" "\<not> mCleaning d" "mSock d = t" "i' \<notin> P" "0 \<le> t \<or> i' \<in> N"
      using assms(1) t by (rule net_ok_find)
    then have "i' \<noteq> i" using assms(2) by auto
    then have "conns net' i' = Some d" using d(1) c(3) by simp
    then show ?thesis using d by blast
  qed
  ultimately show ?thesis using assms(1) c(3,4) by (auto simp: net_ok_def)
qed

lemma mgr_add_ok:
  assumes "net_ok P N net" "i \<in> P" "conns net i = Some c" "mSock c = s" "mgr_find s (connMgr net) = None"
  shows "net_ok (P - {i}) (if 0 \<le> s then N else insert i N) (mgr_add ep s i net) \<and>
    mgr_find s (connMgr (mgr_add ep s i net)) = Some i"
proof -
  obtain rc m where m: "mgr_insert ep s i (connMgr net) = (rc, m)" by (cases "mgr_insert ep s i (connMgr net)")
  have mi: "mgr_inv (connMgr net)" using assms(1) by (simp add: net_ok_def)
  have none: "map_of (sockConnMap (connMgr net)) s = None" using assms(5) by (simp add: mgr_find_def)
  have find: "mgr_find t m = (if t = s then Some i else mgr_find t (connMgr net))" for t
    using mgr_insert_maps(2) [OF mi none m] by (simp add: mgr_find_def)
  have inv: "mgr_inv m" by (rule mgr_insert_inv [OF mi none m])
  have e: "mgr_add ep s i net = net\<lparr>connMgr := m\<rparr>" by (simp add: mgr_add_def m)
  have ci: "\<not> freed c" "\<not> mCleaning c" using net_okD [OF assms(1,3)] assms(2) by (auto simp: conn_ok_def split: if_splits)
  have "j < nextConn net \<and> conn_ok (P - {i}) m j d" if j: "conns net j = Some d" for j d
  proof (cases "j = i")
    case True
    then show ?thesis using net_okD [OF assms(1,3)] assms(2-4) j find ci by (auto simp: conn_ok_def)
  next
    case False
    have "mgr_find (mSock d) m = Some j" if "mgr_find (mSock d) (connMgr net) = Some j" using that find assms(5) by auto
    then show ?thesis using net_okD [OF assms(1) j] False by (auto simp: conn_ok_def)
  qed
  moreover have "i' \<notin> P - {i} \<and> (0 \<le> t \<or> i' \<in> (if 0 \<le> s then N else insert i N)) \<and>
      (\<exists>d. conns net i' = Some d \<and> \<not> freed d \<and> \<not> mCleaning d \<and> mSock d = t)"
    if t: "mgr_find t m = Some i'" for t i'
  proof (cases "t = s")
    case True
    then show ?thesis using t find assms(3,4) ci by simp
  next
    case False
    then have "mgr_find t (connMgr net) = Some i'" using t find by simp
    then show ?thesis by (rule net_ok_find [OF assms(1)]) auto
  qed
  ultimately show ?thesis using assms(1) inv find by (auto simp: e net_ok_def)
qed

lemma sel_status [simp]:
  "addToSendSelector ok s net = (rc, net') \<Longrightarrow> net_ok P N net' = net_ok P N net"
  "addToRecvSelector ok s net = (rc, net') \<Longrightarrow> net_ok P N net' = net_ok P N net"
  by (auto simp: addToSendSelector_def addToRecvSelector_def split: if_splits)

lemma sel_effect:
  "addToSendSelector ok s net = (rc, net') \<Longrightarrow> connMgr net' = connMgr net \<and> conns net' = conns net \<and> (rc = NET_SUCCESS \<longleftrightarrow> ok)"
  "addToRecvSelector ok s net = (rc, net') \<Longrightarrow> connMgr net' = connMgr net \<and> conns net' = conns net \<and> (rc = NET_SUCCESS \<longleftrightarrow> ok)"
  by (auto simp: addToSendSelector_def addToRecvSelector_def split: if_splits)

text \<open>
  Registering a connection that is ready: what \<^verbatim>\<open>getConn\<close> and \<^verbatim>\<open>addConn\<close> do with the selectors after the
  insertion keeps the invariant when a socket that is none is refused.
\<close>

lemma register_ok:
  assumes "net_ok {i} {} net" "conns net i = Some c" "mSock c = s" "mgr_find s (connMgr net) = None"
    "net' = mgr_add ep s i net" "okS \<Longrightarrow> 0 \<le> s"
  shows "if okS then net_inv net' \<and> mgr_find s (connMgr net') = Some i
    else \<forall>raw rc net''. removeConn raw s net' = ret (rc, net'') \<longrightarrow> net_inv net''"
proof -
  have a: "net_ok ({i} - {i}) (if 0 \<le> s then {} else insert i {}) net'" "mgr_find s (connMgr net') = Some i"
    using mgr_add_ok [OF assms(1) _ assms(2-4), of ep] assms(5) by simp_all
  show ?thesis
  proof (cases okS)
    case True
    then show ?thesis using a assms(6) by simp
  next
    case False
    have "net_inv net''" if "removeConn raw s net' = ret (rc, net'')" for raw rc net''
      using removeConn_ok [OF a(1) that] a(2) by (simp split: if_splits)
    then show ?thesis using False by simp
  qed
qed

lemma onConnect_core: "onConnect (c, w) = (c', w') \<Longrightarrow> core c' = core c"
  by (auto simp: onConnect_def prepareRecvHeader_def new_buf_def Let_def split: prod.splits)

lemma conn_connect_effect:
  "conn_connect created answer c = (rc, c', s) \<Longrightarrow> freed c' = freed c \<and> mRefCount c' = mRefCount c \<and> mCleaning c' = mCleaning c \<and>
     (rc \<noteq> CONN_ERR_CREATE \<longrightarrow> created = Some s \<and> mSock c' = s) \<and> (rc = CONN_ERR_CREATE \<longrightarrow> created = None \<and> s = -1 \<and> c' = c)"
  by (auto simp: conn_connect_def conn_setup_def Let_def split: option.splits sock_status.splits)

text \<open>What the kernel may answer: a new socket is one that no registered connection has, and no selector takes a socket that is none.\<close>

definition fresh_sock :: "net \<Rightarrow> int \<Rightarrow> bool" where
  "fresh_sock net s \<longleftrightarrow> 0 \<le> s \<and> mgr_find s (connMgr net) = None"

lemma net_inv_nonneg: "net_inv net \<Longrightarrow> s < 0 \<Longrightarrow> mgr_find s (connMgr net) = None"
  by (cases "mgr_find s (connMgr net)") (auto elim: net_ok_find)

text \<open>The steps up to the insertion: the connection is built, connected and waits for a header.\<close>

lemma connect_chain_ok:
  assumes ok: "net_inv n" and new: "new_conn ep n = (i, n1)"
    and con: "on_conn i (\<lambda>(c, w). let (crc, c', s) = conn_connect created answer c in ret ((crc, s), c', w)) n1 = ret ((crc, s), n2)"
    and kernel: "\<And>s. created = Some s \<Longrightarrow> fresh_sock n s" "created = None \<Longrightarrow> \<not> okS"
  shows "net_ok {i} {} n2 \<and> (\<exists>c. conns n2 i = Some c \<and> mSock c = s) \<and> mgr_find s (connMgr n2) = None \<and> (okS \<longrightarrow> 0 \<le> s)"
proof -
  obtain c0 where c0: "net_ok {i} {} n1" "connMgr n1 = connMgr n" "conns n1 i = Some c0" "mSock c0 = SOCK_DISCONNECTED"
    using new_conn_ok [OF ok new] by blast
  obtain c c' w w' where c: "conns n1 i = Some c" "conn_connect created answer c = (crc, c', s)"
      "conns n2 = (conns n1)(i \<mapsto> c')" "connMgr n2 = connMgr n1" "nextConn n2 = nextConn n1"
    using con by (auto elim!: on_connE split: prod.splits)
  note eff = conn_connect_effect [OF c(2)]
  have "net_ok {i} {} n2" by (rule building_upd [OF c0(1) _ c(1,3-5)]) (use eff in auto)
  moreover have "mSock c' = s \<and> (0 \<le> s \<or> \<not> okS) \<and> mgr_find s (connMgr n) = None"
  proof (cases created)
    case None
    then have "crc = CONN_ERR_CREATE" using eff by (cases "crc = CONN_ERR_CREATE") auto
    then show ?thesis using eff c(1) c0(3,4) kernel(2) None net_inv_nonneg [OF ok, of "-1"] by auto
  next
    case (Some t)
    then have "crc \<noteq> CONN_ERR_CREATE" using eff by auto
    then show ?thesis using eff Some kernel(1) [of s] by (simp add: fresh_sock_def)
  qed
  ultimately show ?thesis using c(3,4) c0(2) by auto
qed

lemma keep_building:
  assumes "net_ok P N net" "conns net i = Some c" "conns net' = (conns net)(i \<mapsto> c')" "connMgr net' = connMgr net"
    "nextConn net' = nextConn net" "core c' = core c" "mSock c = s"
  shows "net_ok P N net' \<and> (\<exists>c. conns net' i = Some c \<and> mSock c = s)"
  using net_ok_core [OF assms(1-6)] assms(3,6,7) by (auto simp: core_def)

lemma conn_onConnect_ok:
  assumes "net_ok P N net" "conn_onConnect i net = ret net'" "conns net i = Some d" "mSock d = s"
  shows "net_ok P N net' \<and> connMgr net' = connMgr net \<and> (\<exists>c. conns net' i = Some c \<and> mSock c = s)"
proof -
  obtain c c' w w' where c: "conns net i = Some c" "onConnect (c, w) = (c', w')"
      "conns net' = (conns net)(i \<mapsto> c')" "connMgr net' = connMgr net" "nextConn net' = nextConn net"
    using assms(2) by (auto simp: conn_onConnect_def thenr_ret elim!: on_connE)
  show ?thesis using keep_building [OF assms(1) c(1,3-5) onConnect_core [OF c(2)]] assms(3,4) c(1,4) by simp
qed

lemma upd_core_ok:
  assumes "net_ok P N net" "upd_conn i f net = ret net'" "\<And>c. core (f c) = core c" "conns net i = Some d" "mSock d = s"
  shows "net_ok P N net' \<and> connMgr net' = connMgr net \<and> (\<exists>c. conns net' i = Some c \<and> mSock c = s)"
  using assms(2) by (rule upd_connE) (use keep_building [OF assms(1)] assms(3-5) in auto)

lemma register_tail:
  assumes "net_ok {i} {} n4" "\<exists>c. conns n4 i = Some c \<and> mSock c = s" "mgr_find s (connMgr n4) = None" "okS \<Longrightarrow> 0 \<le> s"
    and rest: "(let n5 = mgr_add ep s i n4; (rcS, n6) = addToSendSelector okS s n5 in
           if rcS \<noteq> NET_SUCCESS then thenr (removeConn raw s n6) (\<lambda>(_, n7). ret (Inl NET_ERR_EPOLL, n7))
           else let (rcR, n7) = addToRecvSelector okR s n6 in
           if rcR \<noteq> NET_SUCCESS then thenr (removeConn raw s n7) (\<lambda>(_, n8). ret (Inl NET_ERR_EPOLL, n8))
           else thenr (upd_conn i acquire n7) (\<lambda>n8. ret (Inr i, n8))) = ret (r, net')"
  shows "net_inv net' \<and> (\<forall>i. r = Inr i \<longrightarrow> held net' i)"
proof -
  define n5 where "n5 = mgr_add ep s i n4"
  obtain c4 where "conns n4 i = Some c4" "mSock c4 = s" using assms(2) by blast
  from register_ok [OF assms(1) this, of n5 ep okS] have reg:
    "if okS then net_inv n5 \<and> mgr_find s (connMgr n5) = Some i
     else \<forall>raw rc n'. removeConn raw s n5 = ret (rc, n') \<longrightarrow> net_inv n'"
    using assms(3,4) by (simp add: n5_def)
  show ?thesis
  proof (cases okS)
    case False
    then show ?thesis using rest reg by (auto simp: n5_def [symmetric] Let_def thenr_ret addToSendSelector_def)
  next
    case True
    let ?n6 = "n5\<lparr>sendSel := insert s (sendSel n5)\<rparr>"
    have n6: "net_inv ?n6" "mgr_find s (connMgr ?n6) = Some i" using reg True by simp_all
    show ?thesis
    proof (cases okR)
      case False
      then obtain rc where "removeConn raw s ?n6 = ret (rc, net')" "r = Inl NET_ERR_EPOLL"
        using rest True unfolding n5_def [symmetric] by (auto simp: Let_def thenr_ret addToSendSelector_def addToRecvSelector_def)
      then show ?thesis using removeConn_ok [OF n6(1)] by simp
    next
      case True
      let ?n7 = "?n6\<lparr>recvSel := insert s (recvSel n5)\<rparr>"
      have "thenr (upd_conn i acquire ?n7) (\<lambda>n8. ret (Inr i, n8)) = ret (r, net')" using rest True \<open>okS\<close>
        unfolding n5_def [symmetric] by (simp add: Let_def addToSendSelector_def addToRecvSelector_def)
      then have "upd_conn i acquire ?n7 = ret net' \<and> r = Inr i" unfolding thenr_ret by (elim exE conjE) simp
      moreover have "net_inv ?n7" "mgr_find s (connMgr ?n7) = Some i" using n6 by simp_all
      ultimately show ?thesis using acquire_ok [of "{}" "{}" ?n7 s i] by blast
    qed
  qed
qed

lemma getConn_ok:
  assumes ok: "net_inv net" and get: "getConn raw created answer okS okR ep serverSide sk net = ret (r, net')"
    and kernel: "\<And>s. created = Some s \<Longrightarrow> fresh_sock net s" "created = None \<Longrightarrow> \<not> okS"
  shows "net_inv net' \<and> (\<forall>i. r = Inr i \<longrightarrow> held net' i)"
proof -
  obtain q n where q: "(if sk \<noteq> -1 then net_find sk net else net_find_ep ep net) = ret (q, n)"
    using get by (auto simp: getConn_def thenr_ret)
  have n: "net_inv n" "connMgr n = connMgr net" "\<And>i. q = Some i \<Longrightarrow> held n i"
    using q net_find_ok [OF ok, of sk q n] net_find_ep_ok [OF ok, of ep q n] by (auto split: if_splits)
  show ?thesis
  proof (cases "q = None \<and> \<not> serverSide")
    case False
    then show ?thesis using get q n by (cases q) (auto simp: getConn_def)
  next
    case True
    obtain i n1 where n1: "new_conn ep n = (i, n1)" by (cases "new_conn ep n")
    obtain crc s n2 where n2: "on_conn i (\<lambda>(c, w). let (crc, c', s) = conn_connect created answer c in ret ((crc, s), c', w)) n1 = ret ((crc, s), n2)"
      using get q True n1 by (auto simp: getConn_def thenr_ret)
    have b2: "net_ok {i} {} n2" "mgr_find s (connMgr n2) = None" "okS \<Longrightarrow> 0 \<le> s" and ex: "\<exists>c. conns n2 i = Some c \<and> mSock c = s"
      using connect_chain_ok [OF n(1) n1 n2, of okS] kernel n(2) by (auto simp: fresh_sock_def)
    show ?thesis
    proof (cases "crc = CONN_ERR_CONNECT")
      case True
      then obtain n3 where "net_cleanup raw ON_ERROR i n2 = ret n3" "net' = n3" "r = Inl NET_ERR_CONNECT"
        using get q \<open>q = None \<and> \<not> serverSide\<close> n1 n2 by (auto simp: getConn_def thenr_ret)
      then show ?thesis using building_cleanup [OF b2(1)] by auto
    next
      case False
      obtain n3 n4 where n3: "upd_conn i (setState crc) n2 = ret n3" and n4: "conn_onConnect i n3 = ret n4"
        and rest: "(let n5 = mgr_add ep s i n4; (rcS, n6) = addToSendSelector okS s n5 in
           if rcS \<noteq> NET_SUCCESS then thenr (removeConn raw s n6) (\<lambda>(_, n7). ret (Inl NET_ERR_EPOLL, n7))
           else let (rcR, n7) = addToRecvSelector okR s n6 in
           if rcR \<noteq> NET_SUCCESS then thenr (removeConn raw s n7) (\<lambda>(_, n8). ret (Inl NET_ERR_EPOLL, n8))
           else thenr (upd_conn i acquire n7) (\<lambda>n8. ret (Inr i, n8))) = ret (r, net')"
        using get q True n1 n2 False by (auto simp: getConn_def thenr_ret simp del: thenr_simps)
      have n3': "net_ok {i} {} n3" "connMgr n3 = connMgr n2" "\<exists>c. conns n3 i = Some c \<and> mSock c = s"
        using ex upd_core_ok [OF b2(1) n3] by auto
      then have n4': "net_ok {i} {} n4" "connMgr n4 = connMgr n2" "\<exists>c. conns n4 i = Some c \<and> mSock c = s"
        using conn_onConnect_ok [OF n3'(1) n4] by auto
      show ?thesis by (rule register_tail [OF n4'(1,3) _ _ rest]) (use b2 n4'(2) in auto)
    qed
  qed
qed

lemma addConn_ok:
  assumes ok: "net_ok {i} {} net" and add: "addConn raw okS okR i ep s net = ret (rc, net')"
    and c0: "conns net i = Some c0" "0 \<le> s"
  shows "net_inv net'"
proof -
  obtain q n where q: "net_find s net = ret (q, n)" using add by (auto simp: addConn_def thenr_ret)
  have n: "net_ok {i} {} n" "connMgr n = connMgr net" "q = mgr_find s (connMgr net)" "\<And>j. q = Some j \<Longrightarrow> held n j"
    using net_find_ok [OF ok q] by auto
  show ?thesis
  proof (cases q)
    case (Some j)
    then obtain n1 n2 where n1: "net_release raw j n = ret n1" "net_cleanup raw ON_ERROR i n1 = ret n2" "net' = n2"
      using add q by (auto simp: addConn_def thenr_ret)
    have "net_ok {i} {} n1" using net_release_ok [OF n(1) n(4) [OF Some] n1(1)] by simp
    from building_cleanup [OF this _ n1(2)] n1(3) show ?thesis by simp
  next
    case None
    let ?f = "\<lambda>c. (setState CONN_READY (conn_setup s c))\<lparr>mPeerEp := ep\<rparr>"
    obtain n1 where n1: "upd_conn i ?f n = ret n1"
      and rest: "(let n2 = mgr_add ep s i n1; (rcR, n3) = addToRecvSelector okR s n2 in
         if rcR \<noteq> NET_SUCCESS then thenr (removeConn raw s n3) (\<lambda>(_, n4). ret (NET_ERR_EPOLL, n4))
         else let (rcS, n4) = addToSendSelector okS s n3 in
         if rcS \<noteq> NET_SUCCESS then thenr (removeConn raw s n4) (\<lambda>(_, n5). ret (NET_ERR_EPOLL, n5))
         else ret (NET_SUCCESS, n4)) = ret (rc, net')"
      using add q None by (auto simp: addConn_def thenr_ret simp del: thenr_simps)
    obtain c where c: "conns n i = Some c" "conns n1 = (conns n)(i \<mapsto> ?f c)" "connMgr n1 = connMgr n" "nextConn n1 = nextConn n"
      using n1 by (rule upd_connE)
    have n1': "net_ok {i} {} n1" by (rule building_upd [OF n(1) _ c]) (simp_all add: setState_def conn_setup_def)
    have cs: "conns n1 i = Some (?f c)" "mSock (?f c) = s" using c(2) by (simp_all add: setState_def conn_setup_def)
    define n2 where "n2 = mgr_add ep s i n1"
    from register_ok [OF n1' cs _ n2_def, of True] have n2: "net_inv n2" using None n c(3) c0(2) by simp
    then have rm: "removeConn raw s (n2\<lparr>sendSel := x, recvSel := y\<rparr>) = ret (rc', n') \<Longrightarrow> net_inv n'" 
        "removeConn raw s n2 = ret (rc', n') \<Longrightarrow> net_inv n'" "removeConn raw s (n2\<lparr>recvSel := y\<rparr>) = ret (rc', n') \<Longrightarrow> net_inv n'" for x y rc' n'
      using removeConn_ok [of "{}" "{}" "n2\<lparr>sendSel := x, recvSel := y\<rparr>" raw s rc' n'] removeConn_ok [of "{}" "{}" n2 raw s rc' n']
        removeConn_ok [of "{}" "{}" "n2\<lparr>recvSel := y\<rparr>" raw s rc' n'] by simp_all
    show ?thesis using rest n2 unfolding n2_def [symmetric]
      by (auto simp: Let_def thenr_ret addToSendSelector_def addToRecvSelector_def split: if_splits dest: rm)
  qed
qed

lemma delConn_ok:
  assumes ok: "net_inv net" and del: "delConn raw ep net = ret (rc, net')"
  shows "net_inv net'"
proof -
  obtain q n where q: "net_find_ep ep net = ret (q, n)" using del by (auto simp: delConn_def thenr_ret)
  have n: "net_inv n" "\<And>j. q = Some j \<Longrightarrow> held n j" using net_find_ep_ok [OF ok q] by auto
  show ?thesis
  proof (cases q)
    case (Some i)
    let ?rest = "\<lambda>n1. case conns n1 i of None \<Rightarrow> Some (Inl Dangling)
        | Some c \<Rightarrow> if freed c then Some (Inl Dangling)
            else thenr (removeConn raw (mSock c) n1) (\<lambda>(_, n2). ret (NET_SUCCESS, n2))"
    have "thenr (net_release raw i n) ?rest = ret (rc, net')" using del q Some by (simp add: delConn_def)
    then obtain n1 where n1: "net_release raw i n = ret n1" and rest: "?rest n1 = ret (rc, net')" unfolding thenr_ret by blast
    then have "\<exists>(c :: conn) rc'. removeConn raw (mSock c) n1 = ret (rc', net')"
      by (auto simp: thenr_ret split: option.splits if_splits)
    then obtain c :: conn and rc' where "removeConn raw (mSock c) n1 = ret (rc', net')" by blast
    note n1 = n1 this
    have "net_inv n1" using net_release_ok [OF n(1) n(2) [OF Some] n1(1)] by simp
    from removeConn_ok [OF this n1(2)] show ?thesis by simp
  qed (use del q n in \<open>auto simp: delConn_def\<close>)
qed

lemma accept_turn_ok:
  assumes ok: "net_inv net" and acc: "accept_turn raw dep okS okR ans net = ret (b, net')"
    and kernel: "\<And>s h. ans = Accepted s h \<Longrightarrow> fresh_sock net s"
  shows "net_inv net'"
proof (cases ans)
  case (Accepted s h)
  obtain i n1 where n1: "new_conn dep net = (i, n1)" by (cases "new_conn dep net")
  have "thenr (conn_onConnect i n1) (\<lambda>n2. thenr (addConn raw okS okR i (setHostName h dep) s n2) (\<lambda>(_, n3). ret (True, n3))) = ret (b, net')"
    using acc Accepted n1 by (simp add: accept_turn_def Let_def)
  then obtain n2 rc where n2: "conn_onConnect i n1 = ret n2" and add: "addConn raw okS okR i (setHostName h dep) s n2 = ret (rc, net')"
    by (auto simp: thenr_ret)
  obtain c where c: "net_ok {i} {} n1" "connMgr n1 = connMgr net" "conns n1 i = Some c"
    using new_conn_ok [OF ok n1] by blast
  from conn_onConnect_ok [OF c(1) n2 c(3) refl] c(2) obtain d where
    "net_ok {i} {} n2" "conns n2 i = Some d" by auto
  from addConn_ok [OF this(1) add this(2)] kernel [OF Accepted] show ?thesis by (simp add: fresh_sock_def)
next
  case AcceptNoFiles
  then show ?thesis using acc removeInactive_ok [OF ok] by (auto simp: accept_turn_def thenr_ret)
qed (use acc ok in \<open>auto simp: accept_turn_def\<close>)

section \<open>The threads\<close>

lemma use_ok:
  assumes "net_ok P N net" "on_conn i f net = ret (a, net')" "\<And>c w c' w'. f (c, w) = ret (a, c', w') \<Longrightarrow> core c' = core c"
  shows "net_ok P N net' \<and> connMgr net' = connMgr net \<and> (\<forall>j. held net j \<longrightarrow> held net' j)"
proof -
  obtain c c' w w' where c: "conns net i = Some c" "\<not> freed c" "f (c, w) = ret (a, c', w')"
    "conns net' = (conns net)(i \<mapsto> c')" "connMgr net' = connMgr net" "nextConn net' = nextConn net"
    using assms(2) by (rule on_connE)
  have "core c' = core c" by (rule assms(3) [OF c(3)])
  then show ?thesis using net_ok_core [OF assms(1) c(1,4-6)] c by (auto simp: held_def core_def)
qed

lemma q_push_ok [simp]: "net_ok P N (n\<lparr>sendQs := qs\<rparr>) = net_ok P N n" "held (n\<lparr>sendQs := qs\<rparr>) i = held n i"
  "held (n\<lparr>sendSel := x\<rparr>) i = held n i" "held (n\<lparr>recvSel := x\<rparr>) i = held n i"
  by (simp_all add: held_def)

lemma upd_use_ok:
  assumes "net_ok P N net" "upd_conn i f net = ret net'" "\<And>c. core (f c) = core c"
  shows "net_ok P N net' \<and> connMgr net' = connMgr net \<and> (\<forall>j. held net j \<longrightarrow> held net' j)"
proof -
  have "on_conn i (\<lambda>(c, w). ret ((), f c, w)) net = ret ((), net')" using assms(2) by (auto simp: upd_conn_def thenr_ret)
  from use_ok [OF assms(1) this] assms(3) show ?thesis by auto
qed

lemma sendData_ok:
  assumes ok: "net_inv net" and snd: "sendData raw fuel s net = ret net'"
  shows "net_inv net'"
proof -
  obtain q n where q: "net_find s net = ret (q, n)" using snd by (auto simp: sendData_def thenr_ret)
  note n = net_find_ok [OF ok q]
  show ?thesis
  proof (cases q)
    case (Some i)
    then obtain rc n1 where n1: "on_conn i (sendProgress fuel (io_cb raw)) n = ret (rc, n1)" "net_release raw i n1 = ret net'"
      using snd q by (auto simp: sendData_def thenr_ret)
    have "net_inv n1" "held n1 i" using use_ok [OF _ n1(1)] n Some sendProgress_core by blast+
    from net_release_ok [OF this n1(2)] show ?thesis by simp
  qed (use snd q n in \<open>auto simp: sendData_def\<close>)
qed

lemma recvData_ok:
  assumes ok: "net_inv net" and rcv: "recvData raw fuel okR s net = ret net'"
  shows "net_inv net'"
proof -
  obtain q n where q: "net_find s net = ret (q, n)" using rcv by (auto simp: recvData_def thenr_ret)
  note n = net_find_ok [OF ok q]
  show ?thesis
  proof (cases q)
    case (Some i)
    then obtain rc n1 n2 where n1: "on_conn i (recvProgress fuel (io_cb raw) True) n = ret (rc, n1)" "net_release raw i n1 = ret n2"
      and rest: "(if rc = CONN_READY then ret (snd (addToRecvSelector okR s n2))
         else if rc = CONN_ERR_BROKEN then thenr (removeConn raw s n2) (\<lambda>(_, n3). ret n3) else ret n2) = ret net'"
      using rcv q by (auto simp: recvData_def thenr_ret)
    have "net_inv n1" "held n1 i" using use_ok [OF _ n1(1)] n Some recvProgress_core by blast+
    then have "net_inv n2" using net_release_ok [OF _ _ n1(2)] by blast
    then show ?thesis using rest removeConn_ok [of "{}" "{}" n2]
      by (auto simp: addToRecvSelector_def thenr_ret split: if_splits)
  qed (use rcv q n in \<open>auto simp: recvData_def\<close>)
qed

text \<open>Giving back a reference and removing the connection, as the handlers of the epoll threads do.\<close>

lemma release_remove_ok:
  assumes "net_inv n" "held n i" "thenr (net_release raw i n) (\<lambda>n1. thenr (removeConn raw s n1) (\<lambda>(_, n2). ret n2)) = ret net'"
  shows "net_inv net'"
proof -
  obtain n1 rc where n1: "net_release raw i n = ret n1" "removeConn raw s n1 = ret (rc, net')"
    using assms(3) by (auto simp: thenr_ret)
  have "net_inv n1" using net_release_ok [OF assms(1,2) n1(1)] by simp
  from removeConn_ok [OF this n1(2)] show ?thesis by simp
qed

lemma prepareSend_ok:
  assumes "net_inv n" "prepareSend s ci n = ret net'"
  shows "net_inv net' \<and> (\<forall>j. held n j \<longrightarrow> held net' j)"
proof -
  let ?m = "case ci of None \<Rightarrow> ret n | Some i \<Rightarrow> upd_conn i (setReadyToSend True) n"
  obtain n1 qs where n1: "?m = ret n1" "net' = n1\<lparr>sendQs := qs\<rparr>"
    using assms(2) by (auto simp: prepareSend_def thenr_ret)
  have "net_inv n1 \<and> (\<forall>j. held n j \<longrightarrow> held n1 j)"
    using n1(1) assms(1) upd_use_ok [OF assms(1), of _ "setReadyToSend True" n1] by (cases ci) auto
  then show ?thesis using n1(2) by simp
qed

lemma send_event_ok:
  assumes ok: "net_inv net" and ev: "send_epoll_event raw hup err fd net = ret net'"
  shows "net_inv net'"
proof -
  obtain q n where q: "net_find fd net = ret (q, n)" using ev by (auto simp: send_epoll_event_def thenr_ret)
  note n = net_find_ok [OF ok q]
  show ?thesis
  proof (cases q)
    case (Some i)
    then have h: "held n i" "net_inv n" using n by auto
    then obtain c where c: "conns n i = Some c" by (auto simp: held_def)
    show ?thesis
    proof (cases "hup \<or> mConnState c = CONN_CONNECTING \<and> err")
      case True
      then have "thenr (net_release raw i n) (\<lambda>n1. thenr (removeConn raw fd n1) (\<lambda>(_, n2). ret n2)) = ret net'"
        using ev q Some c by (simp add: send_epoll_event_def split: if_splits)
      then show ?thesis by (rule release_remove_ok [OF h(2,1)])
    next
      case False
      let ?m = "if mConnState c = CONN_CONNECTING then upd_conn i (setState CONN_READY) n else ret n"
      have "thenr ?m (\<lambda>n1. thenr (prepareSend fd (Some i) n1) (net_release raw i)) = ret net'"
        using ev q Some c False by (auto simp: send_epoll_event_def)
      then obtain n1 n2 where n1: "?m = ret n1" "prepareSend fd (Some i) n1 = ret n2" "net_release raw i n2 = ret net'"
        unfolding thenr_ret by blast
      have "net_inv n1 \<and> held n1 i"
        using n1(1) h upd_use_ok [OF h(2), of i "setState CONN_READY" n1] by (auto split: if_splits)
      then have "net_inv n2 \<and> held n2 i" using prepareSend_ok [OF _ n1(2)] by blast
      then show ?thesis using net_release_ok [OF _ _ n1(3)] by blast
    qed
  qed (use ev q n in \<open>auto simp: send_epoll_event_def\<close>)
qed

lemma recv_event_ok:
  assumes ok: "net_inv net" and ev: "recv_epoll_event raw hup ls fd accept net = ret net'"
    and acc: "\<And>n'. accept net = ret n' \<Longrightarrow> net_inv n'"
  shows "net_inv net'"
proof (cases "hup \<and> fd \<noteq> ls")
  case True
  then obtain q n where q: "net_find fd net = ret (q, n)" using ev by (auto simp: recv_epoll_event_def thenr_ret)
  note n = net_find_ok [OF ok q]
  show ?thesis
  proof (cases q)
    case (Some i)
    then have h: "held n i" "net_inv n" using n by auto
    have "thenr (net_release raw i n) (\<lambda>n1. thenr (removeConn raw fd n1) (\<lambda>(_, n2). ret n2)) = ret net'"
      using ev q Some True by (simp add: recv_epoll_event_def)
    then show ?thesis by (rule release_remove_ok [OF h(2,1)])
  qed (use ev q n True in \<open>auto simp: recv_epoll_event_def\<close>)
next
  case False
  then show ?thesis using ev ok acc by (auto simp: recv_epoll_event_def prepareRecv_def thenr_ret split: if_splits)
qed

section \<open>The process\<close>

definition net_start :: "net \<Rightarrow> bool" where
  "net_start net \<longleftrightarrow> connMgr net = ConnMgr_new \<and> conns net = Map.empty"

text \<open>
  The steps: the calls of the clients (\<open>holder\<close> is anything the holder of a connection does with it
  that leaves its socket, its reference count and its end alone), the turns of the accept loop, of
  the epoll threads and of the data threads.
\<close>

inductive net_step :: "net \<Rightarrow> net \<Rightarrow> bool" where
  get: "getConn raw created answer okS okR ep sv sk net = ret (r, net') \<Longrightarrow>
    (\<And>s. created = Some s \<Longrightarrow> fresh_sock net s) \<Longrightarrow> (created = None \<Longrightarrow> \<not> okS) \<Longrightarrow> net_step net net'"
| give_back: "held net i \<Longrightarrow> net_release raw i net = ret net' \<Longrightarrow> net_step net net'"
| holder: "held net i \<Longrightarrow> on_conn i f net = ret (a :: conn_status, net') \<Longrightarrow>
    (\<And>c w c' w'. f (c, w) = ret (a, c', w') \<Longrightarrow> core c' = core c) \<Longrightarrow> net_step net net'"
| del: "delConn raw ep net = ret (rc, net') \<Longrightarrow> net_step net net'"
| remove: "removeConn raw s net = ret (rc, net') \<Longrightarrow> net_step net net'"
| inactive: "removeInactive raw net = ret (k, net') \<Longrightarrow> net_step net net'"
| accepts: "accept_turn raw dep okS okR ans net = ret (b, net') \<Longrightarrow>
    (\<And>s h. ans = Accepted s h \<Longrightarrow> fresh_sock net s) \<Longrightarrow> net_step net net'"
| send_event: "send_epoll_event raw hup err fd net = ret net' \<Longrightarrow> net_step net net'"
| recv_event: "recv_epoll_event raw hup ls fd (\<lambda>n. ret n) net = ret net' \<Longrightarrow> net_step net net'"
| sends: "sendData raw fuel s net = ret net' \<Longrightarrow> net_step net net'"
| recvs: "recvData raw fuel okR s net = ret net' \<Longrightarrow> net_step net net'"

interpretation network: machine net_start net_step net_inv
proof
  fix n assume "net_start n"
  then show "net_inv n" using mgr.new_ok by (simp add: net_start_def net_ok_def mgr_find_def ConnMgr_new_def)
next
  fix n n' assume ok: "net_inv n" and "net_step n n'"
  from this(2) show "net_inv n'"
  proof cases
    case (get raw created answer okS okR ep sv sk r)
    show ?thesis using getConn_ok [OF ok get(1)] get(2,3) by blast
  next
    case give_back
    then show ?thesis using net_release_ok [OF ok] by blast
  next
    case (holder i f a)
    show ?thesis using use_ok [OF ok holder(2)] holder(3) by blast
  next
    case remove
    then show ?thesis using removeConn_ok [OF ok] by simp
  next
    case recv_event
    then show ?thesis using recv_event_ok [OF ok] ok by blast
  next
    case accepts
    then show ?thesis using accept_turn_ok [OF ok] by blast
  next
    case del
    then show ?thesis by (rule delConn_ok [OF ok])
  next
    case inactive
    then show ?thesis by (rule removeInactive_ok [OF ok])
  next
    case send_event
    then show ?thesis by (rule send_event_ok [OF ok])
  next
    case sends
    then show ?thesis by (rule sendData_ok [OF ok])
  next
    case recvs
    then show ?thesis by (rule recvData_ok [OF ok])
  qed
qed

text \<open>C17: In every state the network layer can reach, a socket the manager registers is that of a live connection
  that nobody removes; a connection is deleted only when no reference to it is left, and as soon as it is removed
  and none is left; every other live connection is registered, so none is lost; no reference count is negative;
  and looking a socket up never touches a deleted connection.\<close>

theorem net_registration:
  assumes "network.reach n"
  shows "(\<forall>s i. mgr_find s (connMgr n) = Some i \<longrightarrow>
       0 \<le> s \<and> (\<exists>c. conns n i = Some c \<and> \<not> freed c \<and> \<not> mCleaning c \<and> mSock c = s)) \<and>
    (\<forall>i c. conns n i = Some c \<longrightarrow> 0 \<le> mRefCount c \<and> (freed c \<longrightarrow> mRefCount c = 0) \<and>
       (\<not> freed c \<longrightarrow> mCleaning c \<longrightarrow> 0 < mRefCount c) \<and>
       (\<not> freed c \<longrightarrow> \<not> mCleaning c \<longrightarrow> mgr_find (mSock c) (connMgr n) = Some i)) \<and>
    (\<forall>s. \<exists>n'. net_find s n = ret (mgr_find s (connMgr n), n'))"
proof -
  have inv: "net_inv n" using assms by (rule network.reach_inv)
  have "\<exists>n'. net_find s n = ret (mgr_find s (connMgr n), n')" for s
  proof (cases "mgr_find s (connMgr n)")
    case (Some i)
    from net_ok_find [OF inv Some] obtain c where "conns n i = Some c" "\<not> freed c" by blast
    then show ?thesis using Some by (simp add: net_find_def upd_conn_def on_conn_def)
  qed (simp add: net_find_def)
  then show ?thesis using inv by (auto simp: net_ok_def conn_ok_def split: if_splits)
qed

definition sample_net :: net where
  "sample_net = \<lparr>connMgr = ConnMgr_new, conns = Map.empty, nextConn = 0, socks = (\<lambda>_. \<lparr>si = [], so = [], sq = []\<rparr>),
     nw = sample_world [], sendSel = {}, recvSel = {}, sendQs = [[]], recvQs = [[]]\<rparr>"

definition sample_get :: "(net_status + conn_id) \<times> net" where
  "sample_get = (case getConn sample_rsp (Some 7) SOCK_SUCCESS True True sample_ep False (-1) sample_net of
     Some (Inr x) \<Rightarrow> x | _ \<Rightarrow> (Inl NET_SUCCESS, sample_net))"

lemmas net_eval = getConn_def net_find_ep_def mgr_find_ep_def new_conn_def Conn_new_def updateActSn_def on_conn_def load_sock_def
  conn_connect_def conn_setup_def upd_conn_def setState_def conn_onConnect_def onConnect_def prepareRecvHeader_def new_buf_def
  mgr_add_def mgr_insert_def addToSendSelector_def addToRecvSelector_def acquire_def ConnMgr_new_def Let_def set_insert_def
  IoVec_full_def postRecv_def mgr_find_def

lemma sample_get_eval:
  "getConn sample_rsp (Some 7) SOCK_SUCCESS True True sample_ep False (-1) sample_net = ret sample_get \<and>
   fst sample_get = Inr 0 \<and> mgr_find 7 (connMgr (snd sample_get)) = Some 0 \<and>
   (\<exists>c. conns (snd sample_get) 0 = Some c \<and> mRefCount c = 1)"
  unfolding sample_get_def by (simp add: net_eval sample_net_def)

lemma sample_reach: "network.reach (snd sample_get)"
proof (rule network.reach_step)
  show "network.reach sample_net" by (rule network.reach_start) (simp add: net_start_def sample_net_def)
  have "getConn sample_rsp (Some 7) SOCK_SUCCESS True True sample_ep False (-1) sample_net = ret (Inr 0, snd sample_get)"
    using sample_get_eval by (metis prod.collapse)
  then show "net_step sample_net (snd sample_get)"
    by (rule net_step.get) (simp_all add: fresh_sock_def mgr_find_def sample_net_def ConnMgr_new_def)
qed

theorem net_registration_witness:
  "mgr_find 7 (connMgr (snd sample_get)) = Some 0 \<and> (\<exists>c. conns (snd sample_get) 0 = Some c \<and> \<not> freed c \<and> mSock c = 7)"
  using net_registration [OF sample_reach] sample_get_eval by blast

end
