(* ===== verification/NetLife.thy ===== *)
theory NetLife
  imports NetInv
begin

text \<open>
  The end of a connection with references, and the order in which a data thread serves the
  sockets of its queue.
\<close>

section \<open>The last reference\<close>

fun releases :: "response \<Rightarrow> conn_id \<Rightarrow> nat \<Rightarrow> net \<Rightarrow> net res" where
  "releases raw i 0 net = ret net"
| "releases raw i (Suc k) net = thenr (net_release raw i net) (releases raw i k)"

lemma net_release_conn:
  assumes "net_release raw i net = ret net'" "conns net i = Some c" "freed c \<longleftrightarrow> mRefCount c = 0" "mCleaning c" "0 \<le> mRefCount c"
  shows "0 < mRefCount c \<and> connMgr net' = connMgr net \<and> (\<exists>c'. conns net' i = Some c' \<and> mRefCount c' = mRefCount c - 1 \<and> mCleaning c' \<and>
    (freed c' \<longleftrightarrow> mRefCount c' = 0))"
proof -
  obtain d c' w w' where c: "conns net i = Some d" "\<not> freed d" "conn_release (io_cb raw) onDisconnect (d, w) = Inr (c', w')"
      "conns net' = (conns net)(i \<mapsto> c')" "connMgr net' = connMgr net"
    using assms(1) by (auto simp: net_release_def thenr_ret elim!: on_connE and_thenE)
  have "d = c" using c(1) assms(2) by simp
  with conn_release_effect [OF c(3)] c assms(3-5) show ?thesis by (auto split: if_splits)
qed

lemma releases_conn:
  assumes "releases raw i k net = ret net'" "conns net i = Some c" "freed c \<longleftrightarrow> mRefCount c = 0" "mCleaning c" "0 \<le> mRefCount c"
  shows "int k \<le> mRefCount c \<and> connMgr net' = connMgr net \<and> (\<exists>c'. conns net' i = Some c' \<and> mRefCount c' = mRefCount c - int k \<and>
    (freed c' \<longleftrightarrow> mRefCount c' = 0))"
  using assms
proof (induction k arbitrary: net c)
  case (Suc k)
  obtain n1 where n1: "net_release raw i net = ret n1" "releases raw i k n1 = ret net'"
    using Suc.prems(1) by (auto simp: thenr_ret)
  from net_release_conn [OF n1(1) Suc.prems(2-5)] obtain c1 where c1: "0 < mRefCount c" "connMgr n1 = connMgr net" "conns n1 i = Some c1"
      "mRefCount c1 = mRefCount c - 1" "mCleaning c1" "freed c1 \<longleftrightarrow> mRefCount c1 = 0" by blast
  from Suc.IH [OF n1(2) c1(3,6,5)] c1 show ?case by auto
qed auto

lemma removeConn_conn:
  assumes "net_inv net" "mgr_find s (connMgr net) = Some i" "conns net i = Some c" "removeConn raw s net = ret (rc, net')"
  shows "rc = NET_SUCCESS \<and> mgr_find s (connMgr net') = None \<and>
    (\<exists>c'. conns net' i = Some c' \<and> mCleaning c' \<and> mRefCount c' = mRefCount c \<and> (freed c' \<longleftrightarrow> mRefCount c' = 0))"
proof -
  obtain mrc r m where m: "mgr_remove s (connMgr net) = (mrc, r, m)" by (cases "mgr_remove s (connMgr net)") auto
  have mi: "mgr_inv (connMgr net)" using assms(1) by (simp add: net_ok_def)
  have r: "r = Some i" using mgr_remove_find(2) [OF mi m] assms(2) by simp
  then obtain n1 where n1: "net_cleanup raw ON_ERROR i net = ret n1" "net' = n1\<lparr>connMgr := m\<rparr>"
    using assms(4) m by (auto simp: removeConn_def thenr_ret)
  obtain d c' where c: "conns net i = Some d" "\<not> freed d" "conns n1 = (conns net)(i \<mapsto> c')"
      "mCleaning c'" "mRefCount c' = mRefCount d" "freed c' \<longleftrightarrow> \<not> 0 < mRefCount d"
    using n1(1) by (rule net_cleanup_effect)
  have "0 \<le> mRefCount d" using net_okD [OF assms(1) c(1)] by (simp add: conn_ok_def)
  then show ?thesis using removeConn_ok [OF assms(1,4)] assms(2,3) c n1(2) by auto
qed

text \<open>C18: A connection that is removed while it is in use stays until it is given back as often as it was taken:
  it is unregistered at once, it is deleted exactly by the last of its references, and no release touches it
  after that.\<close>

theorem last_release_deletes:
  assumes "network.reach net" "mgr_find s (connMgr net) = Some i" "conns net i = Some c"
    and "removeConn raw s net = ret (rc, n0)" "releases raw i k n0 = ret n1"
  shows "rc = NET_SUCCESS \<and> mgr_find s (connMgr n1) = None \<and> int k \<le> mRefCount c \<and>
    (\<exists>c'. conns n1 i = Some c' \<and> (freed c' \<longleftrightarrow> int k = mRefCount c))"
proof -
  have inv: "net_inv net" using assms(1) by (rule network.reach_inv)
  from removeConn_conn [OF inv assms(2-4)] obtain c0 where c0: "rc = NET_SUCCESS" "mgr_find s (connMgr n0) = None"
      "conns n0 i = Some c0" "mCleaning c0" "mRefCount c0 = mRefCount c" "freed c0 \<longleftrightarrow> mRefCount c0 = 0" by blast
  have "0 \<le> mRefCount c" using net_okD [OF inv assms(3)] by (simp add: conn_ok_def)
  then show ?thesis using releases_conn [OF assms(5) c0(3,6,4)] c0 by auto
qed

definition sample_removed :: net where
  "sample_removed = (case removeConn sample_rsp 7 (snd sample_get) of Some (Inr (_, n)) \<Rightarrow> n | _ \<Rightarrow> sample_net)"

definition sample_released :: net where
  "sample_released = (case releases sample_rsp 0 1 sample_removed of Some (Inr n) \<Rightarrow> n | _ \<Rightarrow> sample_net)"

lemma sample_removed_eval: "removeConn sample_rsp 7 (snd sample_get) = ret (NET_SUCCESS, sample_removed)"
  unfolding sample_removed_def sample_get_def
  by (simp add: net_eval sample_net_def removeConn_def mgr_remove_def net_cleanup_def conn_cleanup_def)

lemmas cleanup_eval = net_release_def conn_release_def conn_cleanup_def cleanupVec_def run_cb_def io_cb_def recvCallback_def recvErrCb_def
  iov_cleanup_def delete_buf_def onDisconnect_def cbp_of_def upd_cbp_def

lemma sample_released_eval: "releases sample_rsp 0 1 sample_removed = ret sample_released"
  unfolding sample_released_def sample_removed_def sample_get_def
  by (simp add: net_eval sample_net_def removeConn_def mgr_remove_def net_cleanup_def cleanup_eval sample_world_def cb_param_zero_def)

theorem last_release_deletes_witness:
  "\<exists>c'. conns sample_released 0 = Some c' \<and> freed c'"
proof -
  obtain c where c: "conns (snd sample_get) 0 = Some c" "mRefCount c = 1" "mgr_find 7 (connMgr (snd sample_get)) = Some 0"
    using sample_get_eval by blast
  show ?thesis
    using last_release_deletes [OF sample_reach c(3,1) sample_removed_eval sample_released_eval] c(2) by auto
qed

section \<open>The order of service\<close>

text \<open>Serving the sockets of a list, one after the other.\<close>

fun serve_all :: "(int \<Rightarrow> 's \<Rightarrow> 's res) \<Rightarrow> int list \<Rightarrow> 's \<Rightarrow> 's res" where
  "serve_all serve [] st = ret st"
| "serve_all serve (s # ss) st = thenr (serve s st) (serve_all serve ss)"

lemma thenr_assoc: "thenr (thenr m f) g = thenr m (\<lambda>x. thenr (f x) g)"
  by (auto simp: thenr_def split: option.split sum.split)

lemma remdups_adj_run: "remdups_adj (s # q) = s # remdups_adj (dropWhile (\<lambda>x. s = x) q)"
  by (induction q) auto

lemma takeWhile_run: "(0 :: int) \<le> s \<Longrightarrow> takeWhile (\<lambda>x. 0 \<le> x) (dropWhile (\<lambda>x. s = x) q) = dropWhile (\<lambda>x. s = x) (takeWhile (\<lambda>x. 0 \<le> x) q)"
  by (induction q) auto

lemma quit_run: "(0 :: int) \<le> s \<Longrightarrow> (\<exists>x \<in> set (dropWhile (\<lambda>x. s = x) q). x < 0) \<longleftrightarrow> (\<exists>x \<in> set q. x < 0)"
  by (induction q) auto

text \<open>C20: A data thread serves the sockets of its queue in the order they were put there, a run of equal entries once,
  up to the first negative entry, which ends it; the entries behind that are dropped.\<close>

theorem handlingData_equiv:
  "handlingData serve q st = thenr (serve_all serve (remdups_adj (takeWhile (\<lambda>s. 0 \<le> s) q)) st)
     (\<lambda>st'. ret (\<exists>s \<in> set q. s < 0, st'))"
proof (induction serve q st rule: handlingData.induct)
  case (2 serve s q st)
  show ?case
  proof (cases "s < 0")
    case False
    have "handlingData serve (s # q) st = thenr (serve s st) (handlingData serve (dropWhile (\<lambda>x. s = x) q))" using False by simp
    also have "\<dots> = thenr (serve s st) (\<lambda>st1. thenr (serve_all serve (remdups_adj (dropWhile (\<lambda>x. s = x) (takeWhile (\<lambda>s. 0 \<le> s) q))) st1)
        (\<lambda>st'. ret (\<exists>s \<in> set q. s < 0, st')))"
    proof (cases "serve s st")
      case (Some r)
      then show ?thesis using 2 False takeWhile_run [of s q] quit_run [of s q] by (cases r) (simp_all add: fun_eq_iff)
    qed simp
    finally show ?thesis using False by (simp add: thenr_assoc remdups_adj_run del: remdups_adj.simps)
  qed simp
qed simp

end
