(* ===== verification/ConnRsp.thy ===== *)
theory ConnRsp
  imports ConnSend
begin

text \<open>
  The responses a connection receives: each completes the request that waits for it under its
  identifier, once, with its status; a response nobody waits for is skipped.
\<close>

section \<open>The turn of a response\<close>

definition answered_event :: "response \<Rightarrow> comm_event \<Rightarrow> comm_event" where
  "answered_event r e = e\<lparr>response := (response e)\<lparr>msg := Some (MRsp r)\<rparr>, status := mStatus r\<rparr>"

text \<open>A message vector of which all bytes have come.\<close>

definition awaits_message :: "addr \<Rightarrow> nat \<Rightarrow> cb_param \<Rightarrow> cst \<Rightarrow> bool" where
  "awaits_message b n p = (\<lambda>(c, w). mCurRecvBlock c = Some (IoVec_full b n RecvCb RecvParam SYS_ALLOC) \<and>
     mNextRecvPart c = MESSAGE \<and> mRecvQ c = [] \<and> \<not> mCleaning c \<and> mRecvCb c = Some p \<and> cbCs p \<and> cbCev p = None \<and>
     attLen p = 0 \<and> fileLen p = 0 \<and> 0 < b \<and> b < nextp w \<and> heap w b = Some (replicate n NUL))"

lemma message_filled:
  assumes "awaits_message b (length m) p (c, w)" "data_only (sin w)" "stream (sin w) = m @ ys"
  obtains q where "data_only q" "stream q = ys"
    and "recvvecProgress (io_cb raw) (c\<lparr>mReadyRecv := True\<rparr>, w) =
      and_then (run_cb (io_cb raw) ((IoVec_full b (length m) RecvCb RecvParam SYS_ALLOC)\<lparr>xferred := length m\<rparr>) DONE
         (c\<lparr>mReadyRecv := True, mCurRecvBlock := None\<rparr>, w\<lparr>sin := q, heap := (heap w)(b := Some m)\<rparr>)) (\<lambda>s. Inr (C_SUCCESS, s))"
proof -
  let ?v = "IoVec_full b (length m) RecvCb RecvParam SYS_ALLOC"
  have a: "mCurRecvBlock c = Some ?v" "\<not> mCleaning c" "heap w b = Some (replicate (length m) NUL)"
    using assms(1) by (simp_all add: awaits_message_def)
  have hb: "heap w (base ?v) = Some (replicate (length m) NUL)" "vsize ?v \<le> length (replicate (length m) NUL)"
    "xferred ?v + length m = vsize ?v"
    using a(3) by (simp_all add: IoVec_full_def)
  obtain q where "data_only q" "stream q = ys"
    and "recvvecProgress (io_cb raw) (c\<lparr>mReadyRecv := True\<rparr>, w) =
      and_then (run_cb (io_cb raw) (?v\<lparr>xferred := length m\<rparr>) DONE
         (c\<lparr>mReadyRecv := True, mCurRecvBlock := None\<rparr>, w\<lparr>sin := q, heap := (heap w)(b := Some m)\<rparr>)) (\<lambda>s. Inr (C_SUCCESS, s))"
    using recvvec_done [OF a(1,2) assms(2,3) hb, of "io_cb raw"] by (auto simp: IoVec_full_def poke_full)
  then show thesis by (rule that)
qed

lemmas message_turn_defs = run_cb_def io_cb_def header_vec_def IoVec_full_def recvCallback_def recvMessageCb_def
  mem_read_def peek_def repostIoVec_def free_base_def delete_buf_def new_buf_def setNextRecv_def postRecv_def
  upd_cbp_def cbp_of_def iov_reset_def

lemma response_turn:
  assumes "awaits_message b (length m) p (c, w)" "data_only (sin w)" "stream (sin w) = m @ ys"
    and "deserializer w m = Some (MRsp r)" "map_of (mSendEventMap c) (ucast (mId r)) = Some i" "cevs w i = Some e" "\<not> serverGen e"
  obtains q where "data_only q" "stream q = ys"
    and "turns 1 raw (c, w)
      (c\<lparr>mReadyRecv := True, mNextRecvPart := HEADER, msgIn := msgIn c + 1, mRecvCb := Some (p\<lparr>reqId := ucast (mId r)\<rparr>),
         mSendEventMap := filter (\<lambda>x. fst x \<noteq> ucast (mId r)) (mSendEventMap c),
         mCurRecvBlock := Some (header_vec (nextp w)), mRecvQ := []\<rparr>,
       w\<lparr>sin := q, cevs := (cevs w)(i := Some (answered_event r e)), completed := completed w @ [(i, mStatus r)],
         heap := (heap w)(b := None, nextp w := Some (replicate HDR_LEN NUL)), nextp := nextp w + 1\<rparr>)"
proof -
  obtain q where q: "data_only q" "stream q = ys"
    and fill: "recvvecProgress (io_cb raw) (c\<lparr>mReadyRecv := True\<rparr>, w) =
      and_then (run_cb (io_cb raw) ((IoVec_full b (length m) RecvCb RecvParam SYS_ALLOC)\<lparr>xferred := length m\<rparr>) DONE
         (c\<lparr>mReadyRecv := True, mCurRecvBlock := None\<rparr>, w\<lparr>sin := q, heap := (heap w)(b := Some m)\<rparr>)) (\<lambda>s. Inr (C_SUCCESS, s))"
    by (rule message_filled [OF assms(1-3)])
  let ?em = "filter (\<lambda>x. fst x \<noteq> ucast (mId r)) (mSendEventMap c)"
  define c1 where "c1 = c\<lparr>mReadyRecv := True, mNextRecvPart := HEADER, msgIn := msgIn c + 1,
     mRecvCb := Some (p\<lparr>reqId := ucast (mId r)\<rparr>), mSendEventMap := ?em, mCurRecvBlock := None, mRecvQ := [header_vec (nextp w)]\<rparr>"
  define w1 where "w1 = w\<lparr>sin := q, cevs := (cevs w)(i := Some (answered_event r e)), completed := completed w @ [(i, mStatus r)],
         heap := (heap w)(b := None, nextp w := Some (replicate HDR_LEN NUL)), nextp := nextp w + 1\<rparr>"
  have a: "mNextRecvPart c = MESSAGE" "mRecvQ c = []" "mRecvCb c = Some p" "cbCs p" "cbCev p = None" "attLen p = 0"
    "fileLen p = 0" "0 < b" "b < nextp w"
    using assms(1) by (simp_all add: awaits_message_def)
  have pn: "p\<lparr>cbCev := None, reqId := x\<rparr> = p\<lparr>reqId := x\<rparr>" for x using a(5) by simp
  have st: "(if mStatus r = VERSION_MISMATCH \<or> mStatus r = MALFORMED_MESSAGE then mStatus r
      else if status e = PENDING then CEV_SUCCESS else status e) \<noteq> PENDING"
    by (auto simp: cev_status_defs)
  have r: "recvvecProgress (io_cb raw) (c\<lparr>mReadyRecv := True\<rparr>, w) = Inr (C_SUCCESS, c1, w1)"
    unfolding fill using a assms(4-7) pn st
    by (simp add: message_turn_defs recvRspMsg_def getAndRmEvent_def removeEventEntry_def checkEventReady_def eventDone_cb_def
        completeEvent_def setStatus_def upd_cev_def cev_done_def getStatus_def messageIn_def answered_event_def c1_def w1_def Let_def)
  show thesis
    by (rule that [OF q]) (use turns_one [OF r] a(2) in \<open>simp add: c1_def w1_def\<close>)
qed

text \<open>A response without a request behind it.\<close>

lemma stray_turn:
  assumes "awaits_message b (length m) p (c, w)" "data_only (sin w)" "stream (sin w) = m @ ys"
    and "deserializer w m = Some (MRsp r)" "map_of (mSendEventMap c) (ucast (mId r)) = None"
  obtains q where "data_only q" "stream q = ys"
    and "turns 1 raw (c, w)
      (c\<lparr>mReadyRecv := True, mNextRecvPart := HEADER, mRecvCb := Some (p\<lparr>drainLen := 0\<rparr>),
         mCurRecvBlock := Some (header_vec (nextp w)), mRecvQ := []\<rparr>,
       w\<lparr>sin := q, heap := (heap w)(b := None, nextp w := Some (replicate HDR_LEN NUL)), nextp := nextp w + 1\<rparr>)"
proof -
  obtain q where q: "data_only q" "stream q = ys"
    and fill: "recvvecProgress (io_cb raw) (c\<lparr>mReadyRecv := True\<rparr>, w) =
      and_then (run_cb (io_cb raw) ((IoVec_full b (length m) RecvCb RecvParam SYS_ALLOC)\<lparr>xferred := length m\<rparr>) DONE
         (c\<lparr>mReadyRecv := True, mCurRecvBlock := None\<rparr>, w\<lparr>sin := q, heap := (heap w)(b := Some m)\<rparr>)) (\<lambda>s. Inr (C_SUCCESS, s))"
    by (rule message_filled [OF assms(1-3)])
  define c1 where "c1 = c\<lparr>mReadyRecv := True, mNextRecvPart := HEADER, mRecvCb := Some (p\<lparr>drainLen := 0\<rparr>),
     mCurRecvBlock := None, mRecvQ := [header_vec (nextp w)]\<rparr>"
  define w1 where "w1 = w\<lparr>sin := q, heap := (heap w)(b := None, nextp w := Some (replicate HDR_LEN NUL)), nextp := nextp w + 1\<rparr>"
  have a: "mNextRecvPart c = MESSAGE" "mRecvQ c = []" "mRecvCb c = Some p" "cbCs p" "cbCev p = None" "attLen p = 0"
    "fileLen p = 0" "0 < b" "b < nextp w"
    using assms(1) by (simp_all add: awaits_message_def)
  have pn: "p\<lparr>cbCev := None\<rparr> = p" "p\<lparr>cbCev := None, drainLen := 0\<rparr> = p\<lparr>drainLen := 0\<rparr>" using a(5) by simp_all
  have r: "recvvecProgress (io_cb raw) (c\<lparr>mReadyRecv := True\<rparr>, w) = Inr (C_SUCCESS, c1, w1)"
    unfolding fill using a assms(4,5) pn
    by (simp add: message_turn_defs recvRspMsg_def getAndRmEvent_def prepare2Drain_def recvErrCb_def c1_def w1_def Let_def)
  show thesis
    by (rule that [OF q]) (use turns_one [OF r] a(2) in \<open>simp add: c1_def w1_def\<close>)
qed

section \<open>A stream of responses\<close>

text \<open>The reference: what the requests in the table \<open>em\<close> are completed with, and the table that is left.\<close>

fun answered :: "(u32 \<times> cev_id) list \<Rightarrow> response list \<Rightarrow> (cev_id \<times> cev_status) list \<times> (u32 \<times> cev_id) list" where
  "answered em [] = ([], em)"
| "answered em (r # rs) = (case map_of em (ucast (mId r)) of
      None \<Rightarrow> answered em rs
    | Some i \<Rightarrow> let (d, em') = answered (filter (\<lambda>x. fst x \<noteq> ucast (mId r)) em) rs in ((i, mStatus r) # d, em'))"

definition waiting_ok :: "(u32 \<times> cev_id) list \<Rightarrow> rpc_world \<Rightarrow> bool" where
  "waiting_ok em w \<longleftrightarrow> (\<forall>i \<in> snd ` set em. \<exists>e. cevs w i = Some e \<and> \<not> serverGen e)"

text \<open>What a run that received the responses \<open>rs\<close> has done.\<close>

definition matched :: "(u32 \<times> cev_id) list \<Rightarrow> response list \<Rightarrow> rpc_world \<Rightarrow> conn \<Rightarrow> rpc_world \<Rightarrow> bool" where
  "matched em rs w c' w' \<longleftrightarrow> completed w' = completed w @ fst (answered em rs) \<and> mSendEventMap c' = snd (answered em rs) \<and>
     inbox w' = inbox w \<and> sout w' = sout w \<and>
     (\<forall>i. i \<notin> fst ` set (fst (answered em rs)) \<longrightarrow> cevs w' i = cevs w i) \<and>
     (\<forall>i \<in> fst ` set (fst (answered em rs)). \<exists>e r. cevs w' i = Some (answered_event r e) \<and> r \<in> set rs \<and>
        (i, mStatus r) \<in> set (fst (answered em rs)))"

lemma matched_Nil: "matched em [] w c' w' \<longleftrightarrow> completed w' = completed w \<and> mSendEventMap c' = em \<and> inbox w' = inbox w \<and>
    sout w' = sout w \<and> cevs w' = cevs w"
  by (auto simp: matched_def)

lemma matched_skip:
  assumes "map_of em (ucast (mId r)) = None" "matched em rs w1 c' w'"
    and "completed w1 = completed w" "inbox w1 = inbox w" "sout w1 = sout w" "cevs w1 = cevs w"
  shows "matched em (r # rs) w c' w'"
  using assms(2) unfolding matched_def answered.simps assms(1,3-6) option.case
  by (meson list.set_intros(2))

lemma matched_hit:
  assumes "map_of em (ucast (mId r)) = Some i" "matched (filter (\<lambda>x. fst x \<noteq> ucast (mId r)) em) rs w1 c' w'"
    and "completed w1 = completed w @ [(i, mStatus r)]" "inbox w1 = inbox w" "sout w1 = sout w"
      "cevs w1 = (cevs w)(i := Some (answered_event r e))"
  shows "matched em (r # rs) w c' w'"
proof -
  obtain d em' where a: "answered (filter (\<lambda>x. fst x \<noteq> ucast (mId r)) em) rs = (d, em')" by fastforce
  have a': "answered em (r # rs) = ((i, mStatus r) # d, em')" using assms(1) a by simp
  have m: "completed w' = completed w1 @ d" "mSendEventMap c' = em'" "inbox w' = inbox w1" "sout w' = sout w1"
      "\<And>j. j \<notin> fst ` set d \<Longrightarrow> cevs w' j = cevs w1 j"
      "\<And>j. j \<in> fst ` set d \<Longrightarrow> \<exists>e r. cevs w' j = Some (answered_event r e) \<and> r \<in> set rs \<and> (j, mStatus r) \<in> set d"
    using assms(2) unfolding matched_def a by auto
  have "\<exists>e ra. cevs w' j = Some (answered_event ra e) \<and> ra \<in> set (r # rs) \<and> (j, mStatus ra) \<in> set ((i, mStatus r) # d)"
    if "j \<in> fst ` set ((i, mStatus r) # d)" for j
  proof (cases "j \<in> fst ` set d")
    case True
    then show ?thesis using m(6) by (meson list.set_intros(2))
  next
    case False
    then have "j = i" using that by simp
    then show ?thesis using m(5) [OF False] assms(6) by auto
  qed
  then show ?thesis unfolding matched_def a' using m(1-5) assms(3-6) by auto
qed

lemma header_then_message:
  assumes "idle_recv (c, w)" "data_only (sin w)" "stream (sin w) = frame m @ ys" "length m < 2 ^ 64"
  obtains c1 w1 b p where "turns 1 raw (c, w) (c1, w1)" "awaits_message b (length m) p (c1, w1)" "data_only (sin w1)"
    "stream (sin w1) = m @ ys" "mSendEventMap c1 = mSendEventMap c" "completed w1 = completed w" "cevs w1 = cevs w"
    "inbox w1 = inbox w" "sout w1 = sout w" "deserializer w1 = deserializer w"
proof -
  obtain b buf where b: "mCurRecvBlock c = Some (header_vec b)" "0 < b" "b < nextp w" and c: "mRecvQ c = []" "\<not> mCleaning c"
    using assms(1) by (auto simp: idle_recv_def awaits_header_def)
  have s1: "stream (sin w) = header_bytes (rpc_header (length m) 0 0) @ (m @ ys)" using assms(3) by (simp add: frame_def)
  obtain q p where h: "data_only q" "stream q = m @ ys"
    and ht: "turns 1 raw (c, w)
      (c\<lparr>mReadyRecv := True, mNextRecvPart := MESSAGE, mRecvCb := Some p,
         mCurRecvBlock := Some (IoVec_full (nextp w) (length m) RecvCb RecvParam SYS_ALLOC), mRecvQ := []\<rparr>,
       w\<lparr>sin := q, heap := (heap w)(base (the (mCurRecvBlock c)) := None, nextp w := Some (replicate (length m) NUL)),
         nextp := nextp w + 1\<rparr>)"
    and p: "cbCs p" "cbCev p = None" "attLen p = ucast (of_nat 0 :: u64)" "fileLen p = 0"
    by (rule header_turn [OF assms(1,2) s1 assms(4), of raw])
  show thesis
    by (rule that [OF ht, of "nextp w" p]) (use b c h p in \<open>simp_all add: awaits_message_def\<close>)
qed

lemma idle_recvI:
  "awaits_header c \<Longrightarrow> mCurRecvBlock c = Some (header_vec b) \<Longrightarrow> 0 < b \<Longrightarrow> b < nextp w \<Longrightarrow>
     heap w b = Some (replicate HDR_LEN NUL) \<Longrightarrow> idle_recv (c, w)"
  unfolding idle_recv_def prod.case by (metis length_replicate)

lemma message_then_header:
  assumes "awaits_message b n p (c1, w1)"
  shows "idle_recv (c1\<lparr>mReadyRecv := True, mNextRecvPart := HEADER, msgIn := k, mRecvCb := Some (p\<lparr>reqId := x\<rparr>),
      mSendEventMap := em, mCurRecvBlock := Some (header_vec (nextp w1)), mRecvQ := []\<rparr>,
    w1\<lparr>sin := q, cevs := ce, completed := co, heap := (heap w1)(b := None, nextp w1 := Some (replicate HDR_LEN NUL)), nextp := nextp w1 + 1\<rparr>)"
   and "idle_recv (c1\<lparr>mReadyRecv := True, mNextRecvPart := HEADER, mRecvCb := Some (p\<lparr>drainLen := y\<rparr>),
      mCurRecvBlock := Some (header_vec (nextp w1)), mRecvQ := []\<rparr>,
    w1\<lparr>sin := q, heap := (heap w1)(b := None, nextp w1 := Some (replicate HDR_LEN NUL)), nextp := nextp w1 + 1\<rparr>)"
  using assms by (auto intro!: idle_recvI [of _ "nextp w1"] simp: awaits_header_def awaits_message_def)

lemma response_turns:
  assumes "idle_recv (c, w)" "data_only (sin w)" "stream (sin w) = frame m @ ys" "length m < 2 ^ 64"
    and "deserializer w m = Some (MRsp r)" "waiting_ok (mSendEventMap c) w"
  obtains c' w' where "turns 2 raw (c, w) (c', w')" "idle_recv (c', w')" "data_only (sin w')" "stream (sin w') = ys"
    "waiting_ok (mSendEventMap c') w'" "deserializer w' = deserializer w"
    "\<And>rs d v. matched (mSendEventMap c') rs w' d v \<Longrightarrow> matched (mSendEventMap c) (r # rs) w d v"
proof -
  obtain c1 w1 b p where h: "turns 1 raw (c, w) (c1, w1)" "awaits_message b (length m) p (c1, w1)" "data_only (sin w1)"
    "stream (sin w1) = m @ ys" "mSendEventMap c1 = mSendEventMap c" "completed w1 = completed w" "cevs w1 = cevs w"
    "inbox w1 = inbox w" "sout w1 = sout w" "deserializer w1 = deserializer w"
    by (rule header_then_message [OF assms(1-4)])
  have d: "deserializer w1 m = Some (MRsp r)" using h(10) assms(5) by simp
  show thesis
  proof (cases "map_of (mSendEventMap c) (ucast (mId r))")
    case None
    have n: "map_of (mSendEventMap c1) (ucast (mId r)) = None" using None h(5) by simp
    obtain q where q: "data_only q" "stream q = ys" and t: "turns 1 raw (c1, w1)
      (c1\<lparr>mReadyRecv := True, mNextRecvPart := HEADER, mRecvCb := Some (p\<lparr>drainLen := 0\<rparr>),
         mCurRecvBlock := Some (header_vec (nextp w1)), mRecvQ := []\<rparr>,
       w1\<lparr>sin := q, heap := (heap w1)(b := None, nextp w1 := Some (replicate HDR_LEN NUL)), nextp := nextp w1 + 1\<rparr>)"
      by (rule stray_turn [OF h(2-4) d n])
    show thesis
      by (rule that [OF turns_trans [OF h(1) t, simplified one_add_one] message_then_header(2) [OF h(2)]])
        (use q h assms(6) matched_skip [OF None] in \<open>auto simp: waiting_ok_def\<close>)
  next
    case (Some i)
    have hit: "map_of (mSendEventMap c1) (ucast (mId r)) = Some i" using Some h(5) by simp
    have "i \<in> snd ` set (mSendEventMap c)" using map_of_SomeD [OF Some] by force
    then obtain e where e: "cevs w1 i = Some e" "\<not> serverGen e" using assms(6) h(7) by (auto simp: waiting_ok_def)
    let ?em = "filter (\<lambda>x. fst x \<noteq> ucast (mId r)) (mSendEventMap c1)"
    obtain q where q: "data_only q" "stream q = ys" and t: "turns 1 raw (c1, w1)
      (c1\<lparr>mReadyRecv := True, mNextRecvPart := HEADER, msgIn := msgIn c1 + 1, mRecvCb := Some (p\<lparr>reqId := ucast (mId r)\<rparr>),
         mSendEventMap := ?em, mCurRecvBlock := Some (header_vec (nextp w1)), mRecvQ := []\<rparr>,
       w1\<lparr>sin := q, cevs := (cevs w1)(i := Some (answered_event r e)), completed := completed w1 @ [(i, mStatus r)],
         heap := (heap w1)(b := None, nextp w1 := Some (replicate HDR_LEN NUL)), nextp := nextp w1 + 1\<rparr>)"
      by (rule response_turn [OF h(2-4) d hit e])
    let ?w2 = "w1\<lparr>sin := q, cevs := (cevs w1)(i := Some (answered_event r e)), completed := completed w1 @ [(i, mStatus r)],
         heap := (heap w1)(b := None, nextp w1 := Some (replicate HDR_LEN NUL)), nextp := nextp w1 + 1\<rparr>"
    have ok: "waiting_ok ?em ?w2" using assms(6) h(5,7) e by (auto simp: waiting_ok_def answered_event_def)
    have step: "matched (mSendEventMap c) (r # rs) w dd v" if "matched ?em rs ?w2 dd v" for rs dd v
      by (rule matched_hit [OF Some, of rs ?w2 dd v w e]) (use that h(5-9) in simp_all)
    show thesis
      by (rule that [OF turns_trans [OF h(1) t, simplified one_add_one] message_then_header(1) [OF h(2)]])
        (use q h ok step in simp_all)
  qed
qed

lemma responses_loop:
  assumes "idle_recv (c, w)" "data_only (sin w)" "stream (sin w) = concat (map frame ms)"
    and "\<forall>m \<in> set ms. length m < 2 ^ 64 \<and> deserializer w m = Some (MRsp (rsp m))" "waiting_ok (mSendEventMap c) w"
  shows "\<exists>n c' w'. recv_loop n (io_cb raw) True (c, w) = Some (Inr (C_SUCCESS, c', w')) \<and> idle_recv (c', w') \<and>
    matched (mSendEventMap c) (map rsp ms) w c' w' \<and> sin w' = []"
  using assms
proof (induction ms arbitrary: c w)
  case Nil
  obtain b buf where b: "mCurRecvBlock c = Some (header_vec b)" "0 < b" "b < nextp w" "heap w b = Some buf" "length buf = HDR_LEN"
      and c: "\<not> mCleaning c"
    using Nil.prems(1) by (auto simp: idle_recv_def awaits_header_def)
  have v: "heap w (base (header_vec b)) = Some buf" "vsize (header_vec b) \<le> length buf"
    "xferred (header_vec b) + length (stream (sin w)) < vsize (header_vec b)"
    using b Nil.prems(3) by (simp_all add: header_vec_def IoVec_full_def HDR_LEN_def HDR_TYPE_LEN_def)
  have s: "stream (sin w) = []" using Nil.prems(3) by simp
  note r = recv_loop_wait [OF recvvec_wait [OF b(1) c Nil.prems(2) v, of "io_cb raw"], of 0]
  show ?case
    by (intro exI conjI, rule r) (use Nil.prems(1) b s in \<open>auto simp: idle_recv_def awaits_header_def matched_Nil header_vec_def IoVec_full_def\<close>)
next
  case (Cons m ms)
  have s: "stream (sin w) = frame m @ concat (map frame ms)" using Cons.prems(3) by simp
  have m: "length m < 2 ^ 64" "deserializer w m = Some (MRsp (rsp m))" using Cons.prems(4) by auto
  obtain c1 w1 where st: "turns 2 raw (c, w) (c1, w1)"
    and i: "idle_recv (c1, w1)" "data_only (sin w1)" "stream (sin w1) = concat (map frame ms)" "waiting_ok (mSendEventMap c1) w1"
      "deserializer w1 = deserializer w" "\<And>rs d v. matched (mSendEventMap c1) rs w1 d v \<Longrightarrow> matched (mSendEventMap c) (rsp m # rs) w d v"
    by (rule response_turns [OF Cons.prems(1,2) s m Cons.prems(5), of raw]) blast
  obtain n c' w' where r: "recv_loop n (io_cb raw) True (c1, w1) = Some (Inr (C_SUCCESS, c', w'))" "idle_recv (c', w')"
    "matched (mSendEventMap c1) (map rsp ms) w1 c' w'" "sin w' = []"
    using Cons.IH [OF i(1-3) _ i(4)] Cons.prems(4) i(5) by auto
  with i(6) [OF r(3)] st show ?case unfolding turns_def by (intro exI [of _ "2 + n"]) (auto simp del: recv_loop.simps)
qed

text \<open>C23: Responses find their requests: whatever pieces the socket hands out, if the bytes are the frames of a
  sequence of responses, one call of \<^verbatim>\<open>recvProgress\<close> completes each waiting request by the first response with
  its identifier, with that response and its status, exactly once and in the order of the responses; a response
  that no request waits for is skipped, the other requests stay in the table, and nothing is given to the next
  stage.\<close>

theorem responses_matched:
  assumes "idle_recv (c, w)" "data_only (sin w)" "stream (sin w) = concat (map frame ms)"
    and "\<forall>m \<in> set ms. length m < 2 ^ 64 \<and> deserializer w m = Some (MRsp (rsp m))" "waiting_ok (mSendEventMap c) w"
  shows "\<exists>n c' w'. recvProgress n (io_cb raw) True (c, w) = Some (Inr (C_SUCCESS, c', w')) \<and> idle_recv (c', w') \<and>
    matched (mSendEventMap c) (map rsp ms) w c' w' \<and> sin w' = []"
proof -
  obtain sn where u: "updateActSn (c, w) = (c\<lparr>mActivitySn := sn\<rparr>, w\<lparr>globalActSn := sn\<rparr>)" by (rule updateActSn_cases)
  from responses_loop [OF idle_recv_updateActSn [OF assms(1)], of sn ms rsp raw] assms(2-5) u show ?thesis
    by (simp add: recvProgress_def matched_def waiting_ok_def)
qed

definition sample_waiting :: "conn \<times> rpc_world" where
  "sample_waiting = (sample_conn\<lparr>mSendEventMap := [(7, 0)]\<rparr>,
     (sample_world (frame ''one'' @ frame ''two''))\<lparr>cevs := [0 \<mapsto> CommEvent_new None None (mSourceEp sample_req)], nextCev := 1,
        deserializer := (\<lambda>m. Some (MRsp (sample_rsp\<lparr>mId := if m = ''one'' then 9 else 7\<rparr>)))\<rparr>)"

lemma sample_waiting_facts:
  "idle_recv (fst sample_waiting, snd sample_waiting)" "data_only (sin (snd sample_waiting))"
  "stream (sin (snd sample_waiting)) = concat (map frame [''one'', ''two''])"
  "mSendEventMap (fst sample_waiting) = [(7, 0)]" "waiting_ok (mSendEventMap (fst sample_waiting)) (snd sample_waiting)"
  "deserializer (snd sample_waiting) m = Some (MRsp (sample_rsp\<lparr>mId := if m = ''one'' then 9 else 7\<rparr>))"
  using sample_idle
  by (simp_all add: sample_waiting_def idle_recv_def awaits_header_def waiting_ok_def CommEvent_new_def)

theorem responses_matched_witness:
  "\<exists>n c' w'. recvProgress n (io_cb sample_rsp) True (fst sample_waiting, snd sample_waiting) = Some (Inr (C_SUCCESS, c', w')) \<and>
    completed w' = completed (snd sample_waiting) @ [(0, mStatus sample_rsp)] \<and> mSendEventMap c' = []"
proof -
  have "\<forall>m \<in> set [''one'', ''two'']. length m < 2 ^ 64 \<and>
      deserializer (snd sample_waiting) m = Some (MRsp (sample_rsp\<lparr>mId := if m = ''one'' then 9 else 7\<rparr>))"
    by (simp add: sample_waiting_facts)
  from responses_matched [OF sample_waiting_facts(1-3) this sample_waiting_facts(5), of sample_rsp] show ?thesis
    by (auto simp: matched_def sample_waiting_facts(4))
qed

end
