(* ===== verification/Comm.thy ===== *)
theory Comm
  imports Net
begin

text \<open>
  The communication stage (src/comm/commstage.cpp) and the vectors it posts (src/net/iovutil.cpp):
  an event of the application becomes a request on a connection to its target, an event completed
  by the server's stages becomes a response on the connection the request came from. Memory that is
  fresh holds zeros.
\<close>

section \<open>The vectors of a message\<close>

text \<open>\<^verbatim>\<open>checkAttachFile\<close>; the sum of the offset and the length wraps.\<close>

definition checkAttachFile :: "(string \<Rightarrow> string option) \<Rightarrow> msg_desc \<Rightarrow> bool" where
  "checkAttachFile fs md =
     (if attachFileLen md = 0 \<and> attachFilePath md = [] then True
      else if attachFileLen md = 0 \<and> attachFilePath md \<noteq> [] then True
      else if attachFileLen md \<noteq> 0 \<and> attachFilePath md = [] then False
      else (case fs (attachFilePath md) of None \<Rightarrow> False
         | Some s \<Rightarrow> \<not> (of_nat (length s) < attachFileOffset md + attachFileLen md)))"

text \<open>The total of the attachments is an \<^verbatim>\<open>int\<close>.\<close>

definition attach_total :: "msg_desc \<Rightarrow> 32 word" where
  "attach_total md = word_of_int (sum_list (map vlen (attachMems md)))"

definition message_header :: "rpc_msg \<Rightarrow> msg_desc \<Rightarrow> pack_header" where
  "message_header m md = \<lparr>hType = strncpy HDR_TYPE_LEN MSG_TYPE_RPC, hMsgLen = of_nat (msg_size m),
     hAttLen = word_of_int (sint (attach_total md)), hFileLen = attachFileLen md\<rparr>"

definition makeRpcMessage :: "msg_desc \<Rightarrow> rpc_world \<Rightarrow> fault + (iovec option \<times> rpc_world)" where
  "makeRpcMessage md w = (case msg md of None \<Rightarrow> Inl Dangling
     | Some m \<Rightarrow>
         let msgHdrLen = HDR_LEN + msg_size m;
             (b, w1) = new_buf msgHdrLen w;
             (rc, body) = msg_serialize m (replicate (msg_size m) NUL)
         in if rc \<noteq> 0 then and_then (delete_buf b w1) (\<lambda>w2. Inr (None, w2))
            else and_then (mem_write b 0 (header_bytes (message_header m md) @ body) w1)
              (\<lambda>w2. Inr (Some (IoVec_full b msgHdrLen SendCb NoParam SYS_ALLOC), w2)))"

definition prepareIovecs :: "msg_desc \<Rightarrow> rpc_world \<Rightarrow> fault + (iovec list option \<times> rpc_world)" where
  "prepareIovecs md w = and_then (makeRpcMessage md w) (\<lambda>(v, w1). Inr (case v of None \<Rightarrow> (None, w1)
     | Some iov \<Rightarrow> (Some (iov # map (\<lambda>a. setCallback SendCb NoParam (IoVec_vec a USER_ALLOC)) (attachMems md)), w1)))"

definition with_last_param :: "cb_param \<Rightarrow> msg_desc \<Rightarrow> iovec list \<Rightarrow> iovec list" where
  "with_last_param cbp md iovs =
     (let k = length (attachMems md) in iovs[k := setCallback SendCb (SendParam cbp) (iovs ! k)])"

definition prepareReqIovecs :: "msg_desc \<Rightarrow> cev_id \<Rightarrow> rpc_world \<Rightarrow> fault + (iovec list option \<times> rpc_world)" where
  "prepareReqIovecs md cev w = and_then (prepareIovecs md w) (\<lambda>(vs, w1). Inr (case vs of None \<Rightarrow> (None, w1)
     | Some iovs \<Rightarrow>
         let cbp = cb_param_zero\<lparr>cbCev := Some cev, cbCs := True,
               reqId := (case cevs w1 cev of None \<Rightarrow> 0 | Some e \<Rightarrow> requestId e), fileLen := attachFileLen md,
               fileOffset := attachFileOffset md, filePath := take (FILENAME_LENGTH_MAX - 1) (cstr (attachFilePath md))\<rparr>
         in (Some (with_last_param cbp md iovs), w1)))"

definition prepareRespIovecs :: "msg_desc \<Rightarrow> cev_id \<Rightarrow> rpc_world \<Rightarrow> fault + (iovec list option \<times> rpc_world)" where
  "prepareRespIovecs md cev w = and_then (prepareIovecs md w) (\<lambda>(vs, w1). Inr (case vs of None \<Rightarrow> (None, w1)
     | Some iovs \<Rightarrow> (Some (with_last_param (cb_param_zero\<lparr>cbCev := Some cev, cbCs := True\<rparr>) md iovs), w1)))"

section \<open>The stage\<close>

unbundle bit_operations_syntax

record comm_stage =
  mServer :: bool
  mSendCounter :: u32
  localEp :: endpoint

definition VERSION_NUM :: u32 where
  "VERSION_NUM = (push_bit 24 1) OR 1"

definition on_world :: "(rpc_world \<Rightarrow> rpc_world) \<Rightarrow> net \<Rightarrow> net" where
  "on_world f n = n\<lparr>nw := f (nw n)\<rparr>"

definition try_world :: "(rpc_world \<Rightarrow> fault + ('a \<times> rpc_world)) \<Rightarrow> net \<Rightarrow> ('a \<times> net) res" where
  "try_world f n = Some (and_then (f (nw n)) (\<lambda>(x, w). Inr (x, n\<lparr>nw := w\<rparr>)))"

definition sock_of :: "conn_id \<Rightarrow> net \<Rightarrow> int res" where
  "sock_of i n = (case conns n i of None \<Rightarrow> Some (Inl Dangling) | Some c \<Rightarrow> if freed c then Some (Inl Dangling) else ret (mSock c))"

text \<open>Posting vectors on a connection that is held, telling a data thread and giving the connection back.\<close>

definition post_and_release :: "response \<Rightarrow> iovec list \<Rightarrow> conn_id \<Rightarrow> net \<Rightarrow> net res" where
  "post_and_release raw vs i n =
     thenr (upd_conn i (postSend vs) n) (\<lambda>n1.
     thenr (sock_of i n1) (\<lambda>s.
     thenr (prepareSend s None n1) (\<lambda>n2.
     thenr (upd_conn i messageOut n2) (\<lambda>n3.
     net_release raw i n3))))"

definition cleanupFailedReq :: "response \<Rightarrow> cev_id \<Rightarrow> conn_id \<Rightarrow> cev_status \<Rightarrow> net \<Rightarrow> net res" where
  "cleanupFailedReq raw cev i errCode n =
     thenr (upd_conn i (removeEventEntry (case cevs (nw n) cev of None \<Rightarrow> 0 | Some e \<Rightarrow> requestId e)) n) (\<lambda>n1.
     thenr (net_release raw i n1) (\<lambda>n2. ret (on_world (completeEvent errCode cev) n2)))"

text \<open>
  \<^verbatim>\<open>sendRequest\<close>: the answers of the kernel (the socket made, the result of the connect, whether
  the selectors take it) are those of \<^verbatim>\<open>getConn\<close>.
\<close>

definition stamped :: "comm_stage \<Rightarrow> request \<Rightarrow> request" where
  "stamped cs r = r\<lparr>mSourceEp := localEp cs, mVersion := VERSION_NUM, mId := ucast (mSendCounter cs)\<rparr>"

definition sendRequest :: "response \<Rightarrow> int option \<Rightarrow> sock_status \<Rightarrow> bool \<Rightarrow> bool \<Rightarrow> cev_id \<Rightarrow> comm_stage \<times> net \<Rightarrow>
    (comm_stage \<times> net) res" where
  "sendRequest raw created answer okS okR cev = (\<lambda>(cs, n0).
     case cevs (nw n0) cev of None \<Rightarrow> Some (Inl Dangling)
     | Some e \<Rightarrow>
         let n = on_world (setStatus PENDING cev) n0; md = request e
         in case msg md of
             Some (MReq r) \<Rightarrow>
               let r' = stamped cs r; md' = md\<lparr>msg := Some (MReq r')\<rparr>;
                   cs1 = cs\<lparr>mSendCounter := mSendCounter cs + 1\<rparr>;
                   n1 = on_world (upd_cev (\<lambda>e. e\<lparr>request := md', requestId := ucast (mId r')\<rparr>) cev) n
               in thenr (getConn raw created answer okS okR (targetEp e) False (-1) n1) (\<lambda>(c, n2).
                  case c of
                    Inl _ \<Rightarrow> ret (cs1, on_world (completeEvent CONN_FAILURE cev) n2)
                  | Inr i \<Rightarrow>
                      thenr (upd_conn i (addEventEntry (ucast (mId r')) cev) n2) (\<lambda>n3.
                      thenr (try_world (prepareReqIovecs md' cev) n3) (\<lambda>(vs, n4).
                      case vs of
                        None \<Rightarrow> thenr (cleanupFailedReq raw cev i RESOURCE_FAILURE n4) (\<lambda>n5. ret (cs1, n5))
                      | Some iovs \<Rightarrow> thenr (post_and_release raw iovs i n4) (\<lambda>n5. ret (cs1, n5)))))
           | _ \<Rightarrow> ret (cs, on_world (completeEvent INVALID_PARAMETER cev) n))"

fun iov_cleanups :: "iovec list \<Rightarrow> rpc_world \<Rightarrow> fault + rpc_world" where
  "iov_cleanups [] w = Inr w"
| "iov_cleanups (v # vs) w = and_then (iov_cleanup v w) (\<lambda>(_, w1). iov_cleanups vs w1)"

definition cleanupFailedResp :: "cev_id \<Rightarrow> cev_status \<Rightarrow> iovec list \<Rightarrow> net \<Rightarrow> net res" where
  "cleanupFailedResp cev errCode iovs n =
     thenr (try_world (\<lambda>w. and_then (iov_cleanups iovs w) (\<lambda>w1. Inr ((), w1))) n) (\<lambda>(_, n1).
     ret (on_world (completeEvent errCode cev) n1))"

definition sendResponse :: "response \<Rightarrow> cev_id \<Rightarrow> net \<Rightarrow> net res" where
  "sendResponse raw cev n = (case cevs (nw n) cev of None \<Rightarrow> Some (Inl Dangling)
     | Some e \<Rightarrow> (case msg (response e) of None \<Rightarrow> Some (Inl Assert_failed)
       | Some m \<Rightarrow>
           let md = (response e)\<lparr>msg := Some (set_msg_id (ucast (requestId e)) m)\<rparr>;
               n1 = on_world (upd_cev (\<lambda>e. e\<lparr>response := md\<rparr>) cev) n
           in thenr (try_world (prepareRespIovecs md cev) n1) (\<lambda>(vs, n2).
              case vs of
                None \<Rightarrow> cleanupFailedResp cev RESOURCE_FAILURE [] n2
              | Some iovs \<Rightarrow>
                  thenr (getConn raw None SOCK_ERR False False (targetEp e) True (sock e) n2) (\<lambda>(c, n3).
                  case c of Inl _ \<Rightarrow> cleanupFailedResp cev CONN_FAILURE iovs n3
                  | Inr i \<Rightarrow> post_and_release raw iovs i n3))))"

text \<open>The handlers: an event that is not a communication event is completed at once.\<close>

datatype stage_ev = CommEv cev_id | CommSendEv | CommRecvEv | OtherEv

definition comm_handleEvent :: "response \<Rightarrow> int option \<Rightarrow> sock_status \<Rightarrow> bool \<Rightarrow> bool \<Rightarrow> stage_ev \<Rightarrow> comm_stage \<times> net \<Rightarrow>
    (bool \<times> comm_stage \<times> net) res" where
  "comm_handleEvent raw created answer okS okR ev s = (case ev of
      CommEv cev \<Rightarrow> thenr (sendRequest raw created answer okS okR cev s) (\<lambda>s'. ret (False, s'))
    | _ \<Rightarrow> ret (True, s))"

definition comm_callbackEvent :: "response \<Rightarrow> stage_ev \<Rightarrow> net \<Rightarrow> (bool \<times> net) res" where
  "comm_callbackEvent raw ev n = (case ev of
      CommEv cev \<Rightarrow> thenr (sendResponse raw cev n) (\<lambda>n'. ret (False, n'))
    | _ \<Rightarrow> ret (True, n))"

end
