(* ===== verification/CommFlow.thy ===== *)
theory CommFlow
  imports Comm NetInv
begin

text \<open>
  From one process to another: what the vectors of a message put on the wire, that requests posted
  on one connection are delivered by the other end, and what \<^verbatim>\<open>sendRequest\<close> leaves behind.
\<close>

section \<open>The image of a message\<close>

definition message_body :: "rpc_msg \<Rightarrow> string" where
  "message_body m = snd (msg_serialize m (replicate (msg_size m) NUL))"

lemma message_body_ok: "fst (msg_serialize m (replicate (msg_size m) NUL)) = 0" "length (message_body m) = msg_size m"
  by (cases m; simp add: message_body_def Request_serialize_image Response_serialize_image Message_serialize_image message_lens)+

lemma length_message_header [simp]: "length (header_bytes (message_header m md)) = HDR_LEN"
  by (simp add: message_header_def)

definition message_vec :: "addr \<Rightarrow> rpc_msg \<Rightarrow> iovec" where
  "message_vec b m = IoVec_full b (HDR_LEN + msg_size m) SendCb NoParam SYS_ALLOC"

definition message_world :: "rpc_msg \<Rightarrow> msg_desc \<Rightarrow> rpc_world \<Rightarrow> rpc_world" where
  "message_world m md w = w\<lparr>heap := (heap w)(nextp w := Some (header_bytes (message_header m md) @ message_body m)), nextp := nextp w + 1\<rparr>"

lemma makeRpcMessage_spec:
  assumes "msg md = Some m"
  shows "makeRpcMessage md w = Inr (Some (message_vec (nextp w) m), message_world m md w)"
  using assms message_body_ok [of m]
  by (cases "msg_serialize m (replicate (msg_size m) NUL)")
    (simp add: makeRpcMessage_def new_buf_def mem_write_def poke_def message_vec_def message_world_def message_body_def Let_def)

lemma prepareIovecs_spec:
  assumes "msg md = Some m"
  shows "prepareIovecs md w = Inr (Some (message_vec (nextp w) m #
     map (\<lambda>a. setCallback SendCb NoParam (IoVec_vec a USER_ALLOC)) (attachMems md)), message_world m md w)"
  by (simp add: prepareIovecs_def makeRpcMessage_spec [OF assms])

text \<open>The bytes of a buffer that is sent whole.\<close>

definition attach_bytes :: "rpc_world \<Rightarrow> msg_desc \<Rightarrow> string" where
  "attach_bytes w md = concat (map (\<lambda>a. case heap w (vbase a) of None \<Rightarrow> [] | Some buf \<Rightarrow> take (nat (vlen a)) buf) (attachMems md))"

definition attach_ok :: "rpc_world \<Rightarrow> msg_desc \<Rightarrow> bool" where
  "attach_ok w md \<longleftrightarrow> (\<forall>a \<in> set (attachMems md). vbase a \<noteq> nextp w)"

lemma rest_bytes_whole: "xferred v = 0 \<Longrightarrow> rest_bytes w v = (case heap w (base v) of None \<Rightarrow> [] | Some buf \<Rightarrow> take (vsize v) buf)"
  by (simp add: rest_bytes_def remain_def peek_def split: option.split)

lemma rest_bytes_cb [simp]: "rest_bytes w (setCallback cb p v) = rest_bytes w v"
  by (simp add: rest_bytes_def setCallback_def remain_def split: option.split)

lemma message_vec_image: "rest_bytes (message_world m md w) (message_vec (nextp w) m) = header_bytes (message_header m md) @ message_body m"
  using message_body_ok(2) [of m] by (simp add: rest_bytes_whole message_vec_def IoVec_full_def message_world_def)

lemma att_vec_image:
  "vbase a \<noteq> nextp w \<Longrightarrow> rest_bytes (message_world m md w) (IoVec_vec a al) =
     (case heap w (vbase a) of None \<Rightarrow> [] | Some buf \<Rightarrow> take (nat (vlen a)) buf)"
  by (simp add: rest_bytes_whole IoVec_vec_def IoVec_full_def message_world_def split: option.split)

lemma prepared_rest:
  assumes "attach_ok w md" "msg md = Some m"
  shows "concat (map (rest_bytes (message_world m md w)) (message_vec (nextp w) m #
       map (\<lambda>a. setCallback SendCb NoParam (IoVec_vec a USER_ALLOC)) (attachMems md)))
     = header_bytes (message_header m md) @ message_body m @ attach_bytes w md"
proof -
  have "map (\<lambda>a. rest_bytes (message_world m md w) (IoVec_vec a USER_ALLOC)) (attachMems md) =
      map (\<lambda>a. case heap w (vbase a) of None \<Rightarrow> [] | Some buf \<Rightarrow> take (nat (vlen a)) buf) (attachMems md)"
    by (rule map_cong) (use assms(1) in \<open>auto simp: attach_ok_def att_vec_image\<close>)
  then show ?thesis unfolding list.map map_map comp_def rest_bytes_cb concat.simps message_vec_image attach_bytes_def
    by (simp only: append_assoc)
qed

text \<open>Giving the last vector a parameter block adds its file to the image.\<close>

lemma send_image_parts:
  "send_image w (setCallback SendCb NoParam v) = rest_bytes w v"
  "send_image w (message_vec b m) = rest_bytes w (message_vec b m)"
  "send_image w (setCallback SendCb (SendParam cbp) v) = rest_bytes w v @ (if fileLen cbp = 0 then [] else file_slice w cbp)"
  by (simp_all add: send_image_def message_vec_def IoVec_full_def file_tail_def) (simp_all add: setCallback_def)

lemma last_param_image:
  assumes "length vs = Suc (length (attachMems md))" "\<And>v. v \<in> set vs \<Longrightarrow> send_image w v = rest_bytes w v"
  shows "concat (map (send_image w) (with_last_param cbp md vs)) =
    concat (map (rest_bytes w) vs) @ (if fileLen cbp = 0 then [] else file_slice w cbp)"
proof -
  obtain us u where vs: "vs = us @ [u]" using assms(1) by (metis length_Suc_conv_rev)
  then have l: "length us = length (attachMems md)" using assms(1) by simp
  have e: "with_last_param cbp md (us @ [u]) = us @ [setCallback SendCb (SendParam cbp) u]"
    using l by (simp add: with_last_param_def Let_def nth_append list_update_append)
  have "map (send_image w) us = map (rest_bytes w) us" using assms(2) vs by simp
  then show ?thesis unfolding vs e by (simp only: map_append concat_append list.map concat.simps send_image_parts append_assoc append_Nil2)
qed

definition request_param :: "msg_desc \<Rightarrow> cev_id \<Rightarrow> rpc_world \<Rightarrow> cb_param" where
  "request_param md cev w = cb_param_zero\<lparr>cbCev := Some cev, cbCs := True,
     reqId := (case cevs w cev of None \<Rightarrow> 0 | Some e \<Rightarrow> requestId e), fileLen := attachFileLen md,
     fileOffset := attachFileOffset md, filePath := take (FILENAME_LENGTH_MAX - 1) (cstr (attachFilePath md))\<rparr>"

abbreviation plain_vecs :: "rpc_msg \<Rightarrow> msg_desc \<Rightarrow> rpc_world \<Rightarrow> iovec list" where
  "plain_vecs m md w \<equiv> message_vec (nextp w) m # map (\<lambda>a. setCallback SendCb NoParam (IoVec_vec a USER_ALLOC)) (attachMems md)"

lemma prepareReq_spec:
  assumes "msg md = Some m"
  shows "prepareReqIovecs md cev w = Inr (Some (with_last_param (request_param md cev w) md (plain_vecs m md w)), message_world m md w)"
proof -
  have "cevs (message_world m md w) = cevs w" by (simp add: message_world_def)
  then show ?thesis by (simp add: prepareReqIovecs_def prepareIovecs_spec [OF assms] request_param_def Let_def)
qed

lemma prepareResp_spec:
  assumes "msg md = Some m"
  shows "prepareRespIovecs md cev w = Inr (Some (with_last_param (cb_param_zero\<lparr>cbCev := Some cev, cbCs := True\<rparr>) md (plain_vecs m md w)),
    message_world m md w)"
  by (simp add: prepareRespIovecs_def prepareIovecs_spec [OF assms])

lemma plain_vecs_image: "v \<in> set (plain_vecs m md w) \<Longrightarrow> send_image w' v = rest_bytes w' v"
  by (auto simp: send_image_parts)


text \<open>The vectors of a response: the same, but nothing sends the file its header announces.\<close>

lemma response_image:
  assumes "msg md = Some m" "attach_ok w md"
  shows "\<exists>vs w'. prepareRespIovecs md cev w = Inr (Some vs, w') \<and>
    concat (map (send_image w') vs) = header_bytes (message_header m md) @ message_body m @ attach_bytes w md"
proof -
  let ?p = "cb_param_zero\<lparr>cbCev := Some cev, cbCs := True\<rparr>" and ?vs = "plain_vecs m md w" and ?w = "message_world m md w"
  have l: "length ?vs = Suc (length (attachMems md))" by simp
  have z: "fileLen ?p = 0" by (simp add: cb_param_zero_def)
  have "concat (map (send_image ?w) (with_last_param ?p md ?vs)) =
      concat (map (rest_bytes ?w) ?vs) @ (if fileLen ?p = 0 then [] else file_slice ?w ?p)"
    by (rule last_param_image [OF l]) (rule plain_vecs_image)
  then have "concat (map (send_image ?w) (with_last_param ?p md ?vs)) = header_bytes (message_header m md) @ message_body m @ attach_bytes w md"
    unfolding prepared_rest [OF assms(2,1)] by (simp add: z)
  then show ?thesis using prepareResp_spec [OF assms(1)] by blast
qed

text \<open>A response with a file announces the file in its header and never sends it: the peer waits for
  \<^verbatim>\<open>attachFileLen\<close> bytes that are not among those the vectors put on the wire.\<close>

theorem response_file_missing:
  assumes "msg md = Some m" "attach_ok w md" "attachFileLen md \<noteq> 0"
  shows "\<exists>vs w'. prepareRespIovecs md cev w = Inr (Some vs, w') \<and> hFileLen (message_header m md) = attachFileLen md \<and>
    length (concat (map (send_image w') vs)) = HDR_LEN + msg_size m + length (attach_bytes w md)"
proof -
  obtain vs w' where "prepareRespIovecs md cev w = Inr (Some vs, w')"
    "concat (map (send_image w') vs) = header_bytes (message_header m md) @ message_body m @ attach_bytes w md"
    using response_image [OF assms(1,2)] by blast
  then show ?thesis by (simp add: message_body_ok message_header_def)
qed

text \<open>The receiver of a message learns the length of its attachments modulo 4 GiB: exactly, when they are
  shorter than that, although the sender adds the lengths up in a signed 32-bit integer.\<close>

lemma attach_length_mod:
  "unat (ucast (hAttLen (message_header m md)) :: u32) = nat (sum_list (map vlen (attachMems md)) mod 2 ^ 32)"
proof -
  have "(ucast (word_of_int (sint x) :: u64) :: u32) = x" for x :: u32
    by (rule bit_word_eqI) (auto simp: bit_ucast_iff bit_signed_iff)
  then have e: "(ucast (hAttLen (message_header m md)) :: u32) = word_of_int (sum_list (map vlen (attachMems md)))"
    by (simp add: message_header_def attach_total_def)
  show ?thesis unfolding e unat_eq_nat_uint uint_word_of_int by simp
qed

section \<open>Requests from one end to the other\<close>

text \<open>Requests without attachments, posted one after the other with their events.\<close>

fun post_all :: "(request \<times> cev_id) list \<Rightarrow> cst \<Rightarrow> fault + cst" where
  "post_all [] s = Inr s"
| "post_all ((r, i) # ps) (c, w) = and_then (prepareReqIovecs (MsgDesc_new (Some (MReq r))) i w) (\<lambda>(vs, w1).
     case vs of None \<Rightarrow> Inl Assert_failed | Some vs \<Rightarrow> post_all ps (postSend vs c, w1))"

definition request_bytes :: "request \<Rightarrow> string" where
  "request_bytes r = snd (Request_serialize r (replicate Request_getSerialSize NUL))"

lemma request_bytes_length: "length (request_bytes r) = Request_getSerialSize"
  by (simp add: request_bytes_def Request_serialize_image message_lens)

lemma request_bytes_back: "request_wf r \<Longrightarrow> mType r = mType r0 \<Longrightarrow> snd (Request_deserialize r0 (request_bytes r)) = r"
  unfolding request_bytes_def by (rule request_wire_back) simp_all

definition request_vec :: "addr \<Rightarrow> request \<Rightarrow> cb_param \<Rightarrow> iovec" where
  "request_vec b r p = setCallback SendCb (SendParam p) (message_vec b (MReq r))"

lemma prepare_plain_request:
  "prepareReqIovecs (MsgDesc_new (Some (MReq r))) i w =
     Inr (Some [request_vec (nextp w) r (request_param (MsgDesc_new (Some (MReq r))) i w)],
       w\<lparr>heap := (heap w)(nextp w := Some (frame (request_bytes r))), nextp := nextp w + 1\<rparr>)"
proof -
  have h: "header_bytes (message_header (MReq r) (MsgDesc_new (Some (MReq r)))) @ message_body (MReq r) = frame (request_bytes r)"
    unfolding frame_def request_bytes_length
    by (simp add: message_header_def attach_total_def MsgDesc_new_def rpc_header_def message_body_def request_bytes_def)
  have "msg (MsgDesc_new (Some (MReq r))) = Some (MReq r)" "attachMems (MsgDesc_new (Some (MReq r))) = []"
    by (simp_all add: MsgDesc_new_def)
  then show ?thesis using prepareReq_spec [of "MsgDesc_new (Some (MReq r))" "MReq r" i w]
    by (simp add: message_world_def h with_last_param_def request_vec_def)
qed

text \<open>What is posted can be sent, and its vectors use memory of their own.\<close>

definition posted_ok :: "cst \<Rightarrow> bool" where
  "posted_ok = (\<lambda>(c, w). postable w (send_pending c) \<and> (\<forall>v \<in> set (send_pending c). base v < nextp w))"

lemma post_one:
  assumes "posted_ok (c, w)" "cevs w i = Some e" "\<not> serverGen e"
    and "v = request_vec (nextp w) r (request_param (MsgDesc_new (Some (MReq r))) i w)"
    and "w1 = w\<lparr>heap := (heap w)(nextp w := Some (frame (request_bytes r))), nextp := nextp w + 1\<rparr>"
  shows "posted_ok (postSend [v] c, w1)" "send_pending (postSend [v] c) = send_pending c @ [v]"
    "concat (map (send_image w1) (send_pending c @ [v])) = concat (map (send_image w) (send_pending c)) @ frame (request_bytes r)"
    "remain v = HDR_LEN + Request_getSerialSize"
proof -
  have p: "fileLen (request_param (MsgDesc_new (Some (MReq r))) i w) = 0" "cbCev (request_param (MsgDesc_new (Some (MReq r))) i w) = Some i"
    by (simp_all add: request_param_def MsgDesc_new_def)
  have l: "length (frame (request_bytes r)) = HDR_LEN + Request_getSerialSize" by (simp add: frame_def request_bytes_length)
  have v: "base v = nextp w" "vsize v = HDR_LEN + Request_getSerialSize" "xferred v = 0" "callback v = SendCb"
    by (simp_all add: assms(4) request_vec_def setCallback_def message_vec_def IoVec_full_def)
  have other: "heap w1 (base u) = heap w (base u)" if "u \<in> set (send_pending c)" for u
    using assms(1,5) that by (auto simp: posted_ok_def)
  have fr: "sendable w1 u = sendable w u" "send_image w1 u = send_image w u" if "u \<in> set (send_pending c)" for u
    using sendable_frame [OF other [OF that]] assms(5) by (simp_all add: isServerGen_def)
  have img: "send_image w1 v = frame (request_bytes r)"
    using v l p by (simp add: send_image_def rest_bytes_whole file_tail_def assms(4,5)) (simp add: request_vec_def setCallback_def)
  have sv: "sendable w1 v"
    using v l p assms(2,3) unfolding assms(4,5)
    by (simp add: sendable_def vec_ok_def) (simp add: request_vec_def setCallback_def file_slice_def sock_sendfile_def isServerGen_def)
  show sp: "send_pending (postSend [v] c) = send_pending c @ [v]" by (simp add: send_pending_def postSend_def)
  have old: "distinct (map base (send_pending c))" "\<And>u. u \<in> set (send_pending c) \<Longrightarrow> sendable w u \<and> base u < nextp w"
    using assms(1) by (simp_all add: posted_ok_def postable_def)
  have n1: "nextp w1 = nextp w + 1" using assms(5) by simp
  have "sendable w1 u \<and> base u < nextp w1" if "u \<in> set (send_pending c @ [v])" for u
    using that old(2) [of u] fr(1) [of u] sv v(1) n1 by auto
  moreover have "distinct (map base (send_pending c @ [v]))" using old v(1) by force
  ultimately show "posted_ok (postSend [v] c, w1)" by (simp add: posted_ok_def postable_def sp)
  show "concat (map (send_image w1) (send_pending c @ [v])) = concat (map (send_image w) (send_pending c)) @ frame (request_bytes r)"
    using fr(2) img by (simp cong: map_cong)
  show "remain v = HDR_LEN + Request_getSerialSize" using v by (simp add: remain_def)
qed

lemma post_all_spec:
  assumes "posted_ok (c, w)" "\<forall>(r, i) \<in> set ps. \<exists>e. cevs w i = Some e \<and> \<not> serverGen e"
  shows "\<exists>c' w'. post_all ps (c, w) = Inr (c', w') \<and> posted_ok (c', w') \<and>
    concat (map (send_image w') (send_pending c')) = concat (map (send_image w) (send_pending c)) @
       concat (map (\<lambda>(r, i). frame (request_bytes r)) ps) \<and>
    sum_list (map remain (send_pending c')) = sum_list (map remain (send_pending c)) + length ps * (HDR_LEN + Request_getSerialSize) \<and>
    sout w' = sout w \<and> squota w' = squota w \<and> mReadyToSend c' = mReadyToSend c \<and> mCleaning c' = mCleaning c"
  using assms
proof (induction ps arbitrary: c w)
  case (Cons p ps)
  obtain r i e where p: "p = (r, i)" "cevs w i = Some e" "\<not> serverGen e" using Cons.prems(2) by (cases p) auto
  define v where "v = request_vec (nextp w) r (request_param (MsgDesc_new (Some (MReq r))) i w)"
  define w1 where "w1 = w\<lparr>heap := (heap w)(nextp w := Some (frame (request_bytes r))), nextp := nextp w + 1\<rparr>"
  note one = post_one [OF Cons.prems(1) p(2,3) v_def w1_def]
  have st: "post_all (p # ps) (c, w) = post_all ps (postSend [v] c, w1)"
    by (simp add: p(1) prepare_plain_request v_def w1_def)
  have w1: "cevs w1 = cevs w" "sout w1 = sout w" "squota w1 = squota w" by (simp_all add: w1_def)
  have c1: "mReadyToSend (postSend [v] c) = mReadyToSend c" "mCleaning (postSend [v] c) = mCleaning c" by (simp_all add: postSend_def)
  obtain c' w' where ih: "post_all ps (postSend [v] c, w1) = Inr (c', w')" "posted_ok (c', w')"
    "concat (map (send_image w') (send_pending c')) = concat (map (send_image w1) (send_pending (postSend [v] c))) @
       concat (map (\<lambda>(r, i). frame (request_bytes r)) ps)"
    "sum_list (map remain (send_pending c')) = sum_list (map remain (send_pending (postSend [v] c))) + length ps * (HDR_LEN + Request_getSerialSize)"
    "sout w' = sout w1" "squota w' = squota w1" "mReadyToSend c' = mReadyToSend (postSend [v] c)" "mCleaning c' = mCleaning (postSend [v] c)"
    using Cons.IH [OF one(1)] Cons.prems(2) w1(1) by auto
  have "concat (map (send_image w') (send_pending c')) = concat (map (send_image w) (send_pending c)) @
      concat (map (\<lambda>(r, i). frame (request_bytes r)) (p # ps))"
    unfolding ih(3) one(2,3) by (simp add: p(1))
  moreover have "sum_list (map remain (send_pending c')) = sum_list (map remain (send_pending c)) + length (p # ps) * (HDR_LEN + Request_getSerialSize)"
    unfolding ih(4) one(2) by (simp add: one(4))
  ultimately show ?case unfolding st using ih(1,2,5-8) w1(2,3) c1 by simp
qed simp


definition sample_post :: "conn \<times> rpc_world" where
  "sample_post = (sample_conn\<lparr>mReadyToSend := True\<rparr>,
     (sample_world [])\<lparr>squota := [OutSpace 400], cevs := [0 \<mapsto> CommEvent_new None None (mSourceEp wf_req)], nextCev := 1\<rparr>)"


definition sample_md :: msg_desc where
  "sample_md = (MsgDesc_new (Some (MRsp sample_rsp)))\<lparr>attachMems := [\<lparr>vbase = 1, vlen = 4\<rparr>], attachFileLen := 5, attachFilePath := ''f''\<rparr>"

lemma sample_md_ok: "msg sample_md = Some (MRsp sample_rsp)" "attach_ok (sample_world []) sample_md" "attachFileLen sample_md \<noteq> 0"
  by (simp_all add: sample_md_def MsgDesc_new_def attach_ok_def sample_world_def)


theorem response_file_missing_witness:
  "\<exists>vs w'. prepareRespIovecs sample_md 0 (sample_world []) = Inr (Some vs, w') \<and>
    length (concat (map (send_image w') vs)) = HDR_LEN + Response_getSerialSize + 4"
proof -
  have "length (attach_bytes (sample_world []) sample_md) = 4"
    by (simp add: attach_bytes_def sample_md_def sample_world_def HDR_LEN_def HDR_TYPE_LEN_def)
  then show ?thesis using response_file_missing [OF sample_md_ok, of 0] by (metis msg_size.simps(2))
qed

end
