(* ===== verification/CommReq.thy ===== *)
theory CommReq
  imports CommFlow
begin

text \<open>
  What \<^verbatim>\<open>sendRequest\<close> and \<^verbatim>\<open>sendResponse\<close> leave behind in the network layer when the connection
  they need is registered.
\<close>

section \<open>Operations on a live connection\<close>

text \<open>Two states of the network that differ at most in what the threads read.\<close>

definition same_env :: "net \<Rightarrow> net \<Rightarrow> bool" where
  "same_env n n' \<longleftrightarrow> connMgr n' = connMgr n \<and> nextConn n' = nextConn n \<and> cevs (nw n') = cevs (nw n) \<and>
     completed (nw n') = completed (nw n) \<and> heap (nw n') = heap (nw n) \<and> nextp (nw n') = nextp (nw n) \<and> recvQs n' = recvQs n"

lemma same_env_refl [simp]: "same_env n n"
  by (simp add: same_env_def)

lemma same_env_trans: "same_env a b \<Longrightarrow> same_env b c \<Longrightarrow> same_env a c"
  by (simp add: same_env_def)

lemma upd_conn_total:
  assumes "conns n i = Some c" "\<not> freed c"
  obtains n' where "upd_conn i f n = ret n'" "conns n' = (conns n)(i \<mapsto> f c)" "same_env n n'" "sendQs n' = sendQs n"
  using assms by (simp add: upd_conn_def on_conn_def load_sock_def same_env_def)

lemma net_release_total:
  assumes "conns n i = Some c" "\<not> freed c" "\<not> mCleaning c"
  obtains n' where "net_release raw i n = ret n'" "conns n' = (conns n)(i \<mapsto> c\<lparr>mRefCount := mRefCount c - 1\<rparr>)" "same_env n n'"
    "sendQs n' = sendQs n"
  using assms by (simp add: net_release_def on_conn_def conn_release_def load_sock_def same_env_def)

lemma getConn_found:
  assumes "mgr_find_ep ep (connMgr n) = Inr (Some i)" "conns n i = Some c" "\<not> freed c"
  obtains n' where "getConn raw created answer okS okR ep sv (-1) n = ret (Inr i, n')" "conns n' = (conns n)(i \<mapsto> acquire c)"
    "same_env n n'" "sendQs n' = sendQs n"
proof -
  obtain n' where "upd_conn i acquire n = ret n'" "conns n' = (conns n)(i \<mapsto> acquire c)" "same_env n n'" "sendQs n' = sendQs n"
    using upd_conn_total [OF assms(2,3)] by blast
  then show thesis using that assms(1) by (simp add: getConn_def net_find_ep_def)
qed

lemma getConn_found_sock:
  assumes "mgr_find s (connMgr n) = Some i" "s \<noteq> -1" "conns n i = Some c" "\<not> freed c"
  obtains n' where "getConn raw created answer okS okR ep sv s n = ret (Inr i, n')" "conns n' = (conns n)(i \<mapsto> acquire c)"
    "same_env n n'" "sendQs n' = sendQs n"
proof -
  obtain n' where "upd_conn i acquire n = ret n'" "conns n' = (conns n)(i \<mapsto> acquire c)" "same_env n n'" "sendQs n' = sendQs n"
    using upd_conn_total [OF assms(3,4)] by blast
  then show thesis using that assms(1,2) by (simp add: getConn_def net_find_def)
qed

text \<open>The queue a socket is put into.\<close>

definition queued :: "int \<Rightarrow> int list list \<Rightarrow> int list list" where
  "queued s qs = qs[thread_index s qs := qs ! thread_index s qs @ [s]]"

lemma post_and_release_total:
  assumes "conns n i = Some c" "\<not> freed c" "\<not> mCleaning c" "sendQs n \<noteq> []"
  obtains n' where "post_and_release raw vs i n = ret n'"
    "conns n' = (conns n)(i \<mapsto> c\<lparr>mSendQ := mSendQ c @ vs, msgOut := msgOut c + 1, mRefCount := mRefCount c - 1\<rparr>)"
    "same_env n n'" "sendQs n' = queued (mSock c) (sendQs n)"
proof -
  obtain n1 where n1: "upd_conn i (postSend vs) n = ret n1" "conns n1 = (conns n)(i \<mapsto> postSend vs c)" "same_env n n1" "sendQs n1 = sendQs n"
    by (rule upd_conn_total [OF assms(1,2)])
  have s: "sock_of i n1 = ret (mSock c)" using n1(2) assms(2) by (simp add: sock_of_def postSend_def)
  define n2 where "n2 = n1\<lparr>sendQs := queued (mSock c) (sendQs n1)\<rparr>"
  have p: "prepareSend (mSock c) None n1 = ret n2" using assms(4) n1(4) by (simp add: prepareSend_def q_push_def queued_def n2_def Let_def)
  have c2: "conns n2 i = Some (postSend vs c)" "\<not> freed (postSend vs c)" using n1(2) assms(2) by (simp_all add: n2_def postSend_def)
  obtain n3 where n3: "upd_conn i messageOut n2 = ret n3" "conns n3 = (conns n2)(i \<mapsto> messageOut (postSend vs c))" "same_env n2 n3"
      "sendQs n3 = sendQs n2"
    by (rule upd_conn_total [OF c2])
  have c3: "conns n3 i = Some (messageOut (postSend vs c))" "\<not> freed (messageOut (postSend vs c))" "\<not> mCleaning (messageOut (postSend vs c))"
    using n3(2) assms(2,3) by (simp_all add: messageOut_def postSend_def)
  obtain n4 where n4: "net_release raw i n3 = ret n4"
      "conns n4 = (conns n3)(i \<mapsto> (messageOut (postSend vs c))\<lparr>mRefCount := mRefCount (messageOut (postSend vs c)) - 1\<rparr>)" "same_env n3 n4"
      "sendQs n4 = sendQs n3"
    by (rule net_release_total [OF c3])
  have "same_env n n4"
    using n1(3) n3(3) n4(3) by (simp add: same_env_def n2_def)
  then show thesis
    by (intro that [of n4]) (use n1 s p n3 n4 in \<open>auto simp: post_and_release_def n2_def messageOut_def postSend_def fun_eq_iff\<close>)
qed

section \<open>Sending a request\<close>

lemma length_with_last_param: "length (with_last_param cbp md vs) = length vs"
  by (simp add: with_last_param_def Let_def)


section \<open>Sending a response\<close>

abbreviation answer_md :: "comm_event \<Rightarrow> rpc_msg \<Rightarrow> msg_desc" where
  "answer_md e m \<equiv> (response e)\<lparr>msg := Some (set_msg_id (ucast (requestId e)) m)\<rparr>"

lemma iov_cleanups_user: "iov_cleanups (map (\<lambda>a. setCallback SendCb NoParam (IoVec_vec a USER_ALLOC)) as) w = Inr w"
  by (induction as) (simp_all add: iov_cleanup_def setCallback_def IoVec_vec_def IoVec_full_def)

lemma iov_cleanups_append: "iov_cleanups (us @ vs) w = and_then (iov_cleanups us w) (iov_cleanups vs)"
  by (induction us arbitrary: w) (auto simp: and_then_def split: sum.splits prod.splits)

lemma iov_cleanup_heap_param: "iov_cleanup (setCallback cb p v) w = and_then (iov_cleanup v w) (\<lambda>(v', w'). Inr (setCallback cb NoParam v', w'))"
  by (simp add: iov_cleanup_def setCallback_def and_then_def split: sum.split)

lemma iov_cleanups_param: "iov_cleanups (vs[k := setCallback cb p (vs ! k)]) w = iov_cleanups vs w"
proof (induction vs arbitrary: k w)
  case (Cons v vs)
  show ?case
  proof (cases k)
    case 0
    then show ?thesis by (simp add: iov_cleanup_heap_param and_then_def split: sum.splits)
  next
    case (Suc j)
    then show ?thesis using Cons.IH [of j] by (simp add: fun_eq_iff and_then_def split: sum.split)
  qed
qed simp

text \<open>C25: A response goes back on the connection its request came from: \<^verbatim>\<open>sendResponse\<close> stamps it with the number
  of the request and appends its vectors to the send queue of that connection; when the connection is gone it
  frees what it built, completes the event as failed and touches no connection.\<close>

theorem response_posted:
  assumes "net_inv n" "cevs (nw n) cev = Some e" "msg (response e) = Some m" "sock e \<noteq> -1" "sendQs n \<noteq> []"
    and "nextp (nw n) \<noteq> 0" "heap (nw n) (nextp (nw n)) = None"
  shows "\<exists>n'. sendResponse raw cev n = ret n' \<and>
    (case mgr_find (sock e) (connMgr n) of
      Some i \<Rightarrow> \<exists>c vs. conns n i = Some c \<and> mSock c = sock e \<and>
        conns n' = (conns n)(i \<mapsto> c\<lparr>mSendQ := mSendQ c @ vs, msgOut := msgOut c + 1\<rparr>) \<and>
        prepareRespIovecs (answer_md e m) cev (nw (on_world (upd_cev (\<lambda>x. x\<lparr>response := answer_md e m\<rparr>) cev) n)) =
          Inr (Some vs, message_world (set_msg_id (ucast (requestId e)) m) (answer_md e m) (nw (on_world (upd_cev (\<lambda>x. x\<lparr>response := answer_md e m\<rparr>) cev) n))) \<and>
        sendQs n' = queued (sock e) (sendQs n) \<and> completed (nw n') = completed (nw n)
    | None \<Rightarrow> conns n' = conns n \<and> heap (nw n') = heap (nw n) \<and> completed (nw n') = completed (nw n) @ [(cev, CONN_FAILURE)])"
proof -
  let ?m = "set_msg_id (ucast (requestId e)) m" and ?md = "answer_md e m"
  define n1 where "n1 = on_world (upd_cev (\<lambda>x. x\<lparr>response := answer_md e m\<rparr>) cev) n"
  have n1: "connMgr n1 = connMgr n" "conns n1 = conns n" "sendQs n1 = sendQs n" "completed (nw n1) = completed (nw n)"
    "heap (nw n1) = heap (nw n)" "nextp (nw n1) = nextp (nw n)"
    by (simp_all add: n1_def on_world_def upd_cev_def)
  have md: "msg ?md = Some ?m" by simp
  let ?p = "cb_param_zero\<lparr>cbCev := Some cev, cbCs := True\<rparr>"
  let ?vs = "with_last_param ?p ?md (plain_vecs ?m ?md (nw n1))"
  define n2 where "n2 = n1\<lparr>nw := message_world ?m ?md (nw n1)\<rparr>"
  have n2: "try_world (prepareRespIovecs ?md cev) n1 = ret (Some ?vs, n2)"
    unfolding try_world_def prepareResp_spec [OF md] by (simp add: n2_def)
  have run: "sendResponse raw cev n = thenr (getConn raw None SOCK_ERR False False (targetEp e) True (sock e) n2) (\<lambda>(c, n3).
      case c of Inl _ \<Rightarrow> cleanupFailedResp cev CONN_FAILURE ?vs n3 | Inr i \<Rightarrow> post_and_release raw ?vs i n3)"
    unfolding sendResponse_def assms(2,3) option.case Let_def n1_def [symmetric] n2 by (simp only: thenr_simps prod.case option.case)
  show ?thesis
  proof (cases "mgr_find (sock e) (connMgr n)")
    case (Some i)
    obtain c where c: "conns n i = Some c" "\<not> freed c" "\<not> mCleaning c" "mSock c = sock e"
      using assms(1) Some by (rule net_ok_find)
    have f: "mgr_find (sock e) (connMgr n2) = Some i" "conns n2 i = Some c" "sendQs n2 \<noteq> []"
      using Some c n1 assms(5) by (simp_all add: n2_def)
    obtain n3 where n3: "getConn raw None SOCK_ERR False False (targetEp e) True (sock e) n2 = ret (Inr i, n3)"
      "conns n3 = (conns n2)(i \<mapsto> acquire c)" "same_env n2 n3" "sendQs n3 = sendQs n2"
      by (rule getConn_found_sock [OF f(1) assms(4) f(2) c(2)])
    have c3: "conns n3 i = Some (acquire c)" "\<not> freed (acquire c)" "\<not> mCleaning (acquire c)" "sendQs n3 \<noteq> []"
      using n3(2,4) c f(3) by (simp_all add: acquire_def)
    obtain n4 where n4: "post_and_release raw ?vs i n3 = ret n4"
      "conns n4 = (conns n3)(i \<mapsto> (acquire c)\<lparr>mSendQ := mSendQ (acquire c) @ ?vs, msgOut := msgOut (acquire c) + 1,
         mRefCount := mRefCount (acquire c) - 1\<rparr>)" "same_env n3 n4" "sendQs n4 = queued (mSock (acquire c)) (sendQs n3)"
      by (rule post_and_release_total [OF c3])
    have "conns n4 = (conns n)(i \<mapsto> c\<lparr>mSendQ := mSendQ c @ ?vs, msgOut := msgOut c + 1\<rparr>)"
      using n4(2) n3(2) n1(2) by (simp add: n2_def acquire_def fun_eq_iff)
    moreover have "sendQs n4 = queued (sock e) (sendQs n)" using n4(4) n3(4) n1(3) c(4) by (simp add: n2_def acquire_def)
    moreover have "completed (nw n4) = completed (nw n)"
      using n4(3) n3(3) n1(4) by (simp add: same_env_def n2_def message_world_def)
    moreover have "sendResponse raw cev n = ret n4" unfolding run n3(1) thenr_simps prod.case sum.case by (rule n4(1))
    ultimately show ?thesis
      unfolding Some option.case n1_def [symmetric] using c(1,4) prepareResp_spec [OF md, of cev "nw n1"] by blast
  next
    case None
    have g: "getConn raw None SOCK_ERR False False (targetEp e) True (sock e) n2 = ret (Inl NET_ERR_CONN_NOTFOUND, n2)"
      using None assms(4) n1(1) by (simp add: getConn_def net_find_def n2_def)
    let ?w = "message_world ?m ?md (nw n1)"
    have "iov_cleanups ?vs ?w = iov_cleanups (plain_vecs ?m ?md (nw n1)) ?w"
      unfolding with_last_param_def Let_def by (rule iov_cleanups_param)
    also have "\<dots> = Inr (?w\<lparr>heap := (heap ?w)(nextp (nw n1) := None)\<rparr>)"
      using assms(6) n1(6) by (simp add: iov_cleanups_user iov_cleanup_def message_vec_def IoVec_full_def delete_buf_def message_world_def)
    finally have "cleanupFailedResp cev CONN_FAILURE ?vs n2 =
        ret (on_world (completeEvent CONN_FAILURE cev) (n2\<lparr>nw := ?w\<lparr>heap := (heap ?w)(nextp (nw n1) := None)\<rparr>\<rparr>))"
      unfolding cleanupFailedResp_def try_world_def by (simp add: n2_def)
    then show ?thesis using run g None n1 assms(2,7)
      by (simp add: n2_def on_world_def message_world_def completeEvent_def cev_done_def setStatus_def upd_cev_def getStatus_def
          n1_def fun_eq_iff)
  qed
qed

section \<open>Concrete runs\<close>

definition sample_event :: comm_event where
  "sample_event = (CommEvent_new (Some (MsgDesc_new (Some (MReq wf_req)))) (Some (MsgDesc_new (Some (MRsp sample_rsp)))) sample_ep)
     \<lparr>sock := 7, requestId := 5\<rparr>"

definition sample_busy :: net where
  "sample_busy = on_world (\<lambda>w. w\<lparr>cevs := [0 \<mapsto> sample_event]\<rparr>) (snd sample_get)"

lemma sample_busy_facts:
  "net_inv sample_busy" "mgr_find_ep (targetEp sample_event) (connMgr sample_busy) = Inr (Some 0)"
  "mgr_find 7 (connMgr sample_busy) = Some 0" "sendQs sample_busy = [[]]" "cevs (nw sample_busy) 0 = Some sample_event"
  "heap (nw sample_busy) (nextp (nw sample_busy)) = None" "nextp (nw sample_busy) \<noteq> 0"
proof -
  have "net_inv (snd sample_get)" using sample_reach by (rule network.reach_inv)
  then show "net_inv sample_busy" by (simp add: sample_busy_def on_world_def net_ok_def)
  show "mgr_find_ep (targetEp sample_event) (connMgr sample_busy) = Inr (Some 0)"
    "mgr_find 7 (connMgr sample_busy) = Some 0" "sendQs sample_busy = [[]]" "cevs (nw sample_busy) 0 = Some sample_event"
    "heap (nw sample_busy) (nextp (nw sample_busy)) = None" "nextp (nw sample_busy) \<noteq> 0"
    unfolding sample_busy_def sample_get_def sample_event_def
    by (simp_all add: net_eval sample_net_def sample_world_def on_world_def CommEvent_new_def)
qed

lemma sample_event_sel: "msg (request sample_event) = Some (MReq wf_req)" "msg (response sample_event) = Some (MRsp sample_rsp)"
  "sock sample_event = 7"
  by (simp_all add: sample_event_def CommEvent_new_def MsgDesc_new_def)

lemma sample_busy_conn: "\<exists>c. conns sample_busy 0 = Some c"
  by (rule net_ok_find [OF sample_busy_facts(1,3)]) blast


theorem response_posted_witness:
  "\<exists>n'. sendResponse sample_rsp 0 sample_busy = ret n' \<and> sendQs n' = [[7]] \<and> completed (nw n') = completed (nw sample_busy)"
proof -
  have q: "sendQs sample_busy \<noteq> []" "queued 7 [[]] = [[7]]" "sock sample_event \<noteq> -1"
    by (simp_all add: sample_busy_facts(4) queued_def thread_index_def sample_event_sel)
  from response_posted [OF sample_busy_facts(1,5) sample_event_sel(2) q(3,1) sample_busy_facts(7,6), of sample_rsp]
  show ?thesis unfolding sample_event_sel(3) sample_busy_facts(3) option.case sample_busy_facts(4) q(2) by blast
qed

end
