(* ===== verification/MD5.thy ===== *)
theory MD5
  imports Prelude
begin

unbundle bit_operations_syntax

text \<open>
  The message digest of src/math/md5.cpp: the context, the 64 steps of
  \<^verbatim>\<open>MD5Transform\<close>, the incremental interface and the three entry points. Every access to a
  buffer is checked against its bounds (\<open>None\<close> is an access outside). The reference at the end is
  the algorithm of RFC 1321 on a whole message: pad, cut into blocks, compress; \<open>md5_equiv\<close> shows
  that the incremental code computes it.
\<close>

section \<open>The context and the steps\<close>

record MD5_CTX =
  md_state :: "u32 list"
  md_count :: "u32 list"
  md_buffer :: "u8 list"

definition S11 :: nat where "S11 = 7"
definition S12 :: nat where "S12 = 12"
definition S13 :: nat where "S13 = 17"
definition S14 :: nat where "S14 = 22"
definition S21 :: nat where "S21 = 5"
definition S22 :: nat where "S22 = 9"
definition S23 :: nat where "S23 = 14"
definition S24 :: nat where "S24 = 20"
definition S31 :: nat where "S31 = 4"
definition S32 :: nat where "S32 = 11"
definition S33 :: nat where "S33 = 16"
definition S34 :: nat where "S34 = 23"
definition S41 :: nat where "S41 = 6"
definition S42 :: nat where "S42 = 10"
definition S43 :: nat where "S43 = 15"
definition S44 :: nat where "S44 = 21"

definition PADDING :: "u8 list" where "PADDING = 0x80 # replicate 63 0"

definition F :: "u32 \<Rightarrow> u32 \<Rightarrow> u32 \<Rightarrow> u32" where "F x y z = (x AND y) OR (NOT x AND z)"
definition G :: "u32 \<Rightarrow> u32 \<Rightarrow> u32 \<Rightarrow> u32" where "G x y z = (x AND z) OR (y AND NOT z)"
definition H :: "u32 \<Rightarrow> u32 \<Rightarrow> u32 \<Rightarrow> u32" where "H x y z = x XOR y XOR z"
definition I :: "u32 \<Rightarrow> u32 \<Rightarrow> u32 \<Rightarrow> u32" where "I x y z = y XOR (x OR NOT z)"

definition ROTATE_LEFT :: "u32 \<Rightarrow> nat \<Rightarrow> u32" where
  "ROTATE_LEFT x n = push_bit n x OR drop_bit (32 - n) x"

definition FF :: "u32 \<Rightarrow> u32 \<Rightarrow> u32 \<Rightarrow> u32 \<Rightarrow> u32 \<Rightarrow> nat \<Rightarrow> u32 \<Rightarrow> u32" where
  "FF a b c d x s ac = ROTATE_LEFT (a + (F b c d + x + ac)) s + b"
definition GG :: "u32 \<Rightarrow> u32 \<Rightarrow> u32 \<Rightarrow> u32 \<Rightarrow> u32 \<Rightarrow> nat \<Rightarrow> u32 \<Rightarrow> u32" where
  "GG a b c d x s ac = ROTATE_LEFT (a + (G b c d + x + ac)) s + b"
definition HH :: "u32 \<Rightarrow> u32 \<Rightarrow> u32 \<Rightarrow> u32 \<Rightarrow> u32 \<Rightarrow> nat \<Rightarrow> u32 \<Rightarrow> u32" where
  "HH a b c d x s ac = ROTATE_LEFT (a + (H b c d + x + ac)) s + b"
definition II :: "u32 \<Rightarrow> u32 \<Rightarrow> u32 \<Rightarrow> u32 \<Rightarrow> u32 \<Rightarrow> nat \<Rightarrow> u32 \<Rightarrow> u32" where
  "II a b c d x s ac = ROTATE_LEFT (a + (I b c d + x + ac)) s + b"

text \<open>The four rounds, line by line.\<close>

definition MD5_round1 :: "u32 list \<Rightarrow> u32 \<times> u32 \<times> u32 \<times> u32 \<Rightarrow> u32 \<times> u32 \<times> u32 \<times> u32" where
  "MD5_round1 x = (\<lambda>(a, b, c, d).
     let a = FF a b c d (x ! 0) S11 0xd76aa478;
         d = FF d a b c (x ! 1) S12 0xe8c7b756;
         c = FF c d a b (x ! 2) S13 0x242070db;
         b = FF b c d a (x ! 3) S14 0xc1bdceee;
         a = FF a b c d (x ! 4) S11 0xf57c0faf;
         d = FF d a b c (x ! 5) S12 0x4787c62a;
         c = FF c d a b (x ! 6) S13 0xa8304613;
         b = FF b c d a (x ! 7) S14 0xfd469501;
         a = FF a b c d (x ! 8) S11 0x698098d8;
         d = FF d a b c (x ! 9) S12 0x8b44f7af;
         c = FF c d a b (x ! 10) S13 0xffff5bb1;
         b = FF b c d a (x ! 11) S14 0x895cd7be;
         a = FF a b c d (x ! 12) S11 0x6b901122;
         d = FF d a b c (x ! 13) S12 0xfd987193;
         c = FF c d a b (x ! 14) S13 0xa679438e;
         b = FF b c d a (x ! 15) S14 0x49b40821
     in (a, b, c, d))"

definition MD5_round2 :: "u32 list \<Rightarrow> u32 \<times> u32 \<times> u32 \<times> u32 \<Rightarrow> u32 \<times> u32 \<times> u32 \<times> u32" where
  "MD5_round2 x = (\<lambda>(a, b, c, d).
     let a = GG a b c d (x ! 1) S21 0xf61e2562;
         d = GG d a b c (x ! 6) S22 0xc040b340;
         c = GG c d a b (x ! 11) S23 0x265e5a51;
         b = GG b c d a (x ! 0) S24 0xe9b6c7aa;
         a = GG a b c d (x ! 5) S21 0xd62f105d;
         d = GG d a b c (x ! 10) S22 0x2441453;
         c = GG c d a b (x ! 15) S23 0xd8a1e681;
         b = GG b c d a (x ! 4) S24 0xe7d3fbc8;
         a = GG a b c d (x ! 9) S21 0x21e1cde6;
         d = GG d a b c (x ! 14) S22 0xc33707d6;
         c = GG c d a b (x ! 3) S23 0xf4d50d87;
         b = GG b c d a (x ! 8) S24 0x455a14ed;
         a = GG a b c d (x ! 13) S21 0xa9e3e905;
         d = GG d a b c (x ! 2) S22 0xfcefa3f8;
         c = GG c d a b (x ! 7) S23 0x676f02d9;
         b = GG b c d a (x ! 12) S24 0x8d2a4c8a
     in (a, b, c, d))"

definition MD5_round3 :: "u32 list \<Rightarrow> u32 \<times> u32 \<times> u32 \<times> u32 \<Rightarrow> u32 \<times> u32 \<times> u32 \<times> u32" where
  "MD5_round3 x = (\<lambda>(a, b, c, d).
     let a = HH a b c d (x ! 5) S31 0xfffa3942;
         d = HH d a b c (x ! 8) S32 0x8771f681;
         c = HH c d a b (x ! 11) S33 0x6d9d6122;
         b = HH b c d a (x ! 14) S34 0xfde5380c;
         a = HH a b c d (x ! 1) S31 0xa4beea44;
         d = HH d a b c (x ! 4) S32 0x4bdecfa9;
         c = HH c d a b (x ! 7) S33 0xf6bb4b60;
         b = HH b c d a (x ! 10) S34 0xbebfbc70;
         a = HH a b c d (x ! 13) S31 0x289b7ec6;
         d = HH d a b c (x ! 0) S32 0xeaa127fa;
         c = HH c d a b (x ! 3) S33 0xd4ef3085;
         b = HH b c d a (x ! 6) S34 0x4881d05;
         a = HH a b c d (x ! 9) S31 0xd9d4d039;
         d = HH d a b c (x ! 12) S32 0xe6db99e5;
         c = HH c d a b (x ! 15) S33 0x1fa27cf8;
         b = HH b c d a (x ! 2) S34 0xc4ac5665
     in (a, b, c, d))"

definition MD5_round4 :: "u32 list \<Rightarrow> u32 \<times> u32 \<times> u32 \<times> u32 \<Rightarrow> u32 \<times> u32 \<times> u32 \<times> u32" where
  "MD5_round4 x = (\<lambda>(a, b, c, d).
     let a = II a b c d (x ! 0) S41 0xf4292244;
         d = II d a b c (x ! 7) S42 0x432aff97;
         c = II c d a b (x ! 14) S43 0xab9423a7;
         b = II b c d a (x ! 5) S44 0xfc93a039;
         a = II a b c d (x ! 12) S41 0x655b59c3;
         d = II d a b c (x ! 3) S42 0x8f0ccc92;
         c = II c d a b (x ! 10) S43 0xffeff47d;
         b = II b c d a (x ! 1) S44 0x85845dd1;
         a = II a b c d (x ! 8) S41 0x6fa87e4f;
         d = II d a b c (x ! 15) S42 0xfe2ce6e0;
         c = II c d a b (x ! 6) S43 0xa3014314;
         b = II b c d a (x ! 13) S44 0x4e0811a1;
         a = II a b c d (x ! 4) S41 0xf7537e82;
         d = II d a b c (x ! 11) S42 0xbd3af235;
         c = II c d a b (x ! 2) S43 0x2ad7d2bb;
         b = II b c d a (x ! 9) S44 0xeb86d391
     in (a, b, c, d))"

definition Encode :: "u32 list \<Rightarrow> nat \<Rightarrow> u8 list" where
  "Encode input len = concat (map (\<lambda>i. [ucast (input ! i AND 0xff),
      ucast (drop_bit 8 (input ! i) AND 0xff), ucast (drop_bit 16 (input ! i) AND 0xff),
      ucast (drop_bit 24 (input ! i) AND 0xff)]) [0..<(len + 3) div 4])"

definition Decode :: "u8 list \<Rightarrow> nat \<Rightarrow> u32 list" where
  "Decode input len = map (\<lambda>i. ucast (input ! (4 * i)) OR push_bit 8 (ucast (input ! (4 * i + 1)))
      OR push_bit 16 (ucast (input ! (4 * i + 2))) OR push_bit 24 (ucast (input ! (4 * i + 3))))
    [0..<(len + 3) div 4]"

definition MD5Transform :: "u32 list \<Rightarrow> u8 list \<Rightarrow> u32 list" where
  "MD5Transform st block =
     (let x = Decode block 64;
          (a, b, c, d) = MD5_round4 x (MD5_round3 x (MD5_round2 x
             (MD5_round1 x (st ! 0, st ! 1, st ! 2, st ! 3))))
      in [st ! 0 + a, st ! 1 + b, st ! 2 + c, st ! 3 + d])"

section \<open>The incremental interface\<close>

definition MD5_memcpy :: "u8 list \<Rightarrow> nat \<Rightarrow> u8 list \<Rightarrow> nat \<Rightarrow> nat \<Rightarrow> u8 list option" where
  "MD5_memcpy out off input ioff len =
     (if off + len \<le> length out \<and> ioff + len \<le> length input
      then Some (poke off (peek ioff len input) out) else None)"

definition MD5_memset :: "nat \<Rightarrow> u8 \<Rightarrow> u8 list" where
  "MD5_memset len v = replicate len v"

definition MD5Init :: "MD5_CTX \<Rightarrow> MD5_CTX" where
  "MD5Init context = context\<lparr>md_count := [0, 0],
     md_state := [0x67452301, 0xefcdab89, 0x98badcfe, 0x10325476]\<rparr>"

text \<open>The loop of \<^verbatim>\<open>MD5Update\<close> over whole blocks of the input, with the counter of the code.\<close>

partial_function (option) MD5_blocks ::
    "u32 list \<Rightarrow> u8 list \<Rightarrow> u32 \<Rightarrow> u32 \<Rightarrow> (u32 list \<times> u32) option" where
  "MD5_blocks st input i inputLen =
     (if i + 63 < inputLen
      then if unat i + 64 \<le> length input
           then MD5_blocks (MD5Transform st (peek (unat i) 64 input)) input (i + 64) inputLen
           else None
      else Some (st, i))"

definition MD5Update :: "MD5_CTX \<Rightarrow> u8 list \<Rightarrow> u32 \<Rightarrow> MD5_CTX option" where
  "MD5Update context input inputLen =
     (let index = drop_bit 3 (md_count context ! 0) AND 0x3F;
          c0 = md_count context ! 0 + push_bit 3 inputLen;
          c1 = (if c0 < push_bit 3 inputLen then md_count context ! 1 + 1 else md_count context ! 1)
               + drop_bit 29 inputLen;
          ctx = context\<lparr>md_count := [c0, c1]\<rparr>;
          partLen = 64 - index
      in if partLen \<le> inputLen
         then (case MD5_memcpy (md_buffer ctx) (unat index) input 0 (unat partLen) of
                 None \<Rightarrow> None
               | Some buf \<Rightarrow>
                   (case MD5_blocks (MD5Transform (md_state ctx) buf) input partLen inputLen of
                      None \<Rightarrow> None
                    | Some (st, i) \<Rightarrow>
                        (case MD5_memcpy buf 0 input (unat i) (unat (inputLen - i)) of
                           None \<Rightarrow> None
                         | Some buf' \<Rightarrow> Some (ctx\<lparr>md_state := st, md_buffer := buf'\<rparr>))))
         else (case MD5_memcpy (md_buffer ctx) (unat index) input 0 (unat inputLen) of
                 None \<Rightarrow> None
               | Some buf \<Rightarrow> Some (ctx\<lparr>md_buffer := buf\<rparr>)))"

definition MD5Final :: "MD5_CTX \<Rightarrow> (u8 list \<times> MD5_CTX) option" where
  "MD5Final context =
     (let bits = Encode (md_count context) 8;
          index = drop_bit 3 (md_count context ! 0) AND 0x3f;
          padLen = (if index < 56 then 56 - index else 120 - index)
      in case MD5Update context PADDING padLen of
           None \<Rightarrow> None
         | Some c1 \<Rightarrow>
             (case MD5Update c1 bits 8 of
                None \<Rightarrow> None
              | Some c2 \<Rightarrow> Some (Encode (md_state c2) 16,
                  \<lparr>md_state = replicate 4 0, md_count = replicate 2 0, md_buffer = MD5_memset 64 0\<rparr>)))"

text \<open>The entry points. \<open>stack\<close> is the context as it lies, uninitialised, on the stack.\<close>

definition MD5Buffer :: "MD5_CTX \<Rightarrow> u8 list \<Rightarrow> u32 \<Rightarrow> (int \<times> u8 list) option" where
  "MD5Buffer stack buffer len =
     (case MD5Update (MD5Init stack) buffer len of
        None \<Rightarrow> None
      | Some c \<Rightarrow> (case MD5Final c of None \<Rightarrow> None | Some (digest, _) \<Rightarrow> Some (0, digest)))"

definition MD5String :: "MD5_CTX \<Rightarrow> string \<Rightarrow> (int \<times> u8 list) option" where
  "MD5String stack s = MD5Buffer stack (map of_char (cstr s)) (of_nat (length (cstr s)))"

text \<open>\<^verbatim>\<open>fread\<close> hands out the next 1024 bytes, the last piece being shorter.\<close>

function MD5_file_loop :: "MD5_CTX \<Rightarrow> u8 list \<Rightarrow> MD5_CTX option" where
  "MD5_file_loop context rest =
     (let buffer = take 1024 rest; len = length buffer
      in if 0 < len
         then (case MD5Update context buffer (of_nat len) of
                 None \<Rightarrow> None
               | Some c \<Rightarrow> MD5_file_loop c (drop 1024 rest))
         else Some context)"
  by pat_completeness auto
termination by (relation "measure (\<lambda>(_, rest). length rest)") auto

declare MD5_file_loop.simps [simp del]

text \<open>\<open>file\<close> is \<open>None\<close> when \<^verbatim>\<open>fopen\<close> fails; the digest is then left alone.\<close>

definition MD5File :: "MD5_CTX \<Rightarrow> u8 list option \<Rightarrow> (int \<times> u8 list option) option" where
  "MD5File stack file =
     (case file of
        None \<Rightarrow> Some (-1, None)
      | Some content \<Rightarrow>
          (case MD5_file_loop (MD5Init stack) content of
             None \<Rightarrow> None
           | Some c \<Rightarrow> (case MD5Final c of None \<Rightarrow> None | Some (digest, _) \<Rightarrow> Some (0, Some digest))))"

section \<open>The reference: RFC 1321\<close>

definition rfc_T :: "u32 list" where "rfc_T =
   [0xd76aa478, 0xe8c7b756, 0x242070db, 0xc1bdceee, 0xf57c0faf, 0x4787c62a, 0xa8304613, 0xfd469501,
    0x698098d8, 0x8b44f7af, 0xffff5bb1, 0x895cd7be, 0x6b901122, 0xfd987193, 0xa679438e, 0x49b40821,
    0xf61e2562, 0xc040b340, 0x265e5a51, 0xe9b6c7aa, 0xd62f105d, 0x2441453, 0xd8a1e681, 0xe7d3fbc8,
    0x21e1cde6, 0xc33707d6, 0xf4d50d87, 0x455a14ed, 0xa9e3e905, 0xfcefa3f8, 0x676f02d9, 0x8d2a4c8a,
    0xfffa3942, 0x8771f681, 0x6d9d6122, 0xfde5380c, 0xa4beea44, 0x4bdecfa9, 0xf6bb4b60, 0xbebfbc70,
    0x289b7ec6, 0xeaa127fa, 0xd4ef3085, 0x4881d05, 0xd9d4d039, 0xe6db99e5, 0x1fa27cf8, 0xc4ac5665,
    0xf4292244, 0x432aff97, 0xab9423a7, 0xfc93a039, 0x655b59c3, 0x8f0ccc92, 0xffeff47d, 0x85845dd1,
    0x6fa87e4f, 0xfe2ce6e0, 0xa3014314, 0x4e0811a1, 0xf7537e82, 0xbd3af235, 0x2ad7d2bb, 0xeb86d391]"

definition rfc_fun :: "nat \<Rightarrow> u32 \<Rightarrow> u32 \<Rightarrow> u32 \<Rightarrow> u32" where
  "rfc_fun i = (if i < 16 then F else if i < 32 then G else if i < 48 then H else I)"

definition rfc_index :: "nat \<Rightarrow> nat" where
  "rfc_index i = (if i < 16 then i else if i < 32 then (5 * i + 1) mod 16
     else if i < 48 then (3 * i + 5) mod 16 else (7 * i) mod 16)"

definition rfc_shift :: "nat \<Rightarrow> nat" where
  "rfc_shift i = [[7, 12, 17, 22], [5, 9, 14, 20], [4, 11, 16, 23], [6, 10, 15, 21]]
     ! (i div 16) ! (i mod 4)"

definition rfc_step :: "u32 list \<Rightarrow> u32 \<times> u32 \<times> u32 \<times> u32 \<Rightarrow> nat \<Rightarrow> u32 \<times> u32 \<times> u32 \<times> u32" where
  "rfc_step x = (\<lambda>(a, b, c, d) i.
     (d, ROTATE_LEFT (a + (rfc_fun i b c d + x ! rfc_index i + rfc_T ! i)) (rfc_shift i) + b, b, c))"

definition rfc_compress :: "u32 list \<Rightarrow> u8 list \<Rightarrow> u32 list" where
  "rfc_compress st block =
     (let (a, b, c, d) = foldl (rfc_step (Decode block 64)) (st ! 0, st ! 1, st ! 2, st ! 3) [0..<64]
      in [st ! 0 + a, st ! 1 + b, st ! 2 + c, st ! 3 + d])"

function rfc_fold :: "u32 list \<Rightarrow> u8 list \<Rightarrow> u32 list" where
  "rfc_fold st bs = (if length bs < 64 then st
     else rfc_fold (rfc_compress st (take 64 bs)) (drop 64 bs))"
  by pat_completeness auto
termination by (relation "measure (\<lambda>(_, bs). length bs)") auto

declare rfc_fold.simps [simp del]

definition rfc_init :: "u32 list" where
  "rfc_init = [0x67452301, 0xefcdab89, 0x98badcfe, 0x10325476]"

definition rfc_pad :: "u8 list \<Rightarrow> u8 list" where
  "rfc_pad bs = bs @ [0x80] @ replicate ((119 - length bs mod 64) mod 64) 0
     @ map (\<lambda>k. word_of_nat (8 * length bs div 256 ^ k)) [0..<8]"

definition rfc_md5 :: "u8 list \<Rightarrow> u8 list" where
  "rfc_md5 bs = concat (map (\<lambda>w. map (\<lambda>k. ucast (drop_bit (8 * k) w)) [0..<4])
     (rfc_fold rfc_init (rfc_pad bs)))"

section \<open>The steps are those of the reference\<close>

lemma rfc_let:
  assumes "v = ROTATE_LEFT (a + (rfc_fun i b c d + x ! rfc_index i + rfc_T ! i)) (rfc_shift i) + b"
    and "\<And>a'. R a' = foldl (rfc_step x) (d, a', b, c) is"
  shows "(let a' = v in R a') = foldl (rfc_step x) (a, b, c, d) (i # is)"
  using assms by (simp add: rfc_step_def)

lemma rfc_end: "(a, b, c, d) = foldl (rfc_step x) (a, b, c, d) []"
  by simp

lemmas rfc_tables = rfc_fun_def rfc_index_def rfc_shift_def rfc_T_def
lemmas shift_names = S11_def S12_def S13_def S14_def S21_def S22_def S23_def S24_def
  S31_def S32_def S33_def S34_def S41_def S42_def S43_def S44_def

lemma upt_rounds:
  "[0..<16] = [0, 1, 2, 3, 4, 5, 6, 7, 8, 9, 10, 11, 12, 13, 14, 15]"
  "[16..<32] = [16, 17, 18, 19, 20, 21, 22, 23, 24, 25, 26, 27, 28, 29, 30, 31]"
  "[32..<48] = [32, 33, 34, 35, 36, 37, 38, 39, 40, 41, 42, 43, 44, 45, 46, 47]"
  "[48..<64] = [48, 49, 50, 51, 52, 53, 54, 55, 56, 57, 58, 59, 60, 61, 62, 63]"
  by (simp_all add: upt_rec_numeral upt_conv_Cons)

lemma round1_rfc: "MD5_round1 x (a, b, c, d) = foldl (rfc_step x) (a, b, c, d) [0..<16]"
  unfolding MD5_round1_def prod.case upt_rounds
  by (rule rfc_let, simp add: rfc_tables FF_def shift_names)+ (rule rfc_end)

lemma round2_rfc: "MD5_round2 x (a, b, c, d) = foldl (rfc_step x) (a, b, c, d) [16..<32]"
  unfolding MD5_round2_def prod.case upt_rounds
  by (rule rfc_let, simp add: rfc_tables GG_def shift_names)+ (rule rfc_end)

lemma round3_rfc: "MD5_round3 x (a, b, c, d) = foldl (rfc_step x) (a, b, c, d) [32..<48]"
  unfolding MD5_round3_def prod.case upt_rounds
  by (rule rfc_let, simp add: rfc_tables HH_def shift_names)+ (rule rfc_end)

lemma round4_rfc: "MD5_round4 x (a, b, c, d) = foldl (rfc_step x) (a, b, c, d) [48..<64]"
  unfolding MD5_round4_def prod.case upt_rounds
  by (rule rfc_let, simp add: rfc_tables II_def shift_names)+ (rule rfc_end)

lemma MD5Transform_rfc: "MD5Transform st block = rfc_compress st block"
proof -
  have split: "[0..<64::nat] = [0..<16] @ [16..<32] @ [32..<48] @ [48..<64]"
    by (simp add: upt_rounds upt_rec_numeral upt_conv_Cons)
  have "MD5_round1 x p = foldl (rfc_step x) p [0..<16]"
    "MD5_round2 x p = foldl (rfc_step x) p [16..<32]"
    "MD5_round3 x p = foldl (rfc_step x) p [32..<48]"
    "MD5_round4 x p = foldl (rfc_step x) p [48..<64]" for x p
    by (cases p; simp only: round1_rfc round2_rfc round3_rfc round4_rfc)+
  then have "MD5_round4 x (MD5_round3 x (MD5_round2 x (MD5_round1 x p)))
      = foldl (rfc_step x) p [0..<64]" for x p
    by (simp only: split foldl_append)
  then show ?thesis
    by (simp only: MD5Transform_def rfc_compress_def Let_def)
qed

section \<open>Words and bytes\<close>

lemma ucast_mask_byte: "(ucast (w AND 0xff :: u32) :: u8) = ucast w"
proof -
  have *: "(0xff :: u32) = mask 8" by (simp add: mask_eq_exp_minus_1)
  show ?thesis unfolding * by (intro bit_word_eqI) (auto simp: bit_simps)
qed

lemma Encode_bytes:
  "length ws = n \<Longrightarrow> Encode ws (4 * n) = concat (map (\<lambda>w. map (\<lambda>k. ucast (drop_bit (8 * k) w)) [0..<4]) ws)"
proof -
  assume n: "length ws = n"
  have "[0..<4::nat] = [0, 1, 2, 3]" by (simp add: upt_rec_numeral upt_conv_Cons)
  moreover have "(4 * n + 3) div 4 = n" by simp
  ultimately have *: "Encode ws (4 * n) = concat (map ((\<lambda>w. map (\<lambda>k. ucast (drop_bit (8 * k) w)) [0..<4]) \<circ> (!) ws) [0..<n])"
    unfolding Encode_def by (simp add: ucast_mask_byte comp_def)
  have "map f ws = map (f \<circ> (!) ws) [0..<n]" for f :: "u32 \<Rightarrow> u8 list"
    unfolding n [symmetric] by (simp only: map_map [symmetric] map_nth)
  then show ?thesis unfolding * by (simp only:)
qed

lemma nat_byte: "m div 256 ^ k = drop_bit (8 * k) (m :: nat)"
  by (simp add: drop_bit_eq_div power_mult)

lemma ucast_byte_of_nat:
  "k < 4 \<Longrightarrow> (ucast (drop_bit (8 * k) (word_of_nat m :: u32)) :: u8) = word_of_nat (m div 256 ^ k)"
  unfolding nat_byte by (intro bit_word_eqI) (auto simp: bit_simps)

lemma index_word: "drop_bit 3 (word_of_nat (8 * m) :: u32) AND 0x3F = word_of_nat (m mod 64)"
proof -
  have *: "(0x3F :: u32) = mask 6" "m mod 64 = take_bit 6 m" "8 * m = push_bit 3 m"
    by (simp_all add: mask_eq_exp_minus_1 take_bit_eq_mod push_bit_eq_mult)
  show ?thesis unfolding * by (intro bit_word_eqI) (auto simp: bit_simps)
qed

lemma count_low: "word_of_nat (8 * m) + push_bit 3 (word_of_nat n) = (word_of_nat (8 * (m + n)) :: u32)"
  by (simp add: push_bit_eq_mult algebra_simps)

lemma wrap_less_aux:
  assumes "x < M" "y < (M :: nat)"
  shows "(x + y) mod M < y \<longleftrightarrow> M \<le> x + y"
proof (cases "M \<le> x + y")
  case True
  then have "(x + y) mod M = x + y - M" using assms by (simp add: le_mod_geq)
  with True assms show ?thesis by linarith
qed (use assms in simp)

lemma wrap_less: "0 < (M :: nat) \<Longrightarrow> (a + b) mod M < b mod M \<longleftrightarrow> M \<le> a mod M + b mod M"
  using wrap_less_aux [of "a mod M" M "b mod M"] by (simp add: mod_add_eq)

lemma count_high:
  assumes "n < 2 ^ 32"
  shows "(if (word_of_nat (8 * (m + n)) :: u32) < push_bit 3 (word_of_nat n)
          then word_of_nat (8 * m div 2 ^ 32) + 1 else word_of_nat (8 * m div 2 ^ 32))
        + drop_bit 29 (word_of_nat n) = (word_of_nat (8 * (m + n) div 2 ^ 32) :: u32)"
proof -
  define a b where "a = 8 * m" and "b = 8 * n"
  have hi: "drop_bit 29 (word_of_nat n :: u32) = word_of_nat (b div 2 ^ 32)"
    using assms by (intro word_unat_eq_iff [THEN iffD2])
      (simp only: unat_drop_bit_eq unat_of_nat b_def drop_bit_eq_div,
       simp add: unat_div unat_of_nat take_bit_eq_mod)
  have lt: "(word_of_nat (a + b) :: u32) < word_of_nat b \<longleftrightarrow> 2 ^ 32 \<le> a mod 2 ^ 32 + b mod 2 ^ 32"
    using wrap_less [of "2 ^ 32" a b] unfolding word_less_nat_alt unat_of_nat by simp
  have "(a + b) div 2 ^ 32 = a div 2 ^ 32 + b div 2 ^ 32 + (a mod 2 ^ 32 + b mod 2 ^ 32) div 2 ^ 32"
    by (rule div_add1_eq)
  moreover have "(a mod 2 ^ 32 + b mod 2 ^ 32) div 2 ^ 32
      = of_bool (2 ^ 32 \<le> a mod 2 ^ 32 + b mod 2 ^ 32)"
    using mod_less_divisor [of "2 ^ 32" a] mod_less_divisor [of "2 ^ 32" b]
    by (auto simp: of_bool_def div_nat_eqI)
  ultimately have sum: "(a + b) div 2 ^ 32
      = a div 2 ^ 32 + b div 2 ^ 32 + of_bool (2 ^ 32 \<le> a mod 2 ^ 32 + b mod 2 ^ 32)"
    by (rule trans [OF _ arg_cong])
  have *: "push_bit 3 (word_of_nat n :: u32) = word_of_nat b" "8 * (m + n) = a + b"
    by (simp_all add: push_bit_eq_mult a_def b_def)
  show ?thesis
    unfolding a_def [symmetric] hi * lt sum
    by (cases "2 ^ 32 \<le> a mod 2 ^ 32 + b mod 2 ^ 32") (simp_all only: of_bool_eq if_True if_False
      of_nat_add of_nat_1 add_0_right ac_simps, simp)
qed

section \<open>The incremental code computes the reference\<close>

lemma rfc_fold_append:
  "64 dvd length xs \<Longrightarrow> rfc_fold st (xs @ ys) = rfc_fold (rfc_fold st xs) ys"
proof (induction st xs rule: rfc_fold.induct)
  case (1 st xs)
  show ?case
  proof (cases "xs = []")
    case False
    then have l: "64 \<le> length xs" using "1.prems" by (meson dvd_imp_le length_greater_0_conv)
    then have "64 dvd length (drop 64 xs)" using "1.prems" by (simp add: dvd_diff_nat)
    moreover have "rfc_fold st (xs @ ys) = rfc_fold (rfc_compress st (take 64 xs)) (drop 64 xs @ ys)"
      using l by (subst rfc_fold.simps) simp
    moreover have "rfc_fold st xs = rfc_fold (rfc_compress st (take 64 xs)) (drop 64 xs)"
      using l by (subst rfc_fold.simps) simp
    ultimately show ?thesis using "1.IH" l by simp
  qed (simp add: rfc_fold.simps)
qed

lemma rfc_fold_block: "length xs = 64 \<Longrightarrow> rfc_fold st xs = rfc_compress st xs"
  by (simp add: rfc_fold.simps)

lemma rfc_fold_short: "length xs < 64 \<Longrightarrow> rfc_fold st xs = st"
  by (simp add: rfc_fold.simps)

lemma MD5_blocks_fold:
  assumes "length input + 63 < 2 ^ 32" and "inputLen = word_of_nat (length input)"
    and "k \<le> length input"
  shows "MD5_blocks st (input @ zs) (word_of_nat k) inputLen
    = Some (rfc_fold st (drop k input), word_of_nat (k + 64 * ((length input - k) div 64)))"
  using assms(3)
proof (induction "length input - k" arbitrary: k st rule: less_induct)
  case less
  have u: "unat (word_of_nat k :: u32) = k" "unat (word_of_nat k + 63 :: u32) = k + 63"
    "unat inputLen = length input"
    using assms less.prems by (simp_all add: unat_of_nat unat_word_ariths)
  have test: "(word_of_nat k :: u32) + 63 < inputLen \<longleftrightarrow> k + 63 < length input"
    by (simp add: word_less_nat_alt u)
  show ?case
  proof (cases "k + 63 < length input")
    case True
    then have "MD5_blocks st (input @ zs) (word_of_nat k) inputLen
        = MD5_blocks (rfc_compress st (peek k 64 input)) (input @ zs) (word_of_nat (k + 64)) inputLen"
      using test by (subst MD5_blocks.simps) (simp add: u MD5Transform_rfc add.commute peek_append)
    moreover have "rfc_fold st (drop k input)
        = rfc_fold (rfc_compress st (peek k 64 input)) (drop (k + 64) input)"
      using True by (subst rfc_fold.simps) (auto simp: peek_def add.commute)
    moreover have "k + 64 * ((length input - k) div 64)
        = k + 64 + 64 * ((length input - (k + 64)) div 64)"
      using True by (simp add: div_if [of "length input - k" 64])
    ultimately show ?thesis using less.hyps [of "k + 64"] True by simp
  next
    case False
    then show ?thesis using test
      by (subst MD5_blocks.simps) (simp add: rfc_fold_short)
  qed
qed

text \<open>The context stands for the bytes given to it so far.\<close>

definition md_repr :: "MD5_CTX \<Rightarrow> u8 list \<Rightarrow> bool" where
  "md_repr c bs \<longleftrightarrow> length (md_buffer c) = 64
     \<and> md_count c = [word_of_nat (8 * length bs), word_of_nat (8 * length bs div 2 ^ 32)]
     \<and> md_state c = rfc_fold rfc_init bs
     \<and> take (length bs mod 64) (md_buffer c) = drop (length bs - length bs mod 64) bs"

lemma MD5Init_repr: "length (md_buffer c) = 64 \<Longrightarrow> md_repr (MD5Init c) []"
  by (simp add: md_repr_def MD5Init_def rfc_fold.simps rfc_init_def)

lemma whole_prefix: "64 dvd length (take (length bs - length bs mod 64) (bs :: 'a list))"
  by (simp only: length_take minus_mod_eq_mult_div min.absorb2 [OF times_div_less_eq_dividend]
      dvd_triv_left)

lemma rfc_fold_whole:
  "rfc_fold st bs = rfc_fold st (take (length bs - length bs mod 64) bs)"
proof -
  let ?n = "length bs - length bs mod 64"
  have "length (drop ?n bs) < 64" by simp
  then show ?thesis
    using rfc_fold_append [OF whole_prefix, of st bs "drop ?n bs"]
    by (simp add: rfc_fold_short)
qed

lemma MD5_memcpy_fits:
  "off + len \<le> length out \<Longrightarrow> ioff + len \<le> length input
    \<Longrightarrow> MD5_memcpy out off input ioff len = Some (poke off (peek ioff len input) out)"
  by (simp add: MD5_memcpy_def)

text \<open>What a call of \<^verbatim>\<open>MD5Update\<close> leaves, when the input completes a block and when it does not.\<close>

lemma update_words:
  fixes r :: nat
  assumes "r < 64" and "n < 2 ^ 32"
  shows "(64 - word_of_nat r :: u32) = word_of_nat (64 - r)"
    and "unat (word_of_nat r :: u32) = r" and "unat (word_of_nat n :: u32) = n"
    and "(word_of_nat (64 - r) :: u32) \<le> word_of_nat n \<longleftrightarrow> 64 - r \<le> n"
proof -
  have u: "unat (word_of_nat k :: u32) = k" if "k < 2 ^ 32" for k
    using that by (simp add: unat_of_nat)
  have "unat (word_of_nat (64 - r) :: u32) = 64 - r" "unat (word_of_nat n :: u32) = n"
    using assms by (intro u; simp)+
  then show "(word_of_nat (64 - r) :: u32) \<le> word_of_nat n \<longleftrightarrow> 64 - r \<le> n"
    by (simp only: word_le_nat_alt)
qed (use assms in \<open>simp_all add: of_nat_diff unat_of_nat\<close>)

lemma md_count_update:
  "(x # y # xs) ! 1 = y" "md_buffer (c\<lparr>md_count := k\<rparr>) = md_buffer c"
  "md_state (c\<lparr>md_count := k\<rparr>) = md_state c"
  by simp_all

lemma MD5Update_repr:
  assumes repr: "md_repr c bs" and len: "length xs + 63 < 2 ^ 32"
  shows "\<exists>c'. MD5Update c (xs @ zs) (word_of_nat (length xs)) = Some c' \<and> md_repr c' (bs @ xs)"
proof -
  define r n m where "r = length bs mod 64" and "n = length xs" and "m = length bs"
  have r: "r < 64" by (simp add: r_def)
  have n: "n < 2 ^ 32" using len by (simp add: n_def)
  obtain buf: "length (md_buffer c) = 64" and st: "md_state c = rfc_fold rfc_init bs"
    and tail: "take r (md_buffer c) = drop (m - r) bs"
    and cnt: "md_count c = [word_of_nat (8 * m), word_of_nat (8 * m div 2 ^ 32)]"
    using repr by (simp add: md_repr_def r_def m_def)
  have rm: "r \<le> m" "length bs - (m - r) = r" by (simp_all add: r_def m_def)
  define d where "d = m div 64"
  have md: "m = 64 * d + r" by (simp add: d_def r_def m_def)
  let ?cnt = "[word_of_nat (8 * (m + n)), word_of_nat (8 * (m + n) div 2 ^ 32)] :: u32 list"
  have idx: "drop_bit 3 (word_of_nat (8 * m) :: u32) AND 0x3F = word_of_nat r"
    by (simp only: index_word r_def m_def)
  note words = update_words [OF r n]
  show ?thesis
  proof (cases "64 - r \<le> n")
    case False
    let ?buf = "poke r xs (md_buffer c)"
    have fits: "MD5_memcpy (md_buffer c) r (xs @ zs) 0 n = Some ?buf"
      using False buf by (simp add: MD5_memcpy_fits n_def peek_def)
    have "MD5Update c (xs @ zs) (word_of_nat n) = Some (c\<lparr>md_count := ?cnt, md_buffer := ?buf\<rparr>)"
      using False
      by (simp only: MD5Update_def Let_def cnt nth_Cons_0 md_count_update idx words count_low
          count_high [OF n] fits if_False option.case)
    moreover have "md_repr (c\<lparr>md_count := ?cnt, md_buffer := ?buf\<rparr>) (bs @ xs)"
    proof -
      have "(m + n) mod 64 = (r + n) mod 64" by (simp add: r_def m_def mod_add_left_eq)
      then have mn: "(m + n) mod 64 = r + n" using False by simp
      have "take (m - r) (bs @ xs) = take (m - r) bs" by (simp add: m_def)
      then have "rfc_fold rfc_init (bs @ xs) = rfc_fold rfc_init bs"
        using rfc_fold_whole [of rfc_init "bs @ xs"] rfc_fold_whole [of rfc_init bs] mn
        by (simp add: m_def n_def r_def)
      moreover have "take (r + n) ?buf = drop (m - r) bs @ xs"
        using False buf rm by (simp add: poke_def n_def tail)
      ultimately show ?thesis
        using False buf mn rm st by (simp add: md_repr_def m_def n_def)
    qed
    ultimately show ?thesis by (auto simp: n_def)
  next
    case True
    define k i e where "k = 64 - r" and "i = k + 64 * ((n - k) div 64)" and "e = (n - k) div 64"
    let ?blk = "poke r (take k xs) (md_buffer c)"
    let ?st = "rfc_fold rfc_init (bs @ xs)"
    let ?buf = "poke 0 (peek i (n - i) xs) ?blk"
    have rest: "n - i = (n - k) mod 64" "i \<le> n" "k \<le> n"
      using True by (simp_all add: i_def k_def minus_div_mult_eq_mod [symmetric] mult.commute)
    have blk: "?blk = drop (m - r) bs @ take k xs" "length ?blk = 64"
      using r rest buf rm by (simp_all add: poke_def k_def n_def tail)
    have whole: "64 dvd length (bs @ take k xs)"
    proof -
      have "length (bs @ take k xs) = m + k" using rest by (simp add: m_def n_def)
      moreover have "m + k = 64 * (d + 1)" using md r by (simp add: k_def)
      ultimately show ?thesis by (simp only: dvd_triv_left)
    qed
    have "rfc_compress (rfc_fold rfc_init bs) ?blk = rfc_fold rfc_init (take (m - r) bs @ ?blk)"
      using rfc_fold_append [OF whole_prefix, of rfc_init bs ?blk] rfc_fold_whole [of rfc_init bs]
        rfc_fold_block [OF blk(2)] by (simp add: m_def r_def)
    also have "take (m - r) bs @ ?blk = bs @ take k xs"
      by (simp add: blk(1) flip: append_assoc)
    finally have first: "rfc_compress (rfc_fold rfc_init bs) ?blk = rfc_fold rfc_init (bs @ take k xs)" .
    have fold: "rfc_fold (rfc_fold rfc_init (bs @ take k xs)) (drop k xs) = ?st"
      using rfc_fold_append [OF whole, of rfc_init "drop k xs"] by simp
    have blocks: "MD5_blocks (rfc_compress (rfc_fold rfc_init bs) ?blk) (xs @ zs) (word_of_nat k) (word_of_nat n)
        = Some (?st, word_of_nat i)"
      using MD5_blocks_fold [OF len refl, of k "rfc_compress (rfc_fold rfc_init bs) ?blk" zs] rest
      by (simp add: first fold i_def n_def)
    have fits: "MD5_memcpy (md_buffer c) r (xs @ zs) 0 k = Some ?blk"
      using rest r buf by (simp add: MD5_memcpy_fits n_def peek_def k_def)
    have fits2: "MD5_memcpy ?blk 0 (xs @ zs) i (n - i) = Some ?buf"
    proof -
      have "0 + (n - i) \<le> length ?blk" unfolding blk(2) rest(1) by simp
      moreover have "i + (n - i) \<le> length xs" using rest by (simp add: n_def)
      ultimately show ?thesis by (simp add: MD5_memcpy_fits peek_append)
    qed
    have "n - i < 2 ^ 32" "i < 2 ^ 32" using n rest by simp_all
    then have u: "unat (word_of_nat k :: u32) = k" "unat (word_of_nat i :: u32) = i"
      "unat (word_of_nat n - word_of_nat i :: u32) = n - i"
      using rest r by (simp_all add: k_def unat_of_nat flip: of_nat_diff)
    have "MD5Update c (xs @ zs) (word_of_nat n)
        = Some (c\<lparr>md_count := ?cnt, md_state := ?st, md_buffer := ?buf\<rparr>)"
      using True
      by (simp only: MD5Update_def Let_def cnt nth_Cons_0 md_count_update idx words count_low
          count_high [OF n] st fits if_True option.case k_def [symmetric]
          words(4) [folded k_def] u MD5Transform_rfc blocks
          prod.case fits2)
    moreover have "md_repr (c\<lparr>md_count := ?cnt, md_state := ?st, md_buffer := ?buf\<rparr>) (bs @ xs)"
    proof -
      have "m + n = 64 * (d + 1 + (n - k) div 64) + (n - i)"
      proof -
        have "r + k = 64" using r by (simp add: k_def)
        moreover have "k + 64 * e + (n - i) = n" using rest by (simp add: i_def e_def)
        ultimately show ?thesis using md by (simp add: e_def [symmetric])
      qed
      then have "(m + n) mod 64 = (n - i) mod 64" by (simp only: mod_mult_self4)
      then have mn: "(m + n) mod 64 = n - i" by (simp add: rest(1))
      have "take (n - i) ?buf = drop i xs"
        using rest by (simp add: poke_def peek_def n_def)
      moreover have "drop (m + n - (n - i)) (bs @ xs) = drop i xs"
        using rest(2) by (simp add: m_def)
      moreover have "length ?buf = 64" using blk(2) rest by (simp add: n_def peek_def)
      ultimately show ?thesis
        using mn by (simp add: md_repr_def m_def n_def)
    qed
    ultimately show ?thesis by (auto simp: n_def)
  qed
qed

section \<open>Padding, the digest and the entry points\<close>

lemma MD5_file_loop_repr:
  "md_repr c bs \<Longrightarrow> \<exists>c'. MD5_file_loop c rest = Some c' \<and> md_repr c' (bs @ rest)"
proof (induction c rest arbitrary: bs rule: MD5_file_loop.induct)
  case (1 c rest)
  show ?case
  proof (cases "rest = []")
    case True
    then show ?thesis using 1(2) by (simp add: MD5_file_loop.simps)
  next
    case False
    obtain c1 where c1: "MD5Update c (take 1024 rest) (word_of_nat (length (take 1024 rest))) = Some c1"
        "md_repr c1 (bs @ take 1024 rest)"
      using MD5Update_repr [OF 1(2), of "take 1024 rest" "[]"] by (auto simp: min_less_iff_disj)
    then have "MD5_file_loop c rest = MD5_file_loop c1 (drop 1024 rest)"
      using False by (subst MD5_file_loop.simps) simp
    moreover obtain c' where "MD5_file_loop c1 (drop 1024 rest) = Some c'" "md_repr c' (bs @ rest)"
      using 1(1) [OF refl refl _ c1(1) c1(2)] False by auto
    ultimately show ?thesis by simp
  qed
qed

lemma PADDING_take: "0 < n \<Longrightarrow> n \<le> 64 \<Longrightarrow> take n PADDING = 0x80 # replicate (n - 1) 0"
  by (cases n) (simp_all add: PADDING_def min_def)

lemma PADDING_split:
  assumes "0 < n" "n \<le> 64"
  shows "PADDING = (0x80 # replicate (n - 1) 0) @ replicate (64 - n) 0"
  using append_take_drop_id [of n PADDING] assms PADDING_take [OF assms]
  by (simp add: PADDING_def drop_Cons')

lemma Encode_count:
  "Encode [word_of_nat n, word_of_nat (n div 2 ^ 32)] 8 = map (\<lambda>k. word_of_nat (n div 256 ^ k)) [0..<8]"
proof -
  have "n div 2 ^ 32 div 256 ^ k = n div 256 ^ (4 + k)" for k
    by (simp add: div_mult2_eq power_add)
  moreover have "[0..<4::nat] = [0, 1, 2, 3]" "[0..<8::nat] = [0, 1, 2, 3, 4, 5, 6, 7]"
    by (simp_all add: upt_rec_numeral upt_conv_Cons)
  ultimately show ?thesis
    using Encode_bytes [of "[word_of_nat n, word_of_nat (n div 2 ^ 32)]" 2]
      ucast_byte_of_nat [of 0 n] ucast_byte_of_nat [of 1 n] ucast_byte_of_nat [of 2 n]
      ucast_byte_of_nat [of 3 n] ucast_byte_of_nat [of 0 "n div 2 ^ 32"]
      ucast_byte_of_nat [of 1 "n div 2 ^ 32"] ucast_byte_of_nat [of 2 "n div 2 ^ 32"]
      ucast_byte_of_nat [of 3 "n div 2 ^ 32"] by (simp add: div_mult2_eq [symmetric])
qed

lemma rfc_fold_length: "length st = 4 \<Longrightarrow> length (rfc_fold st xs) = 4"
proof (induction st xs rule: rfc_fold.induct)
  case (1 st xs)
  then show ?case
    by (subst rfc_fold.simps) (simp add: rfc_compress_def split: prod.split)
qed

lemma MD5Final_rfc:
  assumes "md_repr c bs"
  shows "\<exists>c'. MD5Final c = Some (rfc_md5 bs, c')"
proof -
  define m r where "m = length bs" and "r = m mod 64"
  define n where "n = (if r < 56 then 56 - r else 120 - r)"
  define pad where "pad = (0x80 :: u8) # replicate (n - 1) 0"
  have r: "r < 64" by (simp add: r_def)
  then have n: "0 < n" "n \<le> 64" "length pad = n" by (auto simp: n_def pad_def)
  have cnt: "md_count c = [word_of_nat (8 * m), word_of_nat (8 * m div 2 ^ 32)]"
    using assms by (simp add: md_repr_def m_def)
  have idx: "drop_bit 3 (word_of_nat (8 * m) :: u32) AND 0x3F = word_of_nat r"
    by (simp only: index_word r_def m_def)
  have len: "(if word_of_nat r < (56 :: u32) then 56 - word_of_nat r else 120 - word_of_nat r)
      = (word_of_nat n :: u32)"
    using r by (simp add: n_def word_less_nat_alt unat_of_nat of_nat_diff)
  obtain c1 where c1: "MD5Update c PADDING (word_of_nat n) = Some c1" "md_repr c1 (bs @ pad)"
    using MD5Update_repr [OF assms, of pad "replicate (64 - n) 0"] PADDING_split [OF n(1,2)] n
    by (auto simp: pad_def)
  define bits where "bits = (map (\<lambda>k. word_of_nat (8 * m div 256 ^ k)) [0..<8] :: u8 list)"
  obtain c2 where c2: "MD5Update c1 bits 8 = Some c2" "md_repr c2 (bs @ pad @ bits)"
    using MD5Update_repr [OF c1(2), of bits "[]"] by (auto simp: bits_def)
  have "n - 1 = (119 - r) mod 64" using r by (auto simp: n_def mod_if)
  then have "rfc_pad bs = bs @ pad @ bits"
    by (simp add: rfc_pad_def pad_def bits_def r_def m_def)
  moreover have "length (rfc_fold rfc_init xs) = 4" for xs
    by (simp add: rfc_fold_length rfc_init_def)
  ultimately have "Encode (md_state c2) 16 = rfc_md5 bs"
    using Encode_bytes [of "md_state c2" 4] c2(2) by (simp add: md_repr_def rfc_md5_def)
  then show ?thesis
    by (simp only: MD5Final_def cnt nth_Cons_0 idx len Encode_count [of "8 * m", folded bits_def]
        Let_def c1(1) c2(1) option.case) blast
qed

lemma MD5Buffer_rfc:
  assumes "length (md_buffer stack) = 64" "length bs + 63 < 2 ^ 32"
  shows "MD5Buffer stack bs (word_of_nat (length bs)) = Some (0, rfc_md5 bs)"
proof -
  obtain c where "MD5Update (MD5Init stack) bs (word_of_nat (length bs)) = Some c" "md_repr c bs"
    using MD5Update_repr [OF MD5Init_repr [OF assms(1)] assms(2), of "[]"] by auto
  then show ?thesis using MD5Final_rfc [of c bs] by (auto simp: MD5Buffer_def)
qed

text \<open>C29: \<^verbatim>\<open>MD5File\<close>, which reads a file in pieces of 1024 bytes into an uninitialised
  context, and \<^verbatim>\<open>MD5Buffer\<close>, which takes a whole buffer (of any length its counter can handle),
  compute the digest of RFC 1321 of the content and touch no buffer outside its bounds.\<close>

theorem md5_equiv:
  assumes "length (md_buffer stack) = 64"
  shows "MD5File stack (Some bs) = Some (0, Some (rfc_md5 bs))
    \<and> (length bs + 63 < 2 ^ 32
        \<longrightarrow> MD5Buffer stack bs (word_of_nat (length bs)) = Some (0, rfc_md5 bs))"
proof -
  obtain c where "MD5_file_loop (MD5Init stack) bs = Some c" "md_repr c bs"
    using MD5_file_loop_repr [OF MD5Init_repr [OF assms], of bs] by auto
  then have "MD5File stack (Some bs) = Some (0, Some (rfc_md5 bs))"
    using MD5Final_rfc [of c bs] by (auto simp: MD5File_def)
  then show ?thesis using MD5Buffer_rfc [OF assms] by blast
qed

text \<open>The test vector \<open>abc\<close> of RFC 1321, computed by the code on a stack full of ones.\<close>

definition sample_stack :: MD5_CTX where
  "sample_stack = \<lparr>md_state = replicate 4 1, md_count = [1, 1], md_buffer = replicate 64 1\<rparr>"

text \<open>Word arithmetic on numerals, reduced after every addition.\<close>

definition norm_word :: "u32 \<Rightarrow> u32" where "norm_word w = word_of_int (uint w)"

lemma rfc_step_norm:
  "rfc_step x (a, b, c, d) i = (d, norm_word (ROTATE_LEFT (norm_word
     (a + (rfc_fun i b c d + x ! rfc_index i + rfc_T ! i))) (rfc_shift i) + b), b, c)"
  by (simp add: rfc_step_def norm_word_def)

lemmas step_eval = upt_rounds rfc_step_norm rfc_tables F_def G_def H_def I_def ROTATE_LEFT_def
  norm_word_def

lemma abc_pad:
  "rfc_pad [0x61, 0x62, 0x63] = [0x61, 0x62, 0x63, 0x80] @ replicate 52 0 @ [24, 0, 0, 0, 0, 0, 0, 0]"
  by (simp add: rfc_pad_def upt_rec_numeral upt_conv_Cons)

definition abc_words :: "u32 list" where
  "abc_words = [0x80636261, 0, 0, 0, 0, 0, 0, 0, 0, 0, 0, 0, 0, 0, 24, 0]"

lemma abc_decode: "Decode (rfc_pad [0x61, 0x62, 0x63]) 64 = abc_words"
  unfolding abc_pad abc_words_def
  by (simp add: Decode_def upt_rec_numeral upt_conv_Cons nth_append nth_Cons')

lemma abc_rounds:
  "foldl (rfc_step abc_words) (0x67452301, 0xefcdab89, 0x98badcfe, 0x10325476) [0..<16]
     = (3718887846, 1924133600, 3818292587, 2701465749)"
  "foldl (rfc_step abc_words) (3718887846, 1924133600, 3818292587, 2701465749) [16..<32]
     = (2030729211, 1919107795, 2787673258, 2672289016)"
  "foldl (rfc_step abc_words) (2030729211, 1919107795, 2787673258, 2672289016) [32..<48]
     = (2133741691, 2079037184, 2410570649, 2581161885)"
  "foldl (rfc_step abc_words) (2133741691, 2079037184, 2410570649, 2581161885) [48..<64] = (822795919, 3229755059, 3833903576, 1649249458)"
  by (simp_all add: step_eval abc_words_def)

lemma abc_compress:
  "rfc_compress rfc_init (rfc_pad [0x61, 0x62, 0x63]) = [0x98500190, 0xb04fd23c, 0x7d3f96d6, 0x727fe128]"
proof -
  have "[0..<64::nat] = [0..<16] @ [16..<32] @ [32..<48] @ [48..<64]"
    by (simp add: upt_rounds upt_rec_numeral upt_conv_Cons)
  then have "foldl (rfc_step abc_words) (0x67452301, 0xefcdab89, 0x98badcfe, 0x10325476) [0..<64]
      = (822795919, 3229755059, 3833903576, 1649249458)"
    by (simp only: foldl_append abc_rounds)
  moreover have "(rfc_init ! 0, rfc_init ! 1, rfc_init ! 2, rfc_init ! 3)
      = (0x67452301, 0xefcdab89, 0x98badcfe, 0x10325476)"
    by (simp add: rfc_init_def)
  ultimately have "rfc_compress rfc_init (rfc_pad [0x61, 0x62, 0x63]) = map norm_word
      [rfc_init ! 0 + 822795919, rfc_init ! 1 + 3229755059, rfc_init ! 2 + 3833903576, rfc_init ! 3 + 1649249458]"
    by (simp only: rfc_compress_def abc_decode Let_def prod.case) (simp add: norm_word_def)
  then show ?thesis by (simp add: rfc_init_def norm_word_def)
qed

lemma rfc_abc: "rfc_md5 [0x61, 0x62, 0x63] =
  [0x90, 0x01, 0x50, 0x98, 0x3c, 0xd2, 0x4f, 0xb0, 0xd6, 0x96, 0x3f, 0x7d, 0x28, 0xe1, 0x7f, 0x72]"
proof -
  have "length (rfc_pad [0x61, 0x62, 0x63]) = 64" by (simp add: abc_pad)
  then have "rfc_fold rfc_init (rfc_pad [0x61, 0x62, 0x63]) = [0x98500190, 0xb04fd23c, 0x7d3f96d6, 0x727fe128]"
    by (simp only: rfc_fold_block abc_compress)
  then show ?thesis
    by (simp add: rfc_md5_def upt_rec_numeral upt_conv_Cons)
qed

theorem md5_equiv_witness:
  "MD5File sample_stack (Some [0x61, 0x62, 0x63]) = Some (0, Some
    [0x90, 0x01, 0x50, 0x98, 0x3c, 0xd2, 0x4f, 0xb0, 0xd6, 0x96, 0x3f, 0x7d, 0x28, 0xe1, 0x7f, 0x72])"
  using md5_equiv [of sample_stack "[0x61, 0x62, 0x63]"] by (simp add: sample_stack_def rfc_abc)

end
