(* ===== verification/LockTrace.thy ===== *)
theory LockTrace
  imports Prelude
begin

text \<open>
  The lock tracing of the debugging build (include/os/mutex.h, src/os/mutex.cpp): the maps of
  \<^verbatim>\<open>CLockTrace\<close>, its operations, each under \<^verbatim>\<open>mMapMutex\<close> and so one step, and the macros
  \<^verbatim>\<open>MUTEX_LOCK\<close>, \<^verbatim>\<open>MUTEX_TRYLOCK\<close>, \<^verbatim>\<open>MUTEX_UNLOCK\<close>, \<^verbatim>\<open>COND_WAIT\<close> and \<^verbatim>\<open>COND_WAIT_TIMEOUT\<close>
  of the build with \<^verbatim>\<open>DEBUG_LOCK\<close> as a step relation over any number of threads: a call of the
  pthread library is one step, a call of \<^verbatim>\<open>CLockTrace\<close> another. A mutex is its address, a thread
  its \<^verbatim>\<open>gettid()\<close>, which is positive.
\<close>

section \<open>The trace\<close>

record lock_id =
  mFile :: string
  mThreadId :: int
  mLine :: int

definition CLockID_default :: lock_id where
  "CLockID_default = \<lparr>mFile = [], mThreadId = 0, mLine = 0\<rparr>"

record lock_trace =
  mLocks :: "nat \<Rightarrow> lock_id option"
  mWaitTimes :: "nat \<Rightarrow> int option"
  mWaitLocks :: "int \<Rightarrow> nat option"
  mOwnLocks :: "int \<Rightarrow> nat set option"
  mMaxBlockTids :: int

definition lock_trace_init :: lock_trace where
  "lock_trace_init = \<lparr>mLocks = Map.empty, mWaitTimes = Map.empty, mWaitLocks = Map.empty,
     mOwnLocks = Map.empty, mMaxBlockTids = 8\<rparr>"

definition setMaxBlockThreads :: "int \<Rightarrow> lock_trace \<Rightarrow> lock_trace" where
  "setMaxBlockThreads blockNum tr = tr\<lparr>mMaxBlockTids := blockNum\<rparr>"

definition deadlockCheck :: "nat \<Rightarrow> int \<Rightarrow> lock_trace \<Rightarrow> bool \<times> lock_trace" where
  "deadlockCheck mutex threadId tr =
     (let tr1 = tr\<lparr>mWaitLocks := (mWaitLocks tr)(threadId \<mapsto> mutex)\<rparr>
      in case mLocks tr1 mutex of
           None \<Rightarrow> (False, tr1)
         | Some other \<Rightarrow>
             (case mOwnLocks tr1 threadId of
                None \<Rightarrow> (False, tr1)
              | Some ownMutexs \<Rightarrow>
                  (case mWaitLocks tr1 (mThreadId other) of
                     None \<Rightarrow> (False, tr1)
                   | Some otherWaitMutex \<Rightarrow> (otherWaitMutex \<in> ownMutexs, tr1))))"

text \<open>\<^verbatim>\<open>mLocks[mutex]\<close> for the log text inserts a default entry when there is none.\<close>

definition checkAllThreadsBlock :: "nat \<Rightarrow> lock_trace \<Rightarrow> bool \<times> lock_trace" where
  "checkAllThreadsBlock mutex tr =
     (case mWaitTimes tr mutex of
        None \<Rightarrow> (False, tr\<lparr>mWaitTimes := (mWaitTimes tr)(mutex \<mapsto> 1)\<rparr>)
      | Some lockTimes \<Rightarrow>
          (let tr1 = tr\<lparr>mWaitTimes := (mWaitTimes tr)(mutex \<mapsto> lockTimes + 1)\<rparr>
           in if mMaxBlockTids tr1 \<le> lockTimes
              then (True, if mLocks tr1 mutex = None
                          then tr1\<lparr>mLocks := (mLocks tr1)(mutex \<mapsto> CLockID_default)\<rparr> else tr1)
              else (False, tr1)))"

definition ltrace_check :: "nat \<Rightarrow> int \<Rightarrow> lock_trace \<Rightarrow> bool \<times> lock_trace" where
  "ltrace_check mutex threadId tr =
     (let (dead, tr1) = deadlockCheck mutex threadId tr;
          (_, tr2) = checkAllThreadsBlock mutex tr1
      in (dead, tr2))"

definition insertLock :: "nat \<Rightarrow> lock_id \<Rightarrow> lock_trace \<Rightarrow> lock_trace" where
  "insertLock mutex lockID tr =
     (let threadId = mThreadId lockID;
          tr1 = tr\<lparr>mLocks := (mLocks tr)(mutex \<mapsto> lockID)\<rparr>;
          tr2 = tr1\<lparr>mWaitLocks := (mWaitLocks tr1)(threadId := None)\<rparr>;
          ownLockSet = (case mOwnLocks tr2 threadId of None \<Rightarrow> {} | Some own \<Rightarrow> own);
          tr3 = tr2\<lparr>mOwnLocks := (mOwnLocks tr2)(threadId \<mapsto> insert mutex ownLockSet)\<rparr>
      in case mWaitTimes tr3 mutex of
           None \<Rightarrow> tr3
         | Some n \<Rightarrow> tr3\<lparr>mWaitTimes := (mWaitTimes tr3)(mutex \<mapsto> n - 1)\<rparr>)"

definition ltrace_lock :: "nat \<Rightarrow> lock_id \<Rightarrow> lock_trace \<Rightarrow> lock_trace" where
  "ltrace_lock mutex lockID tr = insertLock mutex lockID tr"

definition ltrace_tryLock :: "nat \<Rightarrow> lock_id \<Rightarrow> lock_trace \<Rightarrow> lock_trace" where
  "ltrace_tryLock mutex lockID tr =
     (if mLocks tr mutex \<noteq> None then tr else insertLock mutex lockID tr)"

definition ltrace_unlock :: "nat \<Rightarrow> int \<Rightarrow> lock_trace \<Rightarrow> lock_trace" where
  "ltrace_unlock mutex threadId tr =
     (let tr1 = tr\<lparr>mLocks := (mLocks tr)(mutex := None)\<rparr>;
          ownLockSet = (case mOwnLocks tr1 threadId of None \<Rightarrow> {} | Some own \<Rightarrow> own)
      in tr1\<lparr>mOwnLocks := (mOwnLocks tr1)(threadId \<mapsto> ownLockSet - {mutex})\<rparr>)"

section \<open>The macros\<close>

text \<open>Where a thread is inside a macro; the mutex is the one the macro is about.\<close>

datatype lock_pc =
    Outside
  | Checked nat       \<comment> \<open>\<^verbatim>\<open>MUTEX_LOCK\<close>: checked, in \<^verbatim>\<open>pthread_mutex_lock\<close>\<close>
  | TryChecked nat    \<comment> \<open>\<^verbatim>\<open>MUTEX_TRYLOCK\<close>: checked, in \<^verbatim>\<open>pthread_mutex_trylock\<close>\<close>
  | Acquired nat      \<comment> \<open>the mutex is taken and not yet recorded\<close>
  | Released nat      \<comment> \<open>\<^verbatim>\<open>MUTEX_UNLOCK\<close>: the mutex is free and still recorded\<close>
  | CondUnlocked nat  \<comment> \<open>\<^verbatim>\<open>COND_WAIT\<close>: recorded as unlocked, about to wait\<close>
  | CondTimed nat     \<comment> \<open>\<^verbatim>\<open>COND_WAIT_TIMEOUT\<close>: the same\<close>
  | CondSleeping nat
  | TimedSleeping nat
  | CondWoken nat     \<comment> \<open>the wait returned 0 with the mutex taken again\<close>

record lock_state =
  lpc :: "int \<Rightarrow> lock_pc"
  held :: "nat \<Rightarrow> int option"
  trace :: lock_trace

datatype lock_act =
    LCheck int nat bool   \<comment> \<open>the check of \<^verbatim>\<open>MUTEX_LOCK\<close> and what it reported\<close>
  | LTryCheck int nat bool
  | LAcquire int nat
  | LTryFail int nat
  | LRecord int nat lock_id
  | LRelease int nat
  | LUnlock int nat
  | LCondUnlock int nat bool
  | LSleep int nat
  | LWake int nat
  | LTimeout int nat
  | LRecheck int nat bool

inductive lock_step :: "lock_state \<Rightarrow> lock_act \<Rightarrow> lock_state \<Rightarrow> bool" where
  check: "t > 0 \<Longrightarrow> lpc s t = Outside \<Longrightarrow> ltrace_check m t (trace s) = (r, tr)
    \<Longrightarrow> lock_step s (LCheck t m r) (s\<lparr>lpc := (lpc s)(t := Checked m), trace := tr\<rparr>)"
| try_check: "t > 0 \<Longrightarrow> lpc s t = Outside \<Longrightarrow> ltrace_check m t (trace s) = (r, tr)
    \<Longrightarrow> lock_step s (LTryCheck t m r) (s\<lparr>lpc := (lpc s)(t := TryChecked m), trace := tr\<rparr>)"
| acquire: "lpc s t = Checked m \<or> lpc s t = TryChecked m \<Longrightarrow> held s m = None
    \<Longrightarrow> lock_step s (LAcquire t m) (s\<lparr>lpc := (lpc s)(t := Acquired m), held := (held s)(m \<mapsto> t)\<rparr>)"
| try_fail: "lpc s t = TryChecked m \<Longrightarrow> held s m \<noteq> None
    \<Longrightarrow> lock_step s (LTryFail t m) (s\<lparr>lpc := (lpc s)(t := Outside)\<rparr>)"
| record_lock: "lpc s t = Acquired m \<Longrightarrow> mThreadId i = t
    \<Longrightarrow> lock_step s (LRecord t m i)
          (s\<lparr>lpc := (lpc s)(t := Outside), trace := ltrace_lock m i (trace s)\<rparr>)"
| release: "lpc s t = Outside \<Longrightarrow> held s m = Some t
    \<Longrightarrow> lock_step s (LRelease t m) (s\<lparr>lpc := (lpc s)(t := Released m), held := (held s)(m := None)\<rparr>)"
| record_unlock: "lpc s t = Released m
    \<Longrightarrow> lock_step s (LUnlock t m)
          (s\<lparr>lpc := (lpc s)(t := Outside), trace := ltrace_unlock m t (trace s)\<rparr>)"
| cond_unlock: "lpc s t = Outside \<Longrightarrow> held s m = Some t
    \<Longrightarrow> lock_step s (LCondUnlock t m timed)
          (s\<lparr>lpc := (lpc s)(t := if timed then CondTimed m else CondUnlocked m),
             trace := ltrace_unlock m t (trace s)\<rparr>)"
| sleep: "lpc s t = CondUnlocked m \<or> lpc s t = CondTimed m
    \<Longrightarrow> lock_step s (LSleep t m)
          (s\<lparr>lpc := (lpc s)(t := if lpc s t = CondTimed m then TimedSleeping m else CondSleeping m),
             held := (held s)(m := None)\<rparr>)"
| wake: "lpc s t = CondSleeping m \<or> lpc s t = TimedSleeping m \<Longrightarrow> held s m = None
    \<Longrightarrow> lock_step s (LWake t m) (s\<lparr>lpc := (lpc s)(t := CondWoken m), held := (held s)(m \<mapsto> t)\<rparr>)"
| timeout: "lpc s t = TimedSleeping m \<Longrightarrow> held s m = None
    \<Longrightarrow> lock_step s (LTimeout t m) (s\<lparr>lpc := (lpc s)(t := Outside), held := (held s)(m \<mapsto> t)\<rparr>)"
| recheck: "lpc s t = CondWoken m \<Longrightarrow> ltrace_check m t (trace s) = (r, tr)
    \<Longrightarrow> lock_step s (LRecheck t m r) (s\<lparr>lpc := (lpc s)(t := Acquired m), trace := tr\<rparr>)"

inductive_cases lock_stepE: "lock_step s a s'"

inductive lock_run :: "lock_state \<Rightarrow> lock_act list \<Rightarrow> lock_state \<Rightarrow> bool" where
  lock_run_nil: "lock_run s [] s"
| lock_run_snoc: "lock_run s as s1 \<Longrightarrow> lock_step s1 a s2 \<Longrightarrow> lock_run s (as @ [a]) s2"

definition lock_start :: "lock_trace \<Rightarrow> lock_state" where
  "lock_start tr = \<lparr>lpc = \<lambda>_. Outside, held = Map.empty, trace = tr\<rparr>"

fun is_try :: "lock_act \<Rightarrow> bool" where
  "is_try (LTryCheck _ _ _) = True"
| "is_try _ = False"

section \<open>What the records mean\<close>

text \<open>The mutexes recorded as owned, and the invariant of runs without try-locks: a recorded owner
  holds the mutex or has just let it go; an entry of \<^verbatim>\<open>mLocks\<close> agrees with the owner's set (or is
  the default one); a thread with a wait entry is inside a macro on that mutex.\<close>

definition owned :: "lock_trace \<Rightarrow> int \<Rightarrow> nat set" where
  "owned tr t = (case mOwnLocks tr t of None \<Rightarrow> {} | Some own \<Rightarrow> own)"

definition locks_sound :: "lock_trace \<Rightarrow> bool" where
  "locks_sound tr \<longleftrightarrow>
     (\<forall>m i. mLocks tr m = Some i \<longrightarrow> mThreadId i = 0 \<or> m \<in> owned tr (mThreadId i))"

definition thread_ok :: "lock_state \<Rightarrow> int \<Rightarrow> bool" where
  "thread_ok s t \<longleftrightarrow>
     (\<forall>m\<in>owned (trace s) t. held s m = Some t \<or> lpc s t = Released m)
   \<and> (\<forall>m. mWaitLocks (trace s) t = Some m \<longrightarrow> lpc s t = Checked m \<or> lpc s t = Acquired m)
   \<and> (\<forall>m. lpc s t \<in> {Acquired m, CondWoken m, CondUnlocked m, CondTimed m} \<longrightarrow> held s m = Some t)
   \<and> (\<forall>m. lpc s t \<in> {CondUnlocked m, CondTimed m} \<longrightarrow> m \<notin> owned (trace s) t)
   \<and> (\<forall>m. lpc s t \<noteq> TryChecked m)"

definition records_ok :: "lock_state \<Rightarrow> bool" where
  "records_ok s \<longleftrightarrow> locks_sound (trace s) \<and> (\<forall>t. thread_ok s t)
   \<and> lpc s 0 = Outside \<and> (\<forall>m. held s m \<noteq> Some 0)"

text \<open>What the trace operations do to the records.\<close>

lemma locks_soundD: "locks_sound tr \<Longrightarrow> mLocks tr m = Some i \<Longrightarrow>
    mThreadId i = 0 \<or> m \<in> owned tr (mThreadId i)"
  by (simp add: locks_sound_def)

lemma owned_cong: "mOwnLocks tr' = mOwnLocks tr \<Longrightarrow> owned tr' = owned tr"
  by (simp add: owned_def fun_eq_iff)

lemma ltrace_check_records:
  assumes "ltrace_check m t tr = (r, tr')"
  shows "mOwnLocks tr' = mOwnLocks tr" and "mWaitLocks tr' = (mWaitLocks tr)(t \<mapsto> m)"
    and "mLocks tr' l = Some i \<Longrightarrow> mLocks tr l = Some i \<or> mThreadId i = 0"
  using assms by (auto simp: ltrace_check_def deadlockCheck_def checkAllThreadsBlock_def Let_def
      CLockID_default_def split: prod.splits option.splits if_splits)

lemma locks_sound_check: "ltrace_check m t tr = (r, tr') \<Longrightarrow> locks_sound tr \<Longrightarrow> locks_sound tr'"
  unfolding locks_sound_def [of tr'] owned_cong [OF ltrace_check_records(1)]
  using ltrace_check_records(3) locks_soundD by blast

lemma ltrace_lock_records:
  "owned (ltrace_lock m i tr) t = (if t = mThreadId i then insert m (owned tr t) else owned tr t)"
  "mWaitLocks (ltrace_lock m i tr) = (mWaitLocks tr)(mThreadId i := None)"
  "mLocks (ltrace_lock m i tr) = (mLocks tr)(m \<mapsto> i)"
  by (auto simp: ltrace_lock_def insertLock_def owned_def Let_def split: option.splits)

lemma ltrace_unlock_records:
  "owned (ltrace_unlock m t tr) u = (if u = t then owned tr u - {m} else owned tr u)"
  "mWaitLocks (ltrace_unlock m t tr) = mWaitLocks tr"
  "mLocks (ltrace_unlock m t tr) = (mLocks tr)(m := None)"
  by (auto simp: ltrace_unlock_def owned_def Let_def)

lemma locks_sound_lock: "locks_sound tr \<Longrightarrow> locks_sound (ltrace_lock m i tr)"
  unfolding locks_sound_def [of "ltrace_lock m i tr"] ltrace_lock_records
  by (auto dest: locks_soundD split: if_splits)

lemma locks_sound_unlock: "locks_sound tr \<Longrightarrow> locks_sound (ltrace_unlock m t tr)"
  unfolding locks_sound_def [of "ltrace_unlock m t tr"] ltrace_unlock_records
  by (auto dest: locks_soundD split: if_splits)

lemma records_start: "records_ok (lock_start (setMaxBlockThreads n lock_trace_init))"
  by (simp add: records_ok_def thread_ok_def lock_start_def setMaxBlockThreads_def
      lock_trace_init_def locks_sound_def owned_def)

lemma records_own:
  "records_ok s \<Longrightarrow> l \<in> owned (trace s) t \<Longrightarrow> held s l = Some t \<or> lpc s t = Released l"
  unfolding records_ok_def thread_ok_def by blast

lemma thread_step:
  assumes "lock_step s a s'" and "\<not> is_try a" and "\<And>v. thread_ok s v"
  shows "thread_ok s' u"
  using assms
proof (induction rule: lock_step.induct)
  case (check t s m r tr)
  note rec = ltrace_check_records [OF check(3)]
  show ?case using check(2) check(5) [of u]
    by (cases "u = t") (auto simp: thread_ok_def owned_cong [OF rec(1)] rec(2))
next
  case (recheck s t m r tr)
  note rec = ltrace_check_records [OF recheck(2)]
  show ?case using recheck(1) recheck(4) [of u]
    by (cases "u = t") (auto simp: thread_ok_def owned_cong [OF rec(1)] rec(2))
next
  case (acquire s t m)
  show ?case using acquire(1,2) acquire(4) [of u] acquire(4) [of t]
    by (cases "u = t") (auto simp: thread_ok_def)
next
  case (record_lock s t m i)
  show ?case using record_lock(1,2) record_lock(4) [of u]
    by (cases "u = t") (auto simp: thread_ok_def ltrace_lock_records)
next
  case (record_unlock s t m)
  show ?case using record_unlock(1) record_unlock(3) [of u]
    by (cases "u = t") (auto simp: thread_ok_def ltrace_unlock_records)
next
  case (cond_unlock s t m timed)
  show ?case using cond_unlock(1,2) cond_unlock(4) [of u]
    by (cases "u = t") (auto simp: thread_ok_def ltrace_unlock_records)
next
  case (release s t m)
  show ?case using release(1,2) release(4) [of u]
    by (cases "u = t") (auto simp: thread_ok_def)
next
  case (sleep s t m)
  show ?case using sleep(1) sleep(3) [of u] sleep(3) [of t]
    by (cases "u = t") (auto simp: thread_ok_def)
next
  case (wake s t m)
  show ?case using wake(1,2) wake(4) [of u] by (cases "u = t") (auto simp: thread_ok_def)
next
  case (timeout s t m)
  show ?case using timeout(1,2) timeout(4) [of u] by (cases "u = t") (auto simp: thread_ok_def)
qed (auto simp: thread_ok_def)

lemma records_step:
  assumes step: "lock_step s a s'" and ok: "records_ok s" and a: "\<not> is_try a"
  shows "records_ok s'"
proof -
  have "locks_sound (trace s')" "lpc s' 0 = Outside" "\<forall>m. held s' m \<noteq> Some 0"
    using step ok by (induction rule: lock_step.induct)
      (auto simp: records_ok_def locks_sound_lock locks_sound_unlock intro: locks_sound_check)
  moreover have "thread_ok s' u" for u
    using thread_step [OF step a] ok by (simp add: records_ok_def)
  ultimately show ?thesis by (simp add: records_ok_def)
qed

lemma records_run:
  "lock_run s as s' \<Longrightarrow> records_ok s \<Longrightarrow> \<forall>a\<in>set as. \<not> is_try a \<Longrightarrow> records_ok s'"
  by (induction rule: lock_run.induct) (auto intro: records_step)

section \<open>A report is a deadlock, for ever\<close>

definition lock_cycle :: "int \<Rightarrow> nat \<Rightarrow> int \<Rightarrow> nat \<Rightarrow> lock_state \<Rightarrow> bool" where
  "lock_cycle t m u n s \<longleftrightarrow> lpc s t = Checked m \<and> held s m = Some u
     \<and> lpc s u = Checked n \<and> held s n = Some t"

lemma cycle_step:
  "lock_step s a s' \<Longrightarrow> records_ok s \<Longrightarrow> lock_cycle t m u n s \<Longrightarrow> lock_cycle t m u n s'"
proof (induction rule: lock_step.induct)
  case (sleep s v l)
  then have "held s l = Some v" by (auto simp: records_ok_def thread_ok_def)
  with sleep show ?case by (auto simp: lock_cycle_def)
qed (auto simp: lock_cycle_def)

lemma cycle_run:
  "lock_run s as s' \<Longrightarrow> records_ok s \<Longrightarrow> \<forall>a\<in>set as. \<not> is_try a \<Longrightarrow> lock_cycle t m u n s
    \<Longrightarrow> lock_cycle t m u n s'"
  by (induction rule: lock_run.induct) (auto intro: cycle_step records_run)

lemma deadlockCheck_report:
  assumes "deadlockCheck m t tr = (True, tr')"
  shows "\<exists>i n. mLocks tr m = Some i \<and> n \<in> owned tr t
    \<and> (if mThreadId i = t then n = m else mWaitLocks tr (mThreadId i) = Some n)"
  using assms by (auto simp: deadlockCheck_def owned_def Let_def split: option.splits if_splits)

lemma report_cycle:
  assumes ok: "records_ok s" and step: "lock_step s (LCheck t m True) s'"
  shows "\<exists>u n. lock_cycle t m u n s'"
proof -
  obtain tr where s': "s' = s\<lparr>lpc := (lpc s)(t := Checked m), trace := tr\<rparr>"
    and t: "t > 0" "lpc s t = Outside" and c: "ltrace_check m t (trace s) = (True, tr)"
    using step by (auto elim: lock_stepE)
  obtain tr1 where "deadlockCheck m t (trace s) = (True, tr1)"
    using c by (auto simp: ltrace_check_def split: prod.splits)
  from deadlockCheck_report [OF this] obtain i n where
    i: "mLocks (trace s) m = Some i" and n: "n \<in> owned (trace s) t"
    and w: "if mThreadId i = t then n = m else mWaitLocks (trace s) (mThreadId i) = Some n"
    by blast
  have held_owned: "held s l = Some v \<or> lpc s v = Released l" if "l \<in> owned (trace s) v" for l v
    using records_own [OF ok that] .
  have hn: "held s n = Some t" using held_owned [OF n] t by simp
  show ?thesis
  proof (cases "mThreadId i = t")
    case True
    then show ?thesis using hn w s' by (auto simp: lock_cycle_def)
  next
    case False
    then have wu: "mWaitLocks (trace s) (mThreadId i) = Some n" using w by simp
    then have pu: "lpc s (mThreadId i) = Checked n \<or> lpc s (mThreadId i) = Acquired n"
      using ok by (simp add: records_ok_def thread_ok_def)
    then have pu: "lpc s (mThreadId i) = Checked n"
      using hn False ok by (auto simp: records_ok_def thread_ok_def)
    then have "mThreadId i \<noteq> 0" using ok by (auto simp: records_ok_def)
    then have "m \<in> owned (trace s) (mThreadId i)"
      using locks_soundD [OF _ i] ok by (auto simp: records_ok_def)
    from held_owned [OF this] have "held s m = Some (mThreadId i)" using pu by simp
    then show ?thesis using hn pu False s' by (auto simp: lock_cycle_def)
  qed
qed


text \<open>A run where two threads lock two mutexes in opposite order.\<close>

definition lid :: "int \<Rightarrow> lock_id" where "lid t = \<lparr>mFile = ''x.cpp'', mThreadId = t, mLine = 1\<rparr>"


definition took :: "int \<Rightarrow> nat \<Rightarrow> lock_state \<Rightarrow> lock_state" where
  "took t m s = s\<lparr>held := (held s)(m \<mapsto> t),
     trace := ltrace_lock m (lid t) (snd (ltrace_check m t (trace s)))\<rparr>"

definition asked :: "int \<Rightarrow> nat \<Rightarrow> lock_state \<Rightarrow> lock_state" where
  "asked t m s = s\<lparr>lpc := (lpc s)(t := Checked m), trace := snd (ltrace_check m t (trace s))\<rparr>"

lemma run_asked:
  assumes "t > 0" and "lpc s t = Outside"
  shows "lock_step s (LCheck t m (fst (ltrace_check m t (trace s)))) (asked t m s)"
  using lock_step.check [OF assms, of m] by (cases "ltrace_check m t (trace s)") (auto simp: asked_def)

lemma run_took:
  assumes "lock_run s0 as s" and "t > 0" and "lpc s t = Outside" and "held s m = None"
  shows "lock_run s0 (((as @ [LCheck t m (fst (ltrace_check m t (trace s)))]) @ [LAcquire t m])
    @ [LRecord t m (lid t)]) (took t m s)"
proof -
  let ?s1 = "asked t m s"
  let ?s2 = "?s1\<lparr>lpc := (lpc ?s1)(t := Acquired m), held := (held ?s1)(m \<mapsto> t)\<rparr>"
  have "lock_step ?s1 (LAcquire t m) ?s2"
    using lock_step.acquire [of ?s1 t m] assms by (simp add: asked_def)
  moreover have "lock_step ?s2 (LRecord t m (lid t)) (took t m s)"
    using lock_step.record_lock [of ?s2 t m "lid t"] assms
    by (cases s) (simp add: asked_def took_def lid_def fun_upd_idem)
  ultimately show ?thesis using run_asked [OF assms(2,3)] assms(1) by (intro lock_run_snoc)
qed

abbreviation lock_start0 :: lock_state where
  "lock_start0 \<equiv> lock_start (setMaxBlockThreads 8 lock_trace_init)"

definition crossed :: lock_state where
  "crossed = asked 10 2 (took 20 2 (took 10 1 lock_start0))"

lemmas trace_eval = took_def asked_def lock_start_def setMaxBlockThreads_def lock_trace_init_def
  ltrace_check_def deadlockCheck_def checkAllThreadsBlock_def ltrace_lock_def insertLock_def lid_def

lemma crossed_run: "\<exists>as. lock_run lock_start0 as crossed \<and> (\<forall>a\<in>set as. \<not> is_try a)"
  using lock_run_snoc [OF run_took [OF run_took [OF lock_run_nil [of lock_start0], of 10 1], of 20 2]
      run_asked, of 10 2]
  by (intro exI conjI) (assumption | simp add: crossed_def trace_eval)+


text \<open>The other direction fails: \<^verbatim>\<open>MUTEX_UNLOCK\<close> records the unlock after it, so it can erase the
  entry of a thread that has taken the mutex in between, and the deadlock of that thread with
  another one goes unreported.\<close>

definition let_go :: "int \<Rightarrow> nat \<Rightarrow> lock_state \<Rightarrow> lock_state" where
  "let_go t m s = s\<lparr>lpc := (lpc s)(t := Released m), held := (held s)(m := None)\<rparr>"

definition noted :: "int \<Rightarrow> nat \<Rightarrow> lock_state \<Rightarrow> lock_state" where
  "noted t m s = s\<lparr>lpc := (lpc s)(t := Outside), trace := ltrace_unlock m t (trace s)\<rparr>"

lemma run_let_go:
  "lock_run s0 as s \<Longrightarrow> lpc s t = Outside \<Longrightarrow> held s m = Some t
    \<Longrightarrow> lock_run s0 (as @ [LRelease t m]) (let_go t m s)"
  unfolding let_go_def by (rule lock_run_snoc [OF _ lock_step.release])

lemma run_noted:
  "lock_run s0 as s \<Longrightarrow> lpc s t = Released m \<Longrightarrow> lock_run s0 (as @ [LUnlock t m]) (noted t m s)"
  unfolding noted_def by (rule lock_run_snoc [OF _ lock_step.record_unlock])

definition erased :: lock_state where
  "erased = took 10 1 (noted 30 2 (took 20 2 (let_go 30 2 (took 30 2 lock_start0))))"

lemmas erased_eval = trace_eval let_go_def noted_def ltrace_unlock_def

lemma erased_run: "\<exists>as. lock_run lock_start0 as erased \<and> (\<forall>t m. LCheck t m True \<notin> set as)"
  using run_took [OF run_noted [OF run_took [OF run_let_go [OF run_took [OF lock_run_nil
      [of lock_start0], of 30 2], of 30 2], of 20 2], of 30 2], of 10 1]
  by (intro exI conjI) (assumption | simp add: erased_def erased_eval)+

lemma late_unlock_hides_deadlock:
  "\<exists>as s. lock_run lock_start0 as s \<and> (\<forall>t m. LCheck t m True \<notin> set as) \<and> lock_cycle 10 2 20 1 s"
proof -
  obtain as where as: "lock_run lock_start0 as erased" "\<forall>t m. LCheck t m True \<notin> set as"
    using erased_run by blast
  let ?s1 = "asked 20 1 erased"
  have "fst (ltrace_check 1 20 (trace erased)) = False" "fst (ltrace_check 2 10 (trace ?s1)) = False"
    "lpc erased 20 = Outside" "lpc ?s1 10 = Outside"
    by (simp_all add: erased_def erased_eval)
  then have "lock_run lock_start0 ((as @ [LCheck 20 1 False]) @ [LCheck 10 2 False]) (asked 10 2 ?s1)"
    using as(1) run_asked [of 20 erased 1] run_asked [of 10 ?s1 2] by (intro lock_run_snoc) simp_all
  moreover have "lock_cycle 10 2 20 1 (asked 10 2 ?s1)"
    by (simp add: lock_cycle_def erased_def erased_eval)
  ultimately show ?thesis using as(2)
    by (intro exI [of _ "(as @ [LCheck 20 1 False]) @ [LCheck 10 2 False]"] exI conjI) auto
qed

end
