(* ===== verification/LString.thy ===== *)
theory LString
  imports Prelude
begin

text \<open>
  The string helpers of src/lang/lstring.cpp. A \<^verbatim>\<open>char *\<close> is the C string it points to, a
  \<^verbatim>\<open>std::string\<close> a list of characters; \<open>None\<close> stands for an access outside a string. The
  character classes are those of the C locale.
\<close>

section \<open>Character classes\<close>

definition isspace :: "char \<Rightarrow> bool" where
  "isspace c \<longleftrightarrow> (of_char c :: nat) = 32 \<or> 9 \<le> (of_char c :: nat) \<and> (of_char c :: nat) \<le> 13"

definition toupper :: "char \<Rightarrow> char" where
  "toupper c = (let n = of_char c :: nat in if 97 \<le> n \<and> n \<le> 122 then char_of (n - 32) else c)"

definition tolower :: "char \<Rightarrow> char" where
  "tolower c = (let n = of_char c :: nat in if 65 \<le> n \<and> n \<le> 90 then char_of (n + 32) else c)"

definition strToUpper :: "string \<Rightarrow> string" where "strToUpper s = map toupper s"
definition strToLower :: "string \<Rightarrow> string" where "strToLower s = map tolower s"

section \<open>Stripping blanks\<close>

text \<open>The first loop of both versions stops at the terminating NUL at the latest.\<close>

definition skip_head :: "string \<Rightarrow> nat" where
  "skip_head s = length (takeWhile isspace s)"

fun skip_last :: "string \<Rightarrow> nat \<Rightarrow> nat" where
  "skip_last s 0 = 0"
| "skip_last s (Suc n) = (if isspace (s ! Suc n) then skip_last s n else Suc n)"

definition strip_cstr :: "string \<Rightarrow> string" where
  "strip_cstr s =
     (if s = [] then s
      else let head = skip_head s;
               last = skip_last s (length s - 1);
               buf = (s @ [NUL])[last + 1 := NUL]
           in cstr (drop head buf))"

text \<open>In the second version the loop does not stop at the start of the string: on a string without
  any other character than blanks it runs below index 0.\<close>

fun strip_tail :: "string \<Rightarrow> nat \<Rightarrow> nat \<Rightarrow> nat option" where
  "strip_tail s head tail =
     (if length s \<le> tail then None
      else if isspace (s ! tail) \<and> tail \<noteq> head
           then (case tail of 0 \<Rightarrow> None | Suc n \<Rightarrow> strip_tail s head n)
           else Some tail)"

declare strip_tail.simps [simp del]

definition strip_string :: "string \<Rightarrow> string option" where
  "strip_string str =
     (let head = skip_head str
      in if length str = 0 then None
         else case strip_tail str head (length str - 1) of
                None \<Rightarrow> None
              | Some tail \<Rightarrow> Some (take (tail - head + 1) (drop head str)))"

section \<open>Lines of a stream\<close>

text \<open>\<^verbatim>\<open>getline(line, n)\<close>: what it stores, what it leaves, and whether the stream is still good: at
  the end of the file it is not, and neither when the line has more than \<open>n - 1\<close> characters.\<close>

definition stream_getline :: "nat \<Rightarrow> string \<Rightarrow> string \<times> string \<times> bool" where
  "stream_getline n s =
     (let l = takeWhile (\<lambda>c. c \<noteq> CHR 0x0A) s
      in if length l \<le> n - 1
         then (if length l < length s then (l, drop (length l + 1) s, True) else (l, [], False))
         else (take (n - 1) l, drop (n - 1) s, False))"

section \<open>Padding, splitting, replacing\<close>

definition sizeToPadStr :: "int \<Rightarrow> nat \<Rightarrow> string" where
  "sizeToPadStr n pad = (let d = dec_int n in replicate (pad - length d) CHR ''0'' @ d)"

definition find_first_of :: "string \<Rightarrow> string \<Rightarrow> nat option" where
  "find_first_of s delim =
     (let n = length (takeWhile (\<lambda>c. c \<notin> set delim) s) in if n < length s then Some n else None)"

function splitString :: "string \<Rightarrow> string \<Rightarrow> string list \<Rightarrow> string list" where
  "splitString tmpStr delim results =
     (case find_first_of tmpStr delim of
        Some cutAt \<Rightarrow>
          splitString (drop (cutAt + 1) tmpStr) delim
            (if 0 < cutAt then results @ [take cutAt tmpStr] else results)
      | None \<Rightarrow> if 0 < length tmpStr then results @ [tmpStr] else results)"
  by pat_completeness auto
termination
  by (relation "measure (\<lambda>(s, _). length s)") (auto simp: find_first_of_def Let_def split: if_splits)

declare splitString.simps [simp del]

function splitString_set :: "string \<Rightarrow> string \<Rightarrow> string set \<Rightarrow> string set" where
  "splitString_set tmpStr delim results =
     (case find_first_of tmpStr delim of
        Some cutAt \<Rightarrow>
          splitString_set (drop (cutAt + 1) tmpStr) delim
            (if 0 < cutAt then insert (take cutAt tmpStr) results else results)
      | None \<Rightarrow> if 0 < length tmpStr then insert tmpStr results else results)"
  by pat_completeness auto
termination
  by (relation "measure (\<lambda>(s, _). length s)") (auto simp: find_first_of_def Let_def split: if_splits)

declare splitString_set.simps [simp del]

text \<open>The version on a buffer: \<open>l\<close> is the piece from the pointer \<^verbatim>\<open>l\<close> up to \<^verbatim>\<open>p\<close>; the separator is
  overwritten and \<^verbatim>\<open>p\<close> already behind it when the length is tested.\<close>

fun splitString_char :: "string \<Rightarrow> char \<Rightarrow> bool \<Rightarrow> string \<Rightarrow> string list \<Rightarrow> string list" where
  "splitString_char [] dim keep_null l results =
     (if 0 < length l \<or> keep_null then results @ [l] else results)"
| "splitString_char (c # p) dim keep_null l results =
     (if c = dim
      then splitString_char p dim keep_null []
             (if 1 < length l + 1 \<or> keep_null then results @ [l] else results)
      else splitString_char p dim keep_null (l @ [c]) results)"

fun find_at :: "string \<Rightarrow> string \<Rightarrow> nat option" where
  "find_at [] old = (if old = [] then Some 0 else None)"
| "find_at (c # s) old =
     (if take (length old) (c # s) = old then Some 0 else map_option Suc (find_at s old))"

lemma find_at_bound: "find_at s old = Some n \<Longrightarrow> n + length old \<le> length s"
  by (induction s arbitrary: n) (auto split: if_splits dest: arg_cong [of _ _ length])

function replace_loop :: "string \<Rightarrow> string \<Rightarrow> string \<Rightarrow> string \<Rightarrow> string" where
  "replace_loop rest old newStr result =
     (if old = [] then result @ rest
      else case find_at rest old of
             Some n \<Rightarrow> replace_loop (drop (n + length old) rest) old newStr (result @ take n rest @ newStr)
           | None \<Rightarrow> result @ rest)"
  by pat_completeness auto
termination
proof (relation "measure (\<lambda>(s, _). length s)")
  fix rest old newStr result n
  assume "old \<noteq> []" "find_at rest old = Some n"
  then have "0 < length old" "n + length old \<le> length rest" using find_at_bound by auto
  then have "length rest - (n + length old) < length rest" by linarith
  then show "((drop (n + length old) rest, old, newStr, result @ take n rest @ newStr),
      rest, old, newStr, result) \<in> measure (\<lambda>(s, _). length s)" by simp
qed simp

declare replace_loop.simps [simp del]

definition replace_string :: "string \<Rightarrow> string \<Rightarrow> string \<Rightarrow> string" where
  "replace_string str old newStr =
     (if old = newStr then str
      else if old = '''' then str
      else if length str < length old then str
      else replace_loop str old newStr [])"

section \<open>Hexadecimal\<close>

definition hex_digit :: "nat \<Rightarrow> char" where
  "hex_digit n = (if n < 10 then char_of (48 + n) else char_of (87 + n))"

definition hex_value :: "char \<Rightarrow> nat option" where
  "hex_value c = (let n = of_char c :: nat
     in if 48 \<le> n \<and> n \<le> 57 then Some (n - 48)
        else if 97 \<le> n \<and> n \<le> 102 then Some (n - 87)
        else if 65 \<le> n \<and> n \<le> 70 then Some (n - 55) else None)"

text \<open>\<^verbatim>\<open>sprintf("%02x")\<close> of a byte, and \<^verbatim>\<open>strtol(s, NULL, 16)\<close>: blanks, a sign, an optional \<^verbatim>\<open>0x\<close>
  before a digit, then digits as far as they go.\<close>

definition hex_byte :: "char \<Rightarrow> string" where
  "hex_byte c = (let n = of_char c :: nat in [hex_digit (n div 16), hex_digit (n mod 16)])"

fun hex_digits :: "nat \<Rightarrow> string \<Rightarrow> nat" where
  "hex_digits a [] = a"
| "hex_digits a (c # s) = (case hex_value c of None \<Rightarrow> a | Some d \<Rightarrow> hex_digits (16 * a + d) s)"

definition skip_0x :: "string \<Rightarrow> string" where
  "skip_0x s = (if 2 < length s \<and> s ! 0 = CHR ''0'' \<and> (s ! 1 = CHR ''x'' \<or> s ! 1 = CHR ''X'')
     \<and> hex_value (s ! 2) \<noteq> None then drop 2 s else s)"

definition strtol16 :: "string \<Rightarrow> int" where
  "strtol16 str =
     (let s = dropWhile isspace str
      in if s \<noteq> [] \<and> hd s = CHR ''-'' then - int (hex_digits 0 (skip_0x (tl s)))
         else if s \<noteq> [] \<and> hd s = CHR ''+'' then int (hex_digits 0 (skip_0x (tl s)))
         else int (hex_digits 0 (skip_0x s)))"

definition bin2hex :: "string \<Rightarrow> string" where
  "bin2hex s = concat (map hex_byte s)"

fun hex_pairs :: "string \<Rightarrow> string" where
  "hex_pairs (a # b # s) = char_of (nat (strtol16 (cstr [a, b]) mod 256)) # hex_pairs s"
| "hex_pairs s = []"

definition hex2bin :: "string \<Rightarrow> string \<times> nat" where
  "hex2bin s = (if length s = 0 then ([], 0) else (hex_pairs s, length s div 2))"

section \<open>Numbers\<close>

text \<open>\<^verbatim>\<open>strToVal\<close> of decimal integers, by the stream extraction of the C++ library: blanks, a sign,
  digits, the rest ignored. Without a digit, or out of the range of the type, the value is 0 and the
  answer false; an unsigned type takes a minus sign and negates.\<close>

definition digit :: "char \<Rightarrow> bool" where
  "digit c \<longleftrightarrow> 48 \<le> (of_char c :: nat) \<and> (of_char c :: nat) \<le> 57"

definition stream_number :: "string \<Rightarrow> (bool \<times> nat) option" where
  "stream_number str =
     (let s = dropWhile isspace str;
          neg = (s \<noteq> [] \<and> hd s = CHR ''-'');
          s1 = (if s \<noteq> [] \<and> (hd s = CHR ''-'' \<or> hd s = CHR ''+'') then tl s else s);
          ds = takeWhile digit s1
      in if ds = [] then None else Some (neg, val_digits 0 ds))"

definition strToVal_int :: "string \<Rightarrow> int \<times> bool" where
  "strToVal_int str =
     (case stream_number str of
        None \<Rightarrow> (0, False)
      | Some (neg, n) \<Rightarrow>
          (let v = (if neg then - int n else int n)
           in if - (2 ^ 31) \<le> v \<and> v < 2 ^ 31 then (v, True) else (0, False)))"

definition strToVal_u32 :: "string \<Rightarrow> u32 \<times> bool" where
  "strToVal_u32 str =
     (case stream_number str of
        None \<Rightarrow> (0, False)
      | Some (neg, n) \<Rightarrow>
          (if n < 2 ^ 32 then (if neg then - word_of_nat n else word_of_nat n, True) else (0, False)))"

section \<open>What they compute\<close>

definition blank :: "string \<Rightarrow> bool" where
  "blank s \<longleftrightarrow> (\<forall>c\<in>set s. isspace c)"

definition trimmed :: "string \<Rightarrow> bool" where
  "trimmed s \<longleftrightarrow> s \<noteq> [] \<and> \<not> isspace (hd s) \<and> \<not> isspace (last s)"

lemma not_space_NUL [simp]: "\<not> isspace NUL"
  by (simp add: isspace_def)

lemma skip_head_blank:
  "blank a \<Longrightarrow> skip_head (a @ s) = length a + skip_head s"
  by (induction a) (auto simp: skip_head_def blank_def)

lemma skip_head_trimmed: "trimmed s \<Longrightarrow> skip_head (s @ b) = 0"
  by (cases s) (auto simp: skip_head_def trimmed_def)

lemma skip_last_blank:
  "n < length s \<Longrightarrow> m \<le> n \<Longrightarrow> \<not> isspace (s ! m) \<Longrightarrow> (\<And>k. m < k \<Longrightarrow> k \<le> n \<Longrightarrow> isspace (s ! k))
    \<Longrightarrow> skip_last s n = m"
proof (induction n)
  case (Suc n)
  then show ?case by (cases "m = Suc n") (auto simp: le_Suc_eq)
qed simp

lemma skip_last_all: "(\<And>k. k \<le> n \<Longrightarrow> isspace (s ! k)) \<Longrightarrow> skip_last s n = 0"
  by (induction n) auto

lemma nth_blank_end:
  assumes "trimmed s" "blank b" "length a + length s \<le> k" "k < length (a @ s @ b)"
  shows "isspace ((a @ s @ b) ! k)"
  using assms by (auto simp: nth_append blank_def)

lemma nth_trimmed_last: "trimmed s \<Longrightarrow> \<not> isspace ((a @ s @ b) ! (length a + length s - 1))"
  by (cases s rule: rev_cases) (auto simp: trimmed_def nth_append)

lemma trimmed_decomp:
  assumes "s \<noteq> []" "\<not> isspace (hd s)"
  shows "\<exists>u b. s = u @ b \<and> trimmed u \<and> blank b \<and> hd u = hd s"
proof -
  let ?u = "rev (dropWhile isspace (rev s))" and ?b = "rev (takeWhile isspace (rev s))"
  have s: "s = ?u @ ?b" by (metis rev_append rev_rev_ident takeWhile_dropWhile_id)
  have "hd s \<in> set (rev s)" using assms(1) by simp
  then have u: "?u \<noteq> []" using assms(2) by (auto simp: dropWhile_eq_Nil_conv)
  then have "hd ?u = hd s" by (metis s hd_append2)
  moreover have "\<not> isspace (last ?u)" using u hd_dropWhile [of isspace "rev s"] by (simp add: last_rev)
  ultimately have "trimmed ?u \<and> blank ?b \<and> hd ?u = hd s"
    using u assms(2) by (auto simp: trimmed_def blank_def dest: set_takeWhileD)
  then show ?thesis using s by blast
qed

lemma strip_cstr_trims:
  assumes "blank a" "trimmed s" "blank b" "NUL \<notin> set s"
  shows "strip_cstr (a @ s @ b) = s"
proof -
  let ?t = "a @ s @ b" and ?n = "length a + length s - 1"
  have s: "s \<noteq> []" using assms(2) by (simp add: trimmed_def)
  have last: "skip_last ?t (length ?t - 1) = ?n"
    using s nth_trimmed_last [OF assms(2), of a b] nth_blank_end [OF assms(2,3), of a]
    by (intro skip_last_blank) auto
  have "Suc ?n = length a + length s" using s by simp
  then have buf: "(?t @ [NUL])[?n + 1 := NUL] = a @ s @ NUL # tl (b @ [NUL])"
    by (cases b) (simp_all add: list_update_append)
  have "skip_head ?t = length a"
    using skip_head_blank [OF assms(1)] skip_head_trimmed [OF assms(2)] by simp
  then show ?thesis
    using s assms(4) unfolding strip_cstr_def Let_def last buf
    by (simp add: cstr_append)
qed

lemma strip_cstr_blank: "blank a \<Longrightarrow> strip_cstr a = []"
proof (cases "a = []")
  case False
  assume a: "blank a"
  have "isspace (a ! k)" if "k \<le> length a - 1" for k
  proof -
    have "k < length a" using that False by (cases a) auto
    then show ?thesis using a by (simp add: blank_def)
  qed
  then have "skip_last a (length a - 1) = 0" by (rule skip_last_all)
  moreover have "skip_head a = length a"
    using skip_head_blank [OF a, of "[]"] by (simp add: skip_head_def)
  ultimately show ?thesis using False by (cases a) (simp_all add: strip_cstr_def list_update_append)
qed (simp add: strip_cstr_def)

lemma strip_tail_blank:
  "n < length s \<Longrightarrow> h \<le> m \<Longrightarrow> m \<le> n \<Longrightarrow> \<not> isspace (s ! m)
    \<Longrightarrow> (\<And>k. m < k \<Longrightarrow> k \<le> n \<Longrightarrow> isspace (s ! k)) \<Longrightarrow> strip_tail s h n = Some m"
proof (induction n)
  case 0
  then show ?case by (subst strip_tail.simps) simp
next
  case (Suc n)
  then show ?case by (cases "m = Suc n"; subst strip_tail.simps) (auto simp: le_Suc_eq)
qed

lemma strip_string_trims:
  assumes "blank a" "trimmed s" "blank b"
  shows "strip_string (a @ s @ b) = Some s"
proof -
  let ?t = "a @ s @ b" and ?n = "length a + length s - 1"
  have s: "s \<noteq> []" "0 < length s" using assms(2) by (simp_all add: trimmed_def)
  have head: "skip_head ?t = length a"
    using skip_head_blank [OF assms(1)] skip_head_trimmed [OF assms(2)] by simp
  have "length a \<le> ?n" using s by linarith
  then have "strip_tail ?t (length a) (length ?t - 1) = Some ?n"
    using s nth_trimmed_last [OF assms(2), of a b] nth_blank_end [OF assms(2,3), of a]
    by (intro strip_tail_blank) (auto simp: Suc_le_eq)
  then show ?thesis using s head by (simp add: strip_string_def)
qed

text \<open>A string of blanks only, the empty one included, is read outside its bounds.\<close>

lemma strip_tail_none:
  "n < length s \<Longrightarrow> (\<And>k. k \<le> n \<Longrightarrow> isspace (s ! k)) \<Longrightarrow> n < h \<Longrightarrow> strip_tail s h n = None"
proof (induction n)
  case 0
  then show ?case by (subst strip_tail.simps) simp
next
  case (Suc n)
  then show ?case by (subst strip_tail.simps) simp
qed

lemma strip_string_blank: "blank s \<Longrightarrow> strip_string s = None"
  using skip_head_blank [of s "[]"] strip_tail_none [of "length s - 1" s "length s"]
  by (cases "s = []") (auto simp: strip_string_def blank_def skip_head_def Let_def)

text \<open>The fields of a string between separators; the split functions return the non-empty ones.\<close>

fun fields :: "string \<Rightarrow> string \<Rightarrow> string list" where
  "fields d [] = [[]]"
| "fields d (c # s) = (if c \<in> set d then [] # fields d s
     else case fields d s of [] \<Rightarrow> [[c]] | f # fs \<Rightarrow> (c # f) # fs)"

lemma fields_nonempty [simp]: "fields d s \<noteq> []"
  by (induction s) (auto split: list.splits)

lemma fields_prefix:
  "set a \<inter> set d = {} \<Longrightarrow> fields d (a @ s) = (a @ hd (fields d s)) # tl (fields d s)"
  by (induction a) (auto split: list.splits)

lemma find_first_of_Some:
  assumes "find_first_of s d = Some n"
  shows "\<exists>c. s = take n s @ c # drop (n + 1) s \<and> c \<in> set d \<and> set (take n s) \<inter> set d = {}"
proof -
  have n: "n = length (takeWhile (\<lambda>c. c \<notin> set d) s)" "n < length s"
    using assms by (auto simp: find_first_of_def Let_def split: if_splits)
  then have "s ! n \<in> set d" using nth_length_takeWhile [of "\<lambda>c. c \<notin> set d" s] by simp
  moreover have "take n s = takeWhile (\<lambda>c. c \<notin> set d) s" unfolding n(1) by (rule takeWhile_eq_take [symmetric])
  moreover have "s = take n s @ s ! n # drop (n + 1) s" using n(2) by (simp add: id_take_nth_drop)
  moreover have "set (takeWhile (\<lambda>c. c \<notin> set d) s) \<inter> set d = {}" by (auto dest: set_takeWhileD)
  ultimately show ?thesis by (intro exI [of _ "s ! n"]) simp
qed

lemma find_first_of_None: "find_first_of s d = None \<Longrightarrow> set s \<inter> set d = {}"
proof -
  assume "find_first_of s d = None"
  then have "length (takeWhile (\<lambda>c. c \<notin> set d) s) = length s"
    using length_takeWhile_le [of "\<lambda>c. c \<notin> set d" s]
    by (simp add: find_first_of_def Let_def split: if_splits)
  then have "takeWhile (\<lambda>c. c \<notin> set d) s = s" by (metis takeWhile_eq_take take_all order_refl)
  then show ?thesis unfolding takeWhile_eq_all_conv by blast
qed

lemma split_step:
  assumes "find_first_of s d = Some n"
  shows "fields d s = take n s # fields d (drop (n + 1) s)"
proof -
  from find_first_of_Some [OF assms] obtain c where
    c: "s = take n s @ c # drop (n + 1) s" "c \<in> set d" "set (take n s) \<inter> set d = {}" by blast
  have "fields d (take n s @ c # drop (n + 1) s) = take n s # fields d (drop (n + 1) s)"
    using fields_prefix [OF c(3)] c(2) by simp
  then show ?thesis using c(1) by simp
qed

lemma split_end: "find_first_of s d = None \<Longrightarrow> fields d s = [s]"
  using fields_prefix [of s d "[]"] find_first_of_None by simp

lemma splitString_fields: "splitString s d results = results @ filter (\<lambda>f. f \<noteq> []) (fields d s)"
proof (induction s d results rule: splitString.induct)
  case (1 s d results)
  show ?case
  proof (cases "find_first_of s d")
    case None
    then show ?thesis by (subst splitString.simps) (simp add: split_end)
  next
    case (Some n)
    then show ?thesis using 1 find_first_of_Some [OF Some]
      by (subst splitString.simps) (auto simp: split_step)
  qed
qed

lemma splitString_set_fields: "splitString_set s d results = results \<union> (set (fields d s) - {[]})"
proof (induction s d results rule: splitString_set.induct)
  case (1 s d results)
  show ?case
  proof (cases "find_first_of s d")
    case None
    then show ?thesis by (subst splitString_set.simps) (simp add: split_end)
  next
    case (Some n)
    then show ?thesis using 1 find_first_of_Some [OF Some]
      by (subst splitString_set.simps) (auto simp: split_step)
  qed
qed

lemma splitString_char_fields:
  "splitString_char s c keep l results =
     results @ (let fs = fields [c] s; gs = (l @ hd fs) # tl fs
                in if keep then gs else filter (\<lambda>f. f \<noteq> []) gs)"
proof (induction s c keep l results rule: splitString_char.induct)
  case (2 c p dim keep_null l results)
  then show ?case by (cases "fields [dim] p") (auto simp: Let_def)
qed (auto simp: Let_def)

section \<open>The hexadecimal round trip\<close>

lemma hex_digit_props:
  assumes "n < 16"
  shows "hex_value (hex_digit n) = Some n" "\<not> isspace (hex_digit n)" "hex_digit n \<noteq> NUL"
    "hex_digit n \<noteq> CHR ''-''" "hex_digit n \<noteq> CHR ''+''"
proof -
  have "n \<in> set [0..<16]" using assms by simp
  moreover have "[0..<16::nat] = [0,1,2,3,4,5,6,7,8,9,10,11,12,13,14,15]"
    by (simp add: upt_rec_numeral upt_conv_Cons)
  ultimately have "n \<in> set [0,1,2,3,4,5,6,7,8,9,10,11,12,13,14,15]" by metis
  then show "hex_value (hex_digit n) = Some n" "\<not> isspace (hex_digit n)" "hex_digit n \<noteq> NUL"
    "hex_digit n \<noteq> CHR ''-''" "hex_digit n \<noteq> CHR ''+''"
    by (auto simp: hex_digit_def hex_value_def isspace_def char_of_eq_iff Let_def)
qed

lemma strtol16_byte: "strtol16 (cstr (hex_byte c)) = int (of_char c)"
proof -
  have "of_char c \<in> {0::nat..<256}" using range_nat_of_char by (metis rangeI)
  then have h: "of_char c div 16 < (16 :: nat)" "of_char c mod 16 < (16 :: nat)"
    by (auto simp: div_less_iff_less_mult)
  have "cstr (hex_byte c) = hex_byte c"
    by (intro cstr_id) (simp add: hex_byte_def Let_def hex_digit_props [OF h(1)] hex_digit_props [OF h(2)]
        hex_digit_props(3) [OF h(1), symmetric] hex_digit_props(3) [OF h(2), symmetric])
  then show ?thesis
    by (simp add: strtol16_def hex_byte_def Let_def skip_0x_def hex_digit_props [OF h(1)]
        hex_digit_props [OF h(2)])
qed

lemma hex_pairs_bin2hex: "hex_pairs (bin2hex s) = s"
proof (induction s)
  case (Cons c s)
  have "bin2hex (c # s) = hex_digit (of_char c div 16) # hex_digit (of_char c mod 16) # bin2hex s"
    by (simp add: bin2hex_def hex_byte_def Let_def)
  moreover have "[hex_digit (of_char c div 16), hex_digit (of_char c mod 16)] = hex_byte c"
    by (simp add: hex_byte_def Let_def)
  ultimately show ?case using Cons strtol16_byte [of c] by simp
qed (simp add: bin2hex_def)

lemma hex_roundtrip: "hex2bin (bin2hex s) = (s, length s)"
proof -
  have "length (bin2hex s) = 2 * length s"
    by (induction s) (simp_all add: bin2hex_def hex_byte_def Let_def)
  then show ?thesis by (simp add: hex2bin_def hex_pairs_bin2hex)
qed

end
