(* ===== verification/Ini.thy ===== *)
theory Ini
  imports LString "HOL-Library.Char_ord" "HOL-Library.List_Lexorder"
begin

text \<open>
  The ini reader of src/conf/ini.cpp: sections of keys and values in two levels of \<^verbatim>\<open>std::map\<close>
  (strings in the order of their characters), \<^verbatim>\<open>get\<close>, \<^verbatim>\<open>put\<close>, \<^verbatim>\<open>load\<close> and \<^verbatim>\<open>output\<close>. A pointer to
  a section is its name, since a section is never removed. A file is its content, \<open>None\<close> when it
  cannot be opened; \<open>None\<close> as a result stands for the access outside a string of \<^verbatim>\<open>strip\<close>.
\<close>

section \<open>Sections\<close>

record ini =
  mFileNames :: "string set"
  mSections :: "(string \<times> (string \<times> string) list) list"

definition DEFAULT_SECTION :: string where "DEFAULT_SECTION = ''''"
definition MAX_CFG_LINE_LEN :: nat where "MAX_CFG_LINE_LEN = 1024"
definition CFG_COMMENT_TAG :: char where "CFG_COMMENT_TAG = CHR ''#''"
definition CFG_CONTINUE_TAG :: char where "CFG_CONTINUE_TAG = CHR 0x5C"
definition CFG_SESSION_START_TAG :: char where "CFG_SESSION_START_TAG = CHR ''[''"
definition CFG_SESSION_END_TAG :: char where "CFG_SESSION_END_TAG = CHR '']''"

definition CIni_empty :: ini where
  "CIni_empty = \<lparr>mFileNames = {}, mSections = []\<rparr>"

definition insertSession :: "string \<Rightarrow> ini \<Rightarrow> ini" where
  "insertSession sessionName c = c\<lparr>mSections := map_insert sessionName [] (mSections c)\<rparr>"

definition switchSession :: "string \<Rightarrow> ini \<Rightarrow> ini" where
  "switchSession sessionName c =
     (if map_of (mSections c) sessionName \<noteq> None then c else insertSession sessionName c)"

definition get_section :: "string \<Rightarrow> ini \<Rightarrow> (string \<times> string) list" where
  "get_section section c = (case map_of (mSections c) section of None \<Rightarrow> [] | Some m \<Rightarrow> m)"

definition ini_get :: "string \<Rightarrow> string \<Rightarrow> string \<Rightarrow> ini \<Rightarrow> string" where
  "ini_get key defaultValue section c =
     (case map_of (get_section section c) key of None \<Rightarrow> defaultValue | Some v \<Rightarrow> v)"

definition add_value :: "string \<Rightarrow> string \<Rightarrow> string \<Rightarrow> ini \<Rightarrow> ini" where
  "add_value section key val c =
     c\<lparr>mSections := map_assign section (map_insert key val (get_section section c)) (mSections c)\<rparr>"

definition ini_put :: "string \<Rightarrow> string \<Rightarrow> string \<Rightarrow> ini \<Rightarrow> int \<times> ini" where
  "ini_put key val section c = (0, add_value section key val (switchSession section c))"

definition insertEntry :: "string \<Rightarrow> string \<Rightarrow> ini \<Rightarrow> (int \<times> ini) option" where
  "insertEntry section line c =
     (case find_first_of line ''='' of
        None \<Rightarrow> Some (-1, c)
      | Some equalPos \<Rightarrow>
          (case strip_string (take equalPos line) of
             None \<Rightarrow> None
           | Some key \<Rightarrow>
               (case strip_string (drop (equalPos + 1) line) of
                  None \<Rightarrow> None
                | Some val \<Rightarrow> Some (0, add_value section key val c))))"

section \<open>Loading\<close>

definition ini_getline :: "string \<Rightarrow> string \<times> string \<times> bool" where
  "ini_getline = stream_getline MAX_CFG_LINE_LEN"

text \<open>One line: the continuation flag, the section, the entry so far and the sections are passed on.\<close>

definition ini_line :: "string \<Rightarrow> bool \<Rightarrow> string \<Rightarrow> string \<Rightarrow> ini \<Rightarrow> (bool \<times> string \<times> string \<times> ini) option" where
  "ini_line line continueLastLine currentSession lineEntry c =
     (let readBuf = strip_cstr (cstr line)
      in if length readBuf = 0 then Some (continueLastLine, currentSession, lineEntry, c)
         else if hd readBuf = CFG_COMMENT_TAG then Some (continueLastLine, currentSession, lineEntry, c)
         else if hd readBuf = CFG_SESSION_START_TAG \<and> last readBuf = CFG_SESSION_END_TAG
         then (let sessionName = tl (butlast readBuf)
               in Some (continueLastLine, sessionName, lineEntry, switchSession sessionName c))
         else let entry = (if continueLastLine then lineEntry @ readBuf else readBuf)
              in if last readBuf = CFG_CONTINUE_TAG
                 then Some (True, currentSession, entry[length entry - 1 := NUL], c)
                 else case insertEntry currentSession entry c of
                        None \<Rightarrow> None
                      | Some (_, c') \<Rightarrow> Some (False, currentSession, entry, c'))"

function ini_loop :: "string \<Rightarrow> bool \<Rightarrow> string \<Rightarrow> string \<Rightarrow> ini \<Rightarrow> ini option" where
  "ini_loop rest continueLastLine currentSession lineEntry c =
     (case ini_getline rest of (line, rest', good) \<Rightarrow>
        (case ini_line line continueLastLine currentSession lineEntry c of
           None \<Rightarrow> None
         | Some (cont, cur, entry, c') \<Rightarrow>
             if good then ini_loop rest' cont cur entry c' else Some c'))"
  by pat_completeness auto
termination
  by (relation "measure (\<lambda>(s, _). length s)") (auto simp: ini_getline_def stream_getline_def Let_def split: if_splits)

declare ini_loop.simps [simp del]

definition ini_load :: "string \<Rightarrow> string option \<Rightarrow> ini \<Rightarrow> (int \<times> ini) option" where
  "ini_load fileName file c =
     (let c1 = switchSession DEFAULT_SECTION c
      in case (case file of None \<Rightarrow> Some c1 | Some content \<Rightarrow> ini_loop content False DEFAULT_SECTION [] c1) of
           None \<Rightarrow> None
         | Some c2 \<Rightarrow> Some (0, c2\<lparr>mFileNames := insert fileName (mFileNames c2)\<rparr>))"

definition ini_output :: "ini \<Rightarrow> string" where
  "ini_output c =
     ''Begin dump configuration'' @ [CHR 0x0A]
     @ concat (map (\<lambda>(s, m). s @ [CHR 0x0A]
         @ concat (map (\<lambda>(k, v). k @ ''='' @ v @ [CHR 0x0A]) m)) (mSections c))
     @ ''Finish dump configuration '' @ [CHR 0x0A]"

section \<open>What is loaded\<close>

definition ini_lookup :: "ini \<Rightarrow> string \<Rightarrow> string \<Rightarrow> string option" where
  "ini_lookup c section key = map_of (get_section section c) key"

lemma ini_get_lookup:
  "ini_get key d section c = (case ini_lookup c section key of None \<Rightarrow> d | Some v \<Rightarrow> v)"
  by (simp add: ini_get_def ini_lookup_def)

lemma lookup_switch [simp]: "ini_lookup (switchSession s c) = ini_lookup c"
  by (auto simp: ini_lookup_def get_section_def switchSession_def insertSession_def
      map_of_map_insert fun_eq_iff)

lemma lookup_add:
  "ini_lookup (add_value s k v c) = (if ini_lookup c s k = None
     then (ini_lookup c)(s := (ini_lookup c s)(k \<mapsto> v)) else ini_lookup c)"
  by (auto simp: ini_lookup_def add_value_def get_section_def map_of_map_assign map_of_map_insert
      fun_eq_iff split: option.splits)

text \<open>An ini file as its author sees it. The blanks around names, keys and values are arbitrary.\<close>

datatype ini_text =
    LBlank string
  | LComment string string
  | LSection string string string
  | LEntry string string string string string string

fun text_line :: "ini_text \<Rightarrow> string" where
  "text_line (LBlank a) = a"
| "text_line (LComment a t) = a @ CFG_COMMENT_TAG # t"
| "text_line (LSection a n b) = a @ (CFG_SESSION_START_TAG # n @ [CFG_SESSION_END_TAG]) @ b"
| "text_line (LEntry a k b c v d) = a @ (k @ b @ CHR ''='' # c @ v) @ d"

fun text_shape :: "ini_text \<Rightarrow> bool" where
  "text_shape (LBlank a) = blank a"
| "text_shape (LComment a t) = blank a"
| "text_shape (LSection a n b) = (blank a \<and> blank b)"
| "text_shape (LEntry a k b c v d) =
     (blank a \<and> blank b \<and> blank c \<and> blank d \<and> trimmed k \<and> trimmed v \<and> CHR ''='' \<notin> set k
      \<and> hd k \<noteq> CFG_COMMENT_TAG \<and> hd k \<noteq> CFG_SESSION_START_TAG \<and> last v \<noteq> CFG_CONTINUE_TAG)"

definition text_ok :: "ini_text \<Rightarrow> bool" where
  "text_ok l \<longleftrightarrow> text_shape l \<and> length (text_line l) < MAX_CFG_LINE_LEN
     \<and> NUL \<notin> set (text_line l) \<and> CHR 0x0A \<notin> set (text_line l)"

definition text_file :: "ini_text list \<Rightarrow> string" where
  "text_file ls = concat (map (\<lambda>l. text_line l @ [CHR 0x0A]) ls)"

text \<open>Its meaning: the first value of a key in a section counts.\<close>

fun meaning :: "string \<Rightarrow> ini_text list \<Rightarrow> (string \<Rightarrow> string \<Rightarrow> string option)
    \<Rightarrow> (string \<Rightarrow> string \<Rightarrow> string option)" where
  "meaning cur [] m = m"
| "meaning cur (LSection a n b # ls) m = meaning n ls m"
| "meaning cur (LEntry a k b c v d # ls) m =
     meaning cur ls (if m cur k = None then m(cur := (m cur)(k \<mapsto> v)) else m)"
| "meaning cur (_ # ls) m = meaning cur ls m"

lemma tags_not_space [simp]:
  "\<not> isspace CFG_COMMENT_TAG" "\<not> isspace CFG_SESSION_START_TAG" "\<not> isspace CFG_SESSION_END_TAG"
  "\<not> isspace CHR ''=''"
  by (simp_all add: isspace_def CFG_COMMENT_TAG_def CFG_SESSION_START_TAG_def CFG_SESSION_END_TAG_def)

lemma tags_distinct [simp]:
  "CFG_SESSION_START_TAG \<noteq> CFG_COMMENT_TAG" "CFG_SESSION_END_TAG \<noteq> CFG_CONTINUE_TAG"
  by (simp_all add: CFG_COMMENT_TAG_def CFG_SESSION_START_TAG_def CFG_SESSION_END_TAG_def
      CFG_CONTINUE_TAG_def)

lemma trimmed_append: "trimmed k \<Longrightarrow> trimmed v \<Longrightarrow> trimmed (k @ x @ v)"
  by (cases k) (auto simp: trimmed_def)

lemma trimmed_section: "trimmed (CFG_SESSION_START_TAG # n @ [CFG_SESSION_END_TAG])"
  by (simp add: trimmed_def)

lemma insertEntry_trims:
  assumes "trimmed k" "trimmed v" "blank b" "blank d" "CHR ''='' \<notin> set k"
  shows "insertEntry cur (k @ b @ CHR ''='' # d @ v) c = Some (0, add_value cur k v c)"
proof -
  have b: "CHR ''='' \<notin> set b" using assms(3) by (auto simp: blank_def)
  have "takeWhile (\<lambda>x. x \<notin> set ''='') (k @ b @ CHR ''='' # d @ v) = k @ b"
    using takeWhile_neq [of "CHR ''=''" "k @ b" "d @ v"] assms(5) b by simp
  then have "find_first_of (k @ b @ CHR ''='' # d @ v) ''='' = Some (length k + length b)"
    by (simp add: find_first_of_def)
  moreover have "strip_string (k @ b) = Some k"
    using strip_string_trims [of "[]" k b] assms by (simp add: blank_def)
  moreover have "strip_string (d @ v) = Some v"
    using strip_string_trims [of d v "[]"] assms by (simp add: blank_def)
  ultimately show ?thesis by (simp add: insertEntry_def)
qed

lemma getline_line:
  assumes "CHR 0x0A \<notin> set l" "length l < MAX_CFG_LINE_LEN"
  shows "ini_getline (l @ CHR 0x0A # rest) = (l, rest, True)"
  using assms by (simp add: ini_getline_def stream_getline_def takeWhile_neq)

lemma getline_end: "ini_getline [] = ([], [], False)"
  by (simp add: ini_getline_def stream_getline_def)

text \<open>One line of such a file, outside a continuation.\<close>

definition text_effect :: "ini_text \<Rightarrow> string \<Rightarrow> string \<Rightarrow> ini \<Rightarrow> bool \<times> string \<times> string \<times> ini" where
  "text_effect l cur e c = (case l of
       LBlank a \<Rightarrow> (False, cur, e, c)
     | LComment a t \<Rightarrow> (False, cur, e, c)
     | LSection a n b \<Rightarrow> (False, n, e, switchSession n c)
     | LEntry a k b s v d \<Rightarrow> (False, cur, k @ b @ CHR ''='' # s @ v, add_value cur k v c))"

lemma ini_line_effect:
  assumes "text_ok l"
  shows "ini_line (text_line l) False cur e c = Some (text_effect l cur e c)"
proof -
  have cs: "cstr (text_line l) = text_line l" "NUL \<notin> set (text_line l)" and shape: "text_shape l"
    using assms by (simp_all add: text_ok_def cstr_id)
  show ?thesis
  proof (cases l)
    case (LBlank a)
    then show ?thesis using shape cs by (simp add: ini_line_def text_effect_def strip_cstr_blank)
  next
    case (LComment a t)
    obtain u b where u: "CFG_COMMENT_TAG # t = u @ b" "trimmed u" "blank b" "hd u = CFG_COMMENT_TAG"
      using trimmed_decomp [of "CFG_COMMENT_TAG # t"] by auto
    then have "text_line l = a @ u @ b" using LComment by simp
    moreover have "strip_cstr (a @ u @ b) = u"
      using strip_cstr_trims [of a u b] u shape cs(2) LComment by auto
    ultimately show ?thesis
      using cs u LComment by (simp add: ini_line_def text_effect_def trimmed_def)
  next
    case (LSection a n b)
    then have "strip_cstr (text_line l) = CFG_SESSION_START_TAG # n @ [CFG_SESSION_END_TAG]"
      using strip_cstr_trims [OF _ trimmed_section, of a b n] shape cs(2) by simp
    then show ?thesis
      using cs LSection by (simp add: ini_line_def text_effect_def Let_def butlast_append)
  next
    case (LEntry a k b s v d)
    let ?e = "k @ b @ CHR ''='' # s @ v"
    have "trimmed ?e" using trimmed_append [of k v "b @ CHR ''='' # s"] shape LEntry by simp
    then have st: "strip_cstr (text_line l) = ?e"
      using strip_cstr_trims [of a ?e d] shape cs(2) LEntry by simp
    have hd: "hd ?e = hd k" "last ?e = last v" "?e \<noteq> []"
      using shape LEntry by (simp_all add: trimmed_def)
    have ins: "insertEntry cur ?e c = Some (0, add_value cur k v c)"
      using shape LEntry by (intro insertEntry_trims) simp_all
    have "ini_line (text_line l) False cur e c = Some (False, cur, ?e, add_value cur k v c)"
      unfolding ini_line_def cs st Let_def using hd ins shape LEntry by simp
    then show ?thesis using LEntry by (simp add: text_effect_def)
  qed
qed

lemma ini_loop_meaning:
  assumes "\<forall>l\<in>set ls. text_ok l"
  shows "\<exists>c'. ini_loop (text_file ls) False cur e c = Some c'
    \<and> ini_lookup c' = meaning cur ls (ini_lookup c)"
  using assms
proof (induction ls arbitrary: cur e c)
  case Nil
  have "ini_line [] False cur e c = Some (False, cur, e, c)"
    by (simp add: ini_line_def strip_cstr_def)
  then show ?case by (subst ini_loop.simps) (simp add: text_file_def getline_end)
next
  case (Cons l ls)
  obtain cur' e' c' where eff: "text_effect l cur e c = (False, cur', e', c')"
    by (cases l) (auto simp: text_effect_def)
  have "text_file (l # ls) = text_line l @ CHR 0x0A # text_file ls" by (simp add: text_file_def)
  then have "ini_loop (text_file (l # ls)) False cur e c = ini_loop (text_file ls) False cur' e' c'"
    using Cons.prems ini_line_effect [of l cur e c] eff
    by (subst ini_loop.simps) (simp add: getline_line text_ok_def)
  moreover have "meaning cur (l # ls) (ini_lookup c) = meaning cur' ls (ini_lookup c')"
    using eff by (cases l) (auto simp: text_effect_def lookup_add)
  ultimately show ?case using Cons.IH [of cur' e' c'] Cons.prems by simp
qed


definition sample_ini :: "ini_text list" where
  "sample_ini = [LComment [] '' a comment'', LSection '' '' ''NET'' [],
     LEntry [] ''port'' '' '' '' '' ''3688'' [], LBlank '' '', LEntry [] ''port'' [] [] ''1'' '' '']"


section \<open>Where it goes wrong\<close>

text \<open>A file that cannot be opened is loaded successfully.\<close>

lemma ini_load_missing_file:
  "ini_load fileName None c = Some (0, (switchSession DEFAULT_SECTION c)
     \<lparr>mFileNames := insert fileName (mFileNames (switchSession DEFAULT_SECTION c))\<rparr>)"
  by (simp add: ini_load_def Let_def)

text \<open>An entry without a value reads outside the empty string.\<close>

lemma ini_load_empty_value: "ini_load fileName (Some ''key='') c = None"
proof -
  have "strip_string ''key'' = Some ''key''"
    using strip_string_trims [of "[]" "''key''" "[]"] by (simp add: trimmed_def blank_def isspace_def)
  then have "insertEntry cur ''key='' c = None" for cur c
    by (simp add: insertEntry_def find_first_of_def strip_string_blank blank_def)
  moreover have "strip_cstr ''key='' = ''key=''"
    using strip_cstr_trims [of "[]" "''key=''" "[]"] by (simp add: trimmed_def blank_def isspace_def)
  ultimately have "ini_line ''key='' False cur e c = None" for cur e c
    by (simp add: ini_line_def cstr_id CFG_COMMENT_TAG_def CFG_SESSION_START_TAG_def
        CFG_CONTINUE_TAG_def Let_def)
  then show ?thesis
    by (simp add: ini_load_def ini_loop.simps ini_getline_def stream_getline_def MAX_CFG_LINE_LEN_def)
qed

text \<open>A line that does not fit the buffer ends the loading: what follows it is ignored.\<close>

lemma ini_load_long_line:
  assumes "CHR 0x0A \<notin> set l" "MAX_CFG_LINE_LEN \<le> length l"
  shows "ini_load fileName (Some (l @ CHR 0x0A # rest)) c = ini_load fileName (Some (l @ [CHR 0x0A])) c"
proof -
  have g: "ini_getline (l @ CHR 0x0A # r)
      = (take (MAX_CFG_LINE_LEN - 1) l, drop (MAX_CFG_LINE_LEN - 1) (l @ CHR 0x0A # r), False)" for r
    using assms by (simp add: ini_getline_def stream_getline_def takeWhile_neq MAX_CFG_LINE_LEN_def)
  show ?thesis by (simp add: ini_load_def ini_loop.simps [of "l @ _"] g split: option.split)
qed

text \<open>\<^verbatim>\<open>put\<close> does not replace the value of a key.\<close>

lemma ini_put_keeps:
  "ini_get key d section (snd (ini_put key v section c)) =
     (case ini_lookup c section key of None \<Rightarrow> v | Some old \<Rightarrow> old)"
  by (simp add: ini_put_def ini_get_lookup lookup_add split: option.split)

end
