(* ===== verification/Stats.thy ===== *)
theory Stats
  imports LString "HOL-Library.Char_ord" "HOL-Library.List_Lexorder"
begin

text \<open>
  The statistics of the stages (include/seda/sedastats.h, sedastatsevent.h, sedastatsstage.h and
  their sources; include/seda/sedametric.h): a \<^verbatim>\<open>SedaStats\<close> object times a piece of code and sends
  an event to the statistics stage, which keeps one \<^verbatim>\<open>SedaStatsStore\<close> per category and statistic.
  Counters keep their width: \<^verbatim>\<open>unsigned long long\<close> and \<^verbatim>\<open>long long\<close> are 64-bit words, the second
  read with \<open>sint\<close>. The management requests are not compiled (\<^verbatim>\<open>SEDASTATS_MANAGE\<close> is 0).
\<close>

section \<open>Identifiers and texts\<close>

definition MAX_NUM_CATEGORY :: int where "MAX_NUM_CATEGORY = 2000"
definition ALL_CATEGORY :: int where "ALL_CATEGORY = 0"

definition categoryStr :: "int \<Rightarrow> string" where
  "categoryStr c =
     (if c = 0 then ''All the categories listed''
      else if c = 100 then ''Command Processing stats for Server''
      else if c = 200 then ''Command Processing stats for client''
      else if c = 300 then ''Network Latency''
      else if c = 400 then ''Service Latency''
      else if c = 500 then ''CommStage''
      else if c = 600 then ''Service''
      else if c = MAX_NUM_CATEGORY then ''Dummy category, not a valid category!''
      else ''NOT LISTED IN SEDASTATS.H!!!'')"

definition getIdStr :: "int \<Rightarrow> string" where
  "getIdStr i =
     (if i = 100 then ''Server Object Create''
      else if i = 101 then ''Server create an object in NS''
      else if i = 200 then ''Client create an object''
      else if i = 201 then ''Client Open an object''
      else if i = 300 then ''Network latency''
      else if i = 301 then ''RPC Header latency''
      else if i = 302 then ''RPC deserialize message''
      else if i = 303 then ''RPC MSG latency''
      else if i = 304 then ''RPC RSP latency''
      else ''NOT LISTED IN SEDASTATS.H!!!'')"

datatype stats_id = StatsId_ID int | StatsId_STR string | StatsId_ALL

section \<open>One store\<close>

record stats_store =
  totalTime :: u64
  maxTime :: u64
  minTime :: u64
  numStat :: u64
  numEffectiveStat :: u64
  noStatReceived :: bool
  st_isCounter :: bool
  totalCounter :: u64
  noCounterReceived :: bool
  avgIncrement :: u64
  minIncrement :: u64
  maxIncrement :: u64
  counterCount :: u64
  persistent :: bool

definition store_reset :: "stats_store \<Rightarrow> stats_store" where
  "store_reset s = s\<lparr>totalTime := 0, maxTime := 0, minTime := 0, numStat := 0, numEffectiveStat := 0,
     noStatReceived := True, st_isCounter := False, totalCounter := 0, noCounterReceived := True,
     avgIncrement := 0, minIncrement := 0, maxIncrement := 0, counterCount := 0\<rparr>"

definition SedaStatsStore_new :: "bool \<Rightarrow> stats_store" where
  "SedaStatsStore_new p = \<lparr>totalTime = 0, maxTime = 0, minTime = 0, numStat = 0,
     numEffectiveStat = 0, noStatReceived = True, st_isCounter = False, totalCounter = 0,
     noCounterReceived = True, avgIncrement = 0, minIncrement = 0, maxIncrement = 0,
     counterCount = 0, persistent = p\<rparr>"

definition getAvgTime :: "stats_store \<Rightarrow> u64" where
  "getAvgTime s = (if 0 < numEffectiveStat s then totalTime s div numEffectiveStat s else 0)"

definition getTotalTime :: "stats_store \<Rightarrow> u64" where
  "getTotalTime s = (if numEffectiveStat s = numStat s then totalTime s else -1)"

definition incTotalTime :: "u64 \<Rightarrow> stats_store \<Rightarrow> stats_store" where
  "incTotalTime time s =
     (let s1 = (if totalTime s + time < totalTime s
                then s\<lparr>totalTime := time, numEffectiveStat := 1\<rparr>
                else s\<lparr>totalTime := totalTime s + time, numEffectiveStat := numEffectiveStat s + 1\<rparr>);
          s2 = s1\<lparr>numStat := numStat s1 + 1\<rparr>;
          s3 = (if noStatReceived s2 then s2\<lparr>minTime := time, noStatReceived := False\<rparr> else s2)
      in if maxTime s3 < time then s3\<lparr>maxTime := time\<rparr>
         else if time < minTime s3 then s3\<lparr>minTime := time\<rparr> else s3)"

text \<open>The quotient is one of unsigned numbers, the type of the count.\<close>

definition incCounter :: "u64 \<Rightarrow> stats_store \<Rightarrow> stats_store" where
  "incCounter n s =
     (let s1 = s\<lparr>st_isCounter := True, totalCounter := totalCounter s + n,
                 counterCount := counterCount s + 1\<rparr>;
          s2 = s1\<lparr>avgIncrement := totalCounter s1 div counterCount s1\<rparr>
      in if noCounterReceived s2
         then s2\<lparr>noCounterReceived := False, minIncrement := n, maxIncrement := n\<rparr>
         else let s3 = (if sint n < sint (minIncrement s2) then s2\<lparr>minIncrement := n\<rparr> else s2)
              in if sint (maxIncrement s3) < sint n then s3\<lparr>maxIncrement := n\<rparr> else s3)"

definition resetCounter :: "u64 \<Rightarrow> stats_store \<Rightarrow> stats_store" where
  "resetCounter n s = s\<lparr>st_isCounter := True, totalCounter := n, noCounterReceived := False,
     avgIncrement := n, minIncrement := n, maxIncrement := n, counterCount := 1\<rparr>"

section \<open>Events\<close>

record stats_event =
  ev_category :: int
  ev_statId :: stats_id
  statTime :: u64
  ev_statCount :: u32
  timeCollected :: bool
  countCollected :: bool
  ev_resetCount :: bool
  ev_persistent :: bool

definition SedaStatsEvent_new :: "int \<Rightarrow> stats_id \<Rightarrow> bool \<Rightarrow> stats_event" where
  "SedaStatsEvent_new category statId p = \<lparr>ev_category = category, ev_statId = statId,
     statTime = 0, ev_statCount = 0, timeCollected = False, countCollected = False,
     ev_resetCount = False, ev_persistent = p\<rparr>"

definition setTime :: "u64 \<Rightarrow> stats_event \<Rightarrow> stats_event" where
  "setTime t e = e\<lparr>statTime := t, timeCollected := True\<rparr>"

definition setStatCount :: "u32 \<Rightarrow> stats_event \<Rightarrow> stats_event" where
  "setStatCount n e = e\<lparr>ev_statCount := n, countCollected := True\<rparr>"

definition setResetCount :: "bool \<Rightarrow> stats_event \<Rightarrow> stats_event" where
  "setResetCount flag e = e\<lparr>ev_resetCount := flag\<rparr>"

text \<open>What an event does to the store of its statistic; the count is widened with its sign.\<close>

definition store_event :: "stats_event \<Rightarrow> stats_store \<Rightarrow> stats_store" where
  "store_event e st =
     (let st1 = (if timeCollected e then incTotalTime (statTime e) st else st)
      in if ev_resetCount e then resetCounter (scast (ev_statCount e)) st1
         else if countCollected e then incCounter (scast (ev_statCount e)) st1
         else st1)"

section \<open>The stores of a category\<close>

record stats_map =
  map_category :: int
  statsIdMap :: "(int \<times> stats_store) list"
  statsStrIdMap :: "(string \<times> stats_store) list"

definition SedaStatsMap_new :: "int \<Rightarrow> stats_map" where
  "SedaStatsMap_new category = \<lparr>map_category = category, statsIdMap = [], statsStrIdMap = []\<rparr>"

definition find_or_new :: "bool \<Rightarrow> stats_store option \<Rightarrow> stats_store" where
  "find_or_new p st = (case st of None \<Rightarrow> SedaStatsStore_new p | Some s \<Rightarrow> s)"

text \<open>An event whose identifier is \<^verbatim>\<open>ALL\<close> is kept under its (empty) string.\<close>

definition strId_of :: "stats_id \<Rightarrow> string" where
  "strId_of sid = (case sid of StatsId_STR s \<Rightarrow> s | _ \<Rightarrow> [])"

definition SedaStatsMapStoreStats :: "stats_event \<Rightarrow> stats_map \<Rightarrow> stats_map" where
  "SedaStatsMapStoreStats e m =
     (case ev_statId e of
        StatsId_ID i \<Rightarrow>
          m\<lparr>statsIdMap := map_assign i
              (store_event e (find_or_new (ev_persistent e) (map_of (statsIdMap m) i))) (statsIdMap m)\<rparr>
      | sid \<Rightarrow>
          m\<lparr>statsStrIdMap := map_assign (strId_of sid)
              (store_event e (find_or_new (ev_persistent e) (map_of (statsStrIdMap m) (strId_of sid))))
              (statsStrIdMap m)\<rparr>)"

definition nl_tab :: "string \<Rightarrow> string" where
  "nl_tab s = [CHR 0x09] @ s @ [CHR 0x0A]"

definition dump_field :: "string \<Rightarrow> string \<Rightarrow> string" where
  "dump_field name v = [CHR 0x09, CHR 0x09] @ name @ v @ [CHR 0x0A]"

definition dumpStore :: "stats_store \<Rightarrow> string \<Rightarrow> string" where
  "dumpStore st output = output
     @ dump_field ''AverageTime:'' (dec_nat (unat (getAvgTime st)))
     @ dump_field ''MaxTime:'' (dec_nat (unat (maxTime st)))
     @ dump_field ''MinTIme:'' (dec_nat (unat (minTime st)))
     @ dump_field ''NumStats:'' (dec_nat (unat (numStat st)))
     @ (if st_isCounter st then
          dump_field ''TotalCounter:'' (dec_int (sint (totalCounter st)))
          @ dump_field ''AverageCounter:'' (dec_int (sint (avgIncrement st)))
          @ dump_field ''MaxCounter:'' (dec_int (sint (maxIncrement st)))
          @ dump_field ''MinCounter:'' (dec_int (sint (minIncrement st)))
          @ dump_field ''CounterCount:'' (dec_nat (unat (counterCount st)))
        else [])"

definition SedaStatsMapDumpStats :: "stats_id \<Rightarrow> stats_map \<Rightarrow> string \<Rightarrow> bool \<times> string" where
  "SedaStatsMapDumpStats sid m output =
     (case sid of
        StatsId_ALL \<Rightarrow>
          (let o1 = output @ categoryStr (map_category m) @ [CHR 0x0A];
               o2 = fold (\<lambda>(i, st) o'. dumpStore st (o' @ nl_tab (getIdStr i))) (statsIdMap m) o1;
               o3 = fold (\<lambda>(s, st) o'. dumpStore st (o' @ nl_tab s)) (statsStrIdMap m) (o2 @ [CHR 0x0A])
           in (True, o3))
      | _ \<Rightarrow>
          (let found = (case sid of StatsId_ID i \<Rightarrow> map_option (Pair (getIdStr i)) (map_of (statsIdMap m) i)
                        | StatsId_STR s \<Rightarrow> map_option (Pair s) (map_of (statsStrIdMap m) s)
                        | StatsId_ALL \<Rightarrow> None)
           in case found of
                None \<Rightarrow> (False, output)
              | Some (idStr, st) \<Rightarrow>
                  (True, dumpStore st (output @ categoryStr (map_category m) @ [CHR 0x0A] @ nl_tab idStr))))"

text \<open>Clearing resets a store, or removes it when its category is disabled; persistent ones stay.\<close>

definition clear_store :: "bool \<Rightarrow> 'k \<times> stats_store \<Rightarrow> ('k \<times> stats_store) option" where
  "clear_store removeflag = (\<lambda>(k, st).
     if persistent st then Some (k, st) else if removeflag then None else Some (k, store_reset st))"

definition clear_all :: "bool \<Rightarrow> ('k \<times> stats_store) list \<Rightarrow> ('k \<times> stats_store) list" where
  "clear_all removeflag m = List.map_filter (clear_store removeflag) m"

definition clear_one :: "bool \<Rightarrow> 'k \<Rightarrow> ('k \<times> stats_store) list \<Rightarrow> ('k \<times> stats_store) list" where
  "clear_one removeflag k m =
     List.map_filter (\<lambda>(k', st). if k' = k then clear_store removeflag (k', st) else Some (k', st)) m"

definition SedaStatsMapClearStats :: "stats_id \<Rightarrow> bool \<Rightarrow> stats_map \<Rightarrow> bool \<times> stats_map" where
  "SedaStatsMapClearStats sid removeflag m =
     (case sid of
        StatsId_ALL \<Rightarrow> (True, m\<lparr>statsIdMap := clear_all removeflag (statsIdMap m),
                              statsStrIdMap := clear_all removeflag (statsStrIdMap m)\<rparr>)
      | StatsId_ID i \<Rightarrow> (map_of (statsIdMap m) i \<noteq> None,
                         m\<lparr>statsIdMap := clear_one removeflag i (statsIdMap m)\<rparr>)
      | StatsId_STR s \<Rightarrow> (map_of (statsStrIdMap m) s \<noteq> None,
                          m\<lparr>statsStrIdMap := clear_one removeflag s (statsStrIdMap m)\<rparr>))"

section \<open>The stage\<close>

text \<open>\<open>statsQueue\<close> is the event list of the stage. The static members are a state of their own,
  with the one statistics stage in it, if there is one. \<open>None\<close> as a result is the use of that
  pointer while it is null.\<close>

record stats_stage =
  categoryMap :: "(int \<times> stats_map) list"
  numCatEnabled :: int
  statsQueue :: "stats_event list"

record stats_world =
  externalMap :: "int \<Rightarrow> bool"
  internalMap :: "int \<Rightarrow> bool"
  collectEnabled :: bool
  theStage :: "stats_stage option"

definition stats_start :: stats_world where
  "stats_start = \<lparr>externalMap = \<lambda>_. False, internalMap = \<lambda>_. False, collectEnabled = False, theStage = None\<rparr>"

definition SedaStatsStage_new :: "stats_world \<Rightarrow> stats_world" where
  "SedaStatsStage_new w = w\<lparr>theStage := Some \<lparr>categoryMap = [], numCatEnabled = 0, statsQueue = []\<rparr>\<rparr>"

definition SedaStatsStage_delete :: "stats_world \<Rightarrow> stats_world" where
  "SedaStatsStage_delete w = w\<lparr>collectEnabled := False, theStage := None\<rparr>"

text \<open>\<open>enabled_st\<close> is the property \<^verbatim>\<open>SedaStatsEnabled\<close> of the stage, \<^verbatim>\<open>false\<close> when it is not set.\<close>

definition stats_setProperties :: "string \<Rightarrow> stats_world \<Rightarrow> stats_world \<times> bool" where
  "stats_setProperties enabled_st w =
     ((if enabled_st \<noteq> [] \<and> strToLower enabled_st = ''true''
       then w\<lparr>collectEnabled := True,
              theStage := map_option (\<lambda>s. s\<lparr>numCatEnabled := MAX_NUM_CATEGORY\<rparr>) (theStage w),
              externalMap := (\<lambda>i. 0 \<le> i \<and> i < MAX_NUM_CATEGORY \<or> externalMap w i)\<rparr>
       else w), True)"

definition isCategoryEnabled :: "int \<Rightarrow> stats_world \<Rightarrow> bool" where
  "isCategoryEnabled category w =
     (if collectEnabled w then
        (if category < MAX_NUM_CATEGORY \<and> 0 \<le> category
         then externalMap w category \<or> internalMap w category else False)
      else False)"

definition storeStats :: "stats_event \<Rightarrow> stats_stage \<Rightarrow> stats_stage" where
  "storeStats e st =
     (let category = ev_category e
      in if category \<le> 0 \<or> MAX_NUM_CATEGORY \<le> category then st
         else let m = (case map_of (categoryMap st) category of
                         None \<Rightarrow> SedaStatsMap_new category | Some m \<Rightarrow> m)
              in st\<lparr>categoryMap := map_assign category (SedaStatsMapStoreStats e m) (categoryMap st)\<rparr>)"

text \<open>The stage takes its events in order; every event is completed after its turn.\<close>

definition stats_handleEvent :: "stats_stage \<Rightarrow> (stats_event \<times> stats_stage) option" where
  "stats_handleEvent st =
     (case statsQueue st of [] \<Rightarrow> None | e # es \<Rightarrow> Some (e, storeStats e (st\<lparr>statsQueue := es\<rparr>)))"

definition dumpStats_in :: "int \<Rightarrow> stats_id \<Rightarrow> string \<Rightarrow> stats_stage \<Rightarrow> bool \<times> string" where
  "dumpStats_in category sid output st =
     (if category \<noteq> ALL_CATEGORY
      then (case map_of (categoryMap st) category of
              Some m \<Rightarrow> SedaStatsMapDumpStats sid m output
            | None \<Rightarrow> (False, output))
      else (True, fold (\<lambda>(_, m) o'. snd (SedaStatsMapDumpStats sid m o')) (categoryMap st) output))"

definition dumpStats :: "int \<Rightarrow> stats_id \<Rightarrow> string \<Rightarrow> stats_world \<Rightarrow> bool \<times> string" where
  "dumpStats category sid output w =
     (case theStage w of None \<Rightarrow> (False, output) | Some st \<Rightarrow> dumpStats_in category sid output st)"

definition clear_category :: "stats_id \<Rightarrow> stats_world \<Rightarrow> int \<times> stats_map \<Rightarrow> (int \<times> stats_map) option" where
  "clear_category sid w = (\<lambda>(c, m).
     let rmFlag = \<not> isCategoryEnabled c w
     in if sid = StatsId_ALL \<and> rmFlag then None else Some (c, snd (SedaStatsMapClearStats sid rmFlag m)))"

definition clearStats_in :: "int \<Rightarrow> stats_id \<Rightarrow> stats_world \<Rightarrow> stats_stage \<Rightarrow> bool \<times> stats_stage" where
  "clearStats_in category sid w st =
     (if category \<noteq> ALL_CATEGORY
      then (case map_of (categoryMap st) category of
              None \<Rightarrow> (False, st)
            | Some m \<Rightarrow>
                (let rmFlag = \<not> isCategoryEnabled category w
                 in (if sid = StatsId_ALL \<and> rmFlag then True else fst (SedaStatsMapClearStats sid rmFlag m),
                     st\<lparr>categoryMap := List.map_filter
                       (\<lambda>(c, m'). if c = category then clear_category sid w (c, m') else Some (c, m'))
                       (categoryMap st)\<rparr>)))
      else (True, st\<lparr>categoryMap := List.map_filter (clear_category sid w) (categoryMap st)\<rparr>))"

definition clearStats :: "int \<Rightarrow> stats_id \<Rightarrow> stats_world \<Rightarrow> bool \<times> stats_world" where
  "clearStats category sid w =
     (case theStage w of
        None \<Rightarrow> (False, w)
      | Some st \<Rightarrow> (let (found, st') = clearStats_in category sid w st in (found, w\<lparr>theStage := Some st'\<rparr>)))"

definition removeCategory :: "int \<Rightarrow> stats_world \<Rightarrow> stats_stage \<Rightarrow> bool \<times> stats_stage" where
  "removeCategory category w st =
     (if category \<noteq> ALL_CATEGORY
      then (if \<not> isCategoryEnabled category w
            then (map_of (categoryMap st) category \<noteq> None,
                  st\<lparr>categoryMap := filter (\<lambda>(c, _). c \<noteq> category) (categoryMap st)\<rparr>)
            else (True, st))
      else (True, st\<lparr>categoryMap := filter (\<lambda>(c, _). isCategoryEnabled c w) (categoryMap st)\<rparr>))"

definition enableCategory :: "int \<Rightarrow> stats_world \<Rightarrow> stats_world" where
  "enableCategory category w =
     (if category = ALL_CATEGORY
      then w\<lparr>internalMap := (\<lambda>i. 0 \<le> i \<and> i < MAX_NUM_CATEGORY \<or> internalMap w i)\<rparr>
      else if 0 < category \<and> category < MAX_NUM_CATEGORY
      then w\<lparr>internalMap := (internalMap w)(category := True)\<rparr>
      else w)"

definition disableCategory :: "int \<Rightarrow> stats_world \<Rightarrow> stats_world" where
  "disableCategory category w =
     (if category = ALL_CATEGORY
      then let w1 = w\<lparr>internalMap := (\<lambda>i. \<not> (0 \<le> i \<and> i < MAX_NUM_CATEGORY) \<and> internalMap w i)\<rparr>
           in w1\<lparr>theStage := map_option (\<lambda>st. snd (removeCategory category w1 st)) (theStage w1)\<rparr>
      else if ALL_CATEGORY < category \<and> category < MAX_NUM_CATEGORY
      then let w1 = w\<lparr>internalMap := (internalMap w)(category := False)\<rparr>
           in w1\<lparr>theStage := map_option (\<lambda>st. snd (removeCategory category w1 st)) (theStage w1)\<rparr>
      else w)"

definition addStatsEvent :: "stats_event \<Rightarrow> stats_world \<Rightarrow> stats_world option" where
  "addStatsEvent e w =
     (case theStage w of
        None \<Rightarrow> None
      | Some st \<Rightarrow> Some (w\<lparr>theStage := Some (st\<lparr>statsQueue := statsQueue st @ [e]\<rparr>)\<rparr>))"

section \<open>Timing a piece of code\<close>

record seda_stats =
  ss_category :: int
  ss_statId :: stats_id
  startTime :: "u64 \<times> u64"   \<comment> \<open>seconds and microseconds\<close>
  ss_isCounter :: bool
  ss_statCount :: u32
  ss_resetCount :: bool
  ss_enabled :: bool
  ss_persistent :: bool

text \<open>The constructors; \<open>now\<close> is the answer of \<^verbatim>\<open>gettimeofday\<close> and \<open>fresh\<close> what the memory held.\<close>

definition SedaStats_new :: "int \<Rightarrow> stats_id \<Rightarrow> bool \<Rightarrow> u64 \<times> u64 \<Rightarrow> u64 \<times> u64 \<Rightarrow> stats_world \<Rightarrow> seda_stats" where
  "SedaStats_new category sid p now fresh w =
     (let enabled = isCategoryEnabled category w \<or> p
      in \<lparr>ss_category = category, ss_statId = sid, startTime = (if enabled then now else fresh),
          ss_isCounter = False, ss_statCount = 0, ss_resetCount = False, ss_enabled = enabled,
          ss_persistent = p\<rparr>)"

definition incCount :: "seda_stats \<Rightarrow> seda_stats" where
  "incCount s = s\<lparr>ss_isCounter := True, ss_statCount := ss_statCount s + 1\<rparr>"

definition decCount :: "seda_stats \<Rightarrow> seda_stats" where
  "decCount s = s\<lparr>ss_isCounter := True, ss_statCount := ss_statCount s - 1\<rparr>"

definition setCount :: "u32 \<Rightarrow> seda_stats \<Rightarrow> seda_stats" where
  "setCount n s = s\<lparr>ss_isCounter := True, ss_statCount := n\<rparr>"

definition resetCount :: "u32 \<Rightarrow> seda_stats \<Rightarrow> seda_stats" where
  "resetCount n s = s\<lparr>ss_statCount := n, ss_resetCount := True, ss_isCounter := True\<rparr>"

definition abandon :: "seda_stats \<Rightarrow> seda_stats" where
  "abandon s = s\<lparr>ss_enabled := False\<rparr>"

definition recordCount :: "int \<Rightarrow> stats_id \<Rightarrow> u32 \<Rightarrow> bool \<Rightarrow> stats_world \<Rightarrow> stats_world option" where
  "recordCount category sid n p w =
     (if isCategoryEnabled category w \<or> p
      then addStatsEvent (setStatCount n (SedaStatsEvent_new category sid p)) w
      else Some w)"

definition elapsed :: "u64 \<times> u64 \<Rightarrow> u64 \<times> u64 \<Rightarrow> u64" where
  "elapsed start end = (fst end - fst start) * 1000000 + snd end - snd start"

definition SedaStats_delete :: "u64 \<times> u64 \<Rightarrow> seda_stats \<Rightarrow> stats_world \<Rightarrow> stats_world option" where
  "SedaStats_delete now s w =
     (if ss_enabled s \<and> (isCategoryEnabled (ss_category s) w \<or> ss_persistent s)
      then let e = setTime (elapsed (startTime s) now)
                     (SedaStatsEvent_new (ss_category s) (ss_statId s) (ss_persistent s));
               e1 = (if ss_isCounter s \<or> ss_resetCount s then setStatCount (ss_statCount s) e else e)
           in addStatsEvent (setResetCount (ss_resetCount s) e1) w
      else Some w)"

section \<open>Histories of metrics and queue lengths\<close>

definition metric_add :: "nat \<Rightarrow> 'm \<Rightarrow> 'm list \<Rightarrow> 'm list" where
  "metric_add capacity elem h =
     (let h1 = h @ [elem] in if capacity < length h1 then tl h1 else h1)"

definition metric_dump :: "('m \<Rightarrow> string) \<Rightarrow> nat \<Rightarrow> 'm list \<Rightarrow> string" where
  "metric_dump dump num h =
     (let n = min num (length h) in concat (map (\<lambda>i. dump (h ! (n - i - 1))) [0..<n]))"

text \<open>\<open>qlens\<close> are the queue lengths in the order of the map of stages, \<open>names\<close> the configured names;
  \<open>None\<close> is a failed assertion or an access outside the vector of names.\<close>

definition queue_update :: "nat list \<Rightarrow> nat list \<Rightarrow> nat list" where
  "queue_update qlens queue_info = queue_info @ qlens"

definition queue_dump :: "string list \<Rightarrow> string list \<Rightarrow> nat list \<Rightarrow> (string list \<times> string) option" where
  "queue_dump names stage_names queue_info =
     (if queue_info = [] then Some (stage_names, [])
      else let sn = (if stage_names = [] then names else stage_names)
           in if stage_names = [] \<and> length sn \<noteq> length queue_info \<or> length sn < length queue_info then None
              else Some (sn, concat (map (\<lambda>i. sn ! i @ ''='' @ dec_int (int (queue_info ! i)) @ [CHR 0x09])
                                        [0..<length queue_info]) @ [CHR 0x0A]))"

section \<open>A store sums its times\<close>

definition aggregates :: "u64 list \<Rightarrow> stats_store \<Rightarrow> bool" where
  "aggregates ts s \<longleftrightarrow> unat (totalTime s) = sum_list (map unat ts)
     \<and> unat (numStat s) = length ts \<and> numEffectiveStat s = numStat s
     \<and> (noStatReceived s \<longleftrightarrow> ts = [])
     \<and> maxTime s = (if ts = [] then 0 else Max (set ts))
     \<and> minTime s = (if ts = [] then 0 else Min (set ts))"

lemma aggregates_new: "aggregates [] (SedaStatsStore_new p)"
  by (simp add: aggregates_def SedaStatsStore_new_def)

lemma unat_add_fits: "unat (a :: u64) + unat b < 2 ^ 64 \<Longrightarrow> unat (a + b) = unat a + unat b"
  by (simp add: unat_word_ariths)

lemma max_step: "(if hi < t then t else hi) = max t (hi :: 'a::linorder)"
  by (auto simp: max_def)

lemma min_step:
  "lo \<le> hi \<Longrightarrow> (if hi < t then lo else if t < lo then t else lo) = min t (lo :: 'a::linorder)"
  by (auto simp: min_def)

lemma incTotalTime_aggregates:
  assumes agg: "aggregates ts s" and sum: "sum_list (map unat ts) + unat t < 2 ^ 64"
    and len: "Suc (length ts) < 2 ^ 64"
  shows "aggregates (ts @ [t]) (incTotalTime t s)"
proof -
  have tot: "unat (totalTime s + t) = sum_list (map unat ts) + unat t"
    using agg sum by (subst unat_add_fits) (simp_all add: aggregates_def)
  then have no_ovf: "\<not> totalTime s + t < totalTime s"
    using agg by (simp add: word_less_nat_alt aggregates_def)
  have num: "unat (numStat s + 1) = Suc (length ts)"
    using agg len by (subst unat_add_fits) (simp_all add: aggregates_def)
  show ?thesis
  proof (cases "ts = []")
    case True
    then show ?thesis using agg tot num no_ovf
      by (auto simp: aggregates_def incTotalTime_def Let_def word_gt_0)
  next
    case False
    obtain hi lo where hl: "Max (set ts) = hi" "Min (set ts) = lo" and le: "lo \<le> hi"
      using False by simp
    have mm: "Max (set (ts @ [t])) = max t hi" "Min (set (ts @ [t])) = min t lo"
      using False by (simp_all add: hl)
    have sel: "maxTime s = hi" "minTime s = lo" "\<not> noStatReceived s"
      using agg False by (simp_all add: aggregates_def hl)
    have "maxTime (incTotalTime t s) = max t hi" "minTime (incTotalTime t s) = min t lo"
      unfolding min_step [OF le, symmetric] max_step [symmetric]
      by (simp_all add: incTotalTime_def Let_def sel no_ovf)
    then show ?thesis
      using agg tot num no_ovf sel unfolding aggregates_def mm by (simp add: incTotalTime_def Let_def)
  qed
qed

text \<open>Counters do not touch the times.\<close>

lemma aggregates_counter:
  "aggregates ts s \<Longrightarrow> aggregates ts (incCounter n s)"
  "aggregates ts s \<Longrightarrow> aggregates ts (resetCounter n s)"
  by (simp_all add: aggregates_def incCounter_def resetCounter_def Let_def)

definition times :: "stats_event list \<Rightarrow> u64 list" where
  "times es = map statTime (filter timeCollected es)"

lemma store_events_aggregates:
  assumes "aggregates ts s" "sum_list (map unat (ts @ times es)) < 2 ^ 64" "length (ts @ times es) < 2 ^ 64"
  shows "aggregates (ts @ times es) (fold store_event es s)"
  using assms
proof (induction es arbitrary: ts s)
  case Nil
  then show ?case by (simp add: times_def)
next
  case (Cons e es)
  let ?ts = "ts @ times [e]"
  have eq: "ts @ times (e # es) = ?ts @ times es" by (simp add: times_def)
  have "aggregates ?ts (if timeCollected e then incTotalTime (statTime e) s else s)"
    using Cons.prems incTotalTime_aggregates [of ts s "statTime e"] by (auto simp: times_def)
  then have "aggregates ?ts (store_event e s)"
    by (simp add: store_event_def Let_def aggregates_counter)
  from Cons.IH [OF this] show ?case using Cons.prems(2,3) unfolding eq by simp
qed

section \<open>The stage keeps the stores apart\<close>

datatype stat_key = Key_ID int | Key_STR string

definition key_of :: "stats_event \<Rightarrow> stat_key" where
  "key_of e = (case ev_statId e of StatsId_ID i \<Rightarrow> Key_ID i | sid \<Rightarrow> Key_STR (strId_of sid))"

definition map_store :: "stats_map \<Rightarrow> stat_key \<Rightarrow> stats_store option" where
  "map_store m k = (case k of Key_ID i \<Rightarrow> map_of (statsIdMap m) i | Key_STR s \<Rightarrow> map_of (statsStrIdMap m) s)"

definition store_of :: "stats_stage \<Rightarrow> int \<Rightarrow> stat_key \<Rightarrow> stats_store option" where
  "store_of st c k = Option.bind (map_of (categoryMap st) c) (\<lambda>m. map_store m k)"

lemma map_store_event:
  "map_store (SedaStatsMapStoreStats e m) =
     (map_store m)(key_of e \<mapsto> store_event e (find_or_new (ev_persistent e) (map_store m (key_of e))))"
  by (auto simp: fun_eq_iff map_store_def SedaStatsMapStoreStats_def key_of_def map_of_map_assign
      split: stats_id.splits stat_key.splits)

lemma map_store_new [simp]: "map_store (SedaStatsMap_new c) k = None"
  by (simp add: map_store_def SedaStatsMap_new_def split: stat_key.split)

lemma store_of_storeStats:
  assumes "0 < c" "c < MAX_NUM_CATEGORY"
  shows "store_of (storeStats e st) c k =
     (if ev_category e = c \<and> key_of e = k
      then Some (store_event e (find_or_new (ev_persistent e) (store_of st c k))) else store_of st c k)"
  using assms
  by (cases "map_of (categoryMap st) c")
    (auto simp: store_of_def storeStats_def Let_def map_of_map_assign map_store_event)

definition events_for :: "int \<Rightarrow> stat_key \<Rightarrow> stats_event list \<Rightarrow> stats_event list" where
  "events_for c k es = filter (\<lambda>e. ev_category e = c \<and> key_of e = k) es"

lemma store_of_events_some:
  assumes "0 < c" "c < MAX_NUM_CATEGORY" "store_of st c k = Some s"
  shows "store_of (fold storeStats es st) c k = Some (fold store_event (events_for c k es) s)"
  using assms(3)
proof (induction es arbitrary: st s)
  case Nil
  then show ?case by (simp add: events_for_def)
next
  case (Cons e es)
  have "store_of (storeStats e st) c k = Some (fold store_event (events_for c k [e]) s)"
    using Cons.prems assms by (simp add: store_of_storeStats events_for_def find_or_new_def)
  from Cons.IH [OF this] show ?case by (simp add: events_for_def)
qed

lemma store_of_events:
  assumes "0 < c" "c < MAX_NUM_CATEGORY" "store_of st c k = None"
  shows "store_of (fold storeStats es st) c k = (case events_for c k es of [] \<Rightarrow> None
     | e # es' \<Rightarrow> Some (fold store_event (e # es') (SedaStatsStore_new (ev_persistent e))))"
  using assms(3)
proof (induction es arbitrary: st)
  case Nil
  then show ?case by (simp add: events_for_def)
next
  case (Cons e es)
  show ?case
  proof (cases "ev_category e = c \<and> key_of e = k")
    case True
    then have "store_of (storeStats e st) c k = Some (store_event e (SedaStatsStore_new (ev_persistent e)))"
      using assms Cons.prems by (simp add: store_of_storeStats find_or_new_def)
    from store_of_events_some [OF assms(1,2) this] show ?thesis using True by (simp add: events_for_def)
  next
    case False
    then have "store_of (storeStats e st) c k = None" using assms Cons.prems by (auto simp: store_of_storeStats)
    from Cons.IH [OF this] show ?thesis using False by (auto simp: events_for_def)
  qed
qed

text \<open>C32: Whatever events the statistics stage handles, the store of a statistic in a valid category
  exists as soon as one event names it and aggregates exactly the times of its own events: their
  number, sum, mean, greatest and smallest time, as long as number and sum fit 64 bits.\<close>

theorem stats_exact:
  assumes "0 < c" "c < MAX_NUM_CATEGORY" and "store_of st c k = None"
    and "ts = times (events_for c k es)" and "ts \<noteq> []"
    and "sum_list (map unat ts) < 2 ^ 64" and "length ts < 2 ^ 64"
  shows "\<exists>s. store_of (fold storeStats es st) c k = Some s
    \<and> unat (numStat s) = length ts \<and> unat (getTotalTime s) = sum_list (map unat ts)
    \<and> unat (getAvgTime s) = sum_list (map unat ts) div length ts
    \<and> maxTime s = Max (set ts) \<and> minTime s = Min (set ts)"
proof -
  obtain e es' where ev: "events_for c k es = e # es'"
    using assms(4,5) by (cases "events_for c k es") (auto simp: times_def)
  let ?s = "fold store_event (e # es') (SedaStatsStore_new (ev_persistent e))"
  have s: "store_of (fold storeStats es st) c k = Some ?s"
    using store_of_events [OF assms(1-3), of es] ev by simp
  have agg: "aggregates ts ?s"
    using store_events_aggregates [OF aggregates_new, of "e # es'" "ev_persistent e"] assms(4,6,7) ev by simp
  then have "0 < numStat ?s" using assms(5) by (auto simp: aggregates_def word_gt_0)
  then have "unat (getAvgTime ?s) = sum_list (map unat ts) div length ts"
    using agg by (simp add: getAvgTime_def aggregates_def unat_div)
  then show ?thesis using s agg assms(5) by (auto simp: aggregates_def getTotalTime_def)
qed

definition sample_stats :: "stats_event list" where
  "sample_stats = [setTime 30 (SedaStatsEvent_new 100 (StatsId_ID 7) False),
     setTime 5 (SedaStatsEvent_new 200 (StatsId_ID 7) False),
     setTime 10 (SedaStatsEvent_new 100 (StatsId_ID 7) False)]"

theorem stats_exact_witness:
  "\<exists>s. store_of (fold storeStats sample_stats \<lparr>categoryMap = [], numCatEnabled = 0, statsQueue = []\<rparr>)
       100 (Key_ID 7) = Some s
    \<and> unat (numStat s) = 2 \<and> unat (getTotalTime s) = 40 \<and> unat (getAvgTime s) = 20
    \<and> maxTime s = 30 \<and> minTime s = 10"
proof -
  have ts: "times (events_for 100 (Key_ID 7) sample_stats) = [30, 10]"
    by (simp add: sample_stats_def events_for_def times_def key_of_def setTime_def SedaStatsEvent_new_def)
  show ?thesis
    using stats_exact [of 100 "\<lparr>categoryMap = [], numCatEnabled = 0, statsQueue = []\<rparr>" "Key_ID 7"
        "[30, 10]" sample_stats] ts
    by (simp add: MAX_NUM_CATEGORY_def store_of_def numeral_2_eq_2 [symmetric])
qed

section \<open>Where it goes wrong\<close>

text \<open>The mean of negative counts is that of large positive ones.\<close>

lemma average_of_negative_counts:
  "sint (avgIncrement (incCounter (-1) (incCounter (-1) (SedaStatsStore_new p)))) = 2 ^ 63 - 1"
  by (simp add: incCounter_def SedaStatsStore_new_def Let_def)

text \<open>A persistent count without a statistics stage goes through a null pointer.\<close>

lemma persistent_count_without_stage: "recordCount c sid n True stats_start = None"
  by (simp add: recordCount_def addStatsEvent_def stats_start_def)

text \<open>Every update appends the queue lengths to the old ones.\<close>

lemma queue_update_appends: "length (queue_update q (queue_update q info)) = length info + 2 * length q"
  by (simp add: queue_update_def)

text \<open>\<^verbatim>\<open>dump(os, num)\<close> of a history prints its oldest entries.\<close>

lemma metric_dump_oldest: "metric_dump (\<lambda>m. [m]) 1 ''ab'' = ''a''"
  by (simp add: metric_dump_def)

end
