(* ===== verification/Dispatcher.thy ===== *)
theory Dispatcher
  imports Prelude "HOL-Library.Char_ord" "HOL-Library.List_Lexorder"
begin

text \<open>
  The event dispatcher (include/seda/eventdispatcher.h, src/seda/eventdispatcher.cpp): a stage that
  sends an event on, or keeps it with a context under a hash key until it is woken up. The test
  \<^verbatim>\<open>dispatchEvent\<close> is virtual: it is a parameter of the operations, a function of a state of its
  own, the event, the context and the hash passed in. What leaves the dispatcher is recorded: the
  events added to the next stage, those completed by \<^verbatim>\<open>cleanup\<close> and those a failed test has
  completed itself. Every operation runs under \<^verbatim>\<open>eventLock\<close>. \<open>None\<close> stands for the use of the
  front of an empty list.
\<close>

datatype dispatch_status = SEND_EVENT | STORE_EVENT | FAIL_EVENT

type_synonym ('s, 'c) dispatch =
  "'s \<Rightarrow> nat \<Rightarrow> 'c option \<Rightarrow> string \<Rightarrow> dispatch_status \<times> 'c option \<times> string \<times> 's"

record ('s, 'c) dispatcher =
  eventStore :: "(string \<times> (nat \<times> 'c option) list) list"
  dispatch_state :: 's
  sentEvents :: "nat list"
  doneEvents :: "nat list"
  failedEvents :: "nat list"

definition EventDispatcher_new :: "'s \<Rightarrow> ('s, 'c) dispatcher" where
  "EventDispatcher_new s = \<lparr>eventStore = [], dispatch_state = s, sentEvents = [], doneEvents = [],
     failedEvents = []\<rparr>"

text \<open>\<^verbatim>\<open>initialize\<close>: the next stage, if there is exactly one.\<close>

definition dispatcher_initialize :: "nat list \<Rightarrow> nat option" where
  "dispatcher_initialize nextStageList = (if length nextStageList \<noteq> 1 then None else Some (hd nextStageList))"

definition stored_at :: "string \<Rightarrow> ('s, 'c) dispatcher \<Rightarrow> (nat \<times> 'c option) list" where
  "stored_at hash d = (case map_of (eventStore d) hash of None \<Rightarrow> [] | Some l \<Rightarrow> l)"

text \<open>What is done with an event by the answer of the test; \<open>se\<close> is what is stored.\<close>

definition dispatched :: "dispatch_status \<Rightarrow> string \<Rightarrow> nat \<times> 'c option \<Rightarrow> ('s, 'c) dispatcher
    \<Rightarrow> ('s, 'c) dispatcher" where
  "dispatched stat hash se d =
     (case stat of
        SEND_EVENT \<Rightarrow> d\<lparr>sentEvents := sentEvents d @ [fst se]\<rparr>
      | STORE_EVENT \<Rightarrow> d\<lparr>eventStore := map_assign hash (stored_at hash d @ [se]) (eventStore d)\<rparr>
      | FAIL_EVENT \<Rightarrow> d\<lparr>failedEvents := failedEvents d @ [fst se]\<rparr>)"

definition dispatcher_handleEvent :: "('s, 'c) dispatch \<Rightarrow> nat \<Rightarrow> ('s, 'c) dispatcher \<Rightarrow> ('s, 'c) dispatcher" where
  "dispatcher_handleEvent dispatchEvent event d =
     (let (stat, ctx, hash, s) = dispatchEvent (dispatch_state d) event None []
      in dispatched stat hash (event, ctx) (d\<lparr>dispatch_state := s\<rparr>))"

definition wakeupEvent :: "('s, 'c) dispatch \<Rightarrow> string \<Rightarrow> ('s, 'c) dispatcher
    \<Rightarrow> (bool \<times> ('s, 'c) dispatcher) option" where
  "wakeupEvent dispatchEvent hashkey d =
     (case map_of (eventStore d) hashkey of
        None \<Rightarrow> Some (False, d)
      | Some [] \<Rightarrow> None
      | Some (targetEv # rest) \<Rightarrow>
          (let d1 = d\<lparr>eventStore := (if rest = [] then filter (\<lambda>(k, _). k \<noteq> hashkey) (eventStore d)
                                    else map_assign hashkey rest (eventStore d))\<rparr>;
               (stat, ctx, hash, s) = dispatchEvent (dispatch_state d1) (fst targetEv) (snd targetEv) hashkey
           in Some (stat = SEND_EVENT,
                    dispatched stat hash (fst targetEv, ctx) (d1\<lparr>dispatch_state := s\<rparr>))))"

definition dispatcher_cleanup :: "('s, 'c) dispatcher \<Rightarrow> ('s, 'c) dispatcher" where
  "dispatcher_cleanup d =
     d\<lparr>eventStore := [], doneEvents := doneEvents d @ concat (map (\<lambda>(_, l). map fst l) (eventStore d))\<rparr>"

section \<open>Every event is somewhere\<close>

datatype dispatch_op = Handle nat | Wake string | Clean

definition dispatcher_step :: "('s, 'c) dispatch \<Rightarrow> dispatch_op \<Rightarrow> ('s, 'c) dispatcher
    \<Rightarrow> ('s, 'c) dispatcher option" where
  "dispatcher_step f oper d = (case oper of
       Handle e \<Rightarrow> Some (dispatcher_handleEvent f e d)
     | Wake h \<Rightarrow> map_option snd (wakeupEvent f h d)
     | Clean \<Rightarrow> Some (dispatcher_cleanup d))"

fun dispatcher_run :: "('s, 'c) dispatch \<Rightarrow> dispatch_op list \<Rightarrow> ('s, 'c) dispatcher
    \<Rightarrow> ('s, 'c) dispatcher option" where
  "dispatcher_run f [] d = Some d"
| "dispatcher_run f (oper # ops) d = (case dispatcher_step f oper d of
     None \<Rightarrow> None | Some d' \<Rightarrow> dispatcher_run f ops d')"

fun handed :: "dispatch_op list \<Rightarrow> nat list" where
  "handed [] = []"
| "handed (Handle e # ops) = e # handed ops"
| "handed (_ # ops) = handed ops"

definition stored :: "(string \<times> (nat \<times> 'c option) list) list \<Rightarrow> nat multiset" where
  "stored st = (\<Sum>(_, l)\<leftarrow>st. image_mset fst (mset l))"

definition all_events :: "('s, 'c) dispatcher \<Rightarrow> nat multiset" where
  "all_events d = stored (eventStore d) + mset (sentEvents d) + mset (doneEvents d) + mset (failedEvents d)"

definition store_ok :: "('s, 'c) dispatcher \<Rightarrow> bool" where
  "store_ok d \<longleftrightarrow> distinct (map fst (eventStore d)) \<and> (\<forall>(k, l)\<in>set (eventStore d). l \<noteq> [])"

lemma stored_insort: "stored (insort_key fst (k, l) st) = image_mset fst (mset l) + stored st"
  by (induction st) (auto simp: stored_def)

lemma stored_update:
  "distinct (map fst st) \<Longrightarrow> map_of st k = Some l
    \<Longrightarrow> stored (map (\<lambda>(k', v'). (k', if k' = k then l' else v')) st) + image_mset fst (mset l)
      = stored st + image_mset fst (mset l')"
proof (induction st)
  case (Cons x st)
  obtain k1 l1 where x: "x = (k1, l1)" by (cases x)
  show ?case
  proof (cases "k1 = k")
    case True
    then have "map (\<lambda>(k', v'). (k', if k' = k then l' else v')) st = st"
      using Cons.prems x by (intro map_idI) (force split: prod.splits)
    then show ?thesis using Cons.prems x True by (simp add: stored_def)
  next
    case False
    then show ?thesis using Cons x by (simp add: stored_def)
  qed
qed simp

lemma stored_remove:
  "distinct (map fst st) \<Longrightarrow> map_of st k = Some l
    \<Longrightarrow> stored (filter (\<lambda>(k', _). k' \<noteq> k) st) + image_mset fst (mset l) = stored st"
proof (induction st)
  case (Cons x st)
  obtain k1 l1 where x: "x = (k1, l1)" by (cases x)
  show ?case
  proof (cases "k1 = k")
    case True
    then have "filter (\<lambda>(k', _). k' \<noteq> k) st = st"
      using Cons.prems x by (intro filter_True) (force split: prod.splits)
    then show ?thesis using Cons.prems x True by (simp add: stored_def)
  next
    case False
    then show ?thesis using Cons x by (simp add: stored_def)
  qed
qed simp

lemma stored_assign:
  assumes "distinct (map fst (eventStore d))"
  shows "stored (map_assign k (stored_at k d @ l) (eventStore d))
    = stored (eventStore d) + image_mset fst (mset l)"
proof (cases "map_of (eventStore d) k")
  case None
  then show ?thesis by (simp add: map_assign_def stored_insort stored_at_def)
next
  case (Some old)
  from stored_update [OF assms Some, of "old @ l"] show ?thesis
    using Some by (simp add: map_assign_def stored_at_def)
qed

lemma stored_replace:
  assumes "distinct (map fst st)" "map_of st k = Some l"
  shows "stored (map_assign k l' st) + image_mset fst (mset l) = stored st + image_mset fst (mset l')"
  using stored_update [OF assms, of l'] assms(2) by (simp add: map_assign_def)

lemma map_fst_replace:
  "map fst (map (\<lambda>(k', v'). (k', if k' = k then l else v')) st) = map fst st"
  by (induction st) auto

lemma store_ok_assign:
  assumes "store_ok d" "l \<noteq> []" "eventStore d' = map_assign k l (eventStore d)"
  shows "store_ok d'"
proof -
  have "distinct (map fst (map_assign k l (eventStore d)))"
    using assms(1) unfolding store_ok_def map_assign_def
    by (auto simp: map_fst_replace distinct_insort_key map_of_eq_None_iff simp del: map_map)
  moreover have "\<forall>(k', l')\<in>set (map_assign k l (eventStore d)). l' \<noteq> []"
    using assms(1,2) unfolding store_ok_def map_assign_def
    by (auto simp: set_insort_key split: if_splits)
  ultimately show ?thesis using assms(3) by (simp add: store_ok_def)
qed

lemma dispatched_ok:
  assumes "store_ok d"
  shows "store_ok (dispatched stat hash se d)"
    and "all_events (dispatched stat hash se d) = add_mset (fst se) (all_events d)"
proof -
  have "store_ok (d\<lparr>eventStore := map_assign hash (stored_at hash d @ [se]) (eventStore d)\<rparr>)"
    by (rule store_ok_assign [OF assms, of "stored_at hash d @ [se]"]) simp_all
  then show "store_ok (dispatched stat hash se d)"
    using assms by (cases stat) (simp_all add: dispatched_def store_ok_def)
  show "all_events (dispatched stat hash se d) = add_mset (fst se) (all_events d)"
    using assms stored_assign [of d hash "[se]"]
    by (cases stat) (simp_all add: dispatched_def all_events_def store_ok_def)
qed

lemma handle_ok:
  assumes "store_ok d"
  shows "store_ok (dispatcher_handleEvent f e d)"
    and "all_events (dispatcher_handleEvent f e d) = add_mset e (all_events d)"
proof -
  obtain stat ctx hash s where f: "f (dispatch_state d) e None [] = (stat, ctx, hash, s)"
    by (metis prod_cases4)
  have ok: "store_ok (d\<lparr>dispatch_state := s\<rparr>)" using assms by (simp add: store_ok_def)
  show "store_ok (dispatcher_handleEvent f e d)"
    using dispatched_ok(1) [OF ok] f by (simp add: dispatcher_handleEvent_def)
  show "all_events (dispatcher_handleEvent f e d) = add_mset e (all_events d)"
    using dispatched_ok(2) [OF ok] f by (simp add: dispatcher_handleEvent_def all_events_def)
qed

lemma wakeup_ok:
  assumes ok: "store_ok d"
  shows "\<exists>b d'. wakeupEvent f h d = Some (b, d') \<and> store_ok d' \<and> all_events d' = all_events d"
proof (cases "map_of (eventStore d) h")
  case None
  then show ?thesis using ok by (auto simp: wakeupEvent_def)
next
  case (Some l)
  then have "(h, l) \<in> set (eventStore d)" by (rule map_of_SomeD)
  then have "l \<noteq> []" using ok by (auto simp: store_ok_def)
  then obtain se rest where l: "l = se # rest" by (cases l) auto
  let ?st = "if rest = [] then filter (\<lambda>(k, _). k \<noteq> h) (eventStore d) else map_assign h rest (eventStore d)"
  let ?d = "d\<lparr>eventStore := ?st\<rparr>"
  obtain stat ctx hash s where f: "f (dispatch_state d) (fst se) (snd se) h = (stat, ctx, hash, s)"
    by (metis prod_cases4)
  have dist: "distinct (map fst (eventStore d))" using ok by (simp add: store_ok_def)
  have "store_ok ?d"
  proof (cases "rest = []")
    case True
    then show ?thesis using ok by (auto simp: store_ok_def distinct_map_filter)
  next
    case False
    then show ?thesis using store_ok_assign [OF ok False, of ?d h] by simp
  qed
  then have ok': "store_ok (?d\<lparr>dispatch_state := s\<rparr>)" by (simp add: store_ok_def)
  have "stored ?st + image_mset fst (mset l) = stored (eventStore d) + image_mset fst (mset rest)"
    using stored_remove [OF dist Some] stored_replace [OF dist Some, of rest] by (cases "rest = []") simp_all
  then have "add_mset (fst se) (stored ?st) = stored (eventStore d)" using l by simp
  then have "add_mset (fst se) (all_events (?d\<lparr>dispatch_state := s\<rparr>)) = all_events d"
    by (simp add: all_events_def flip: add_mset_add_single)
  then have "all_events (dispatched stat hash (fst se, ctx) (?d\<lparr>dispatch_state := s\<rparr>)) = all_events d"
    using dispatched_ok(2) [OF ok', of stat hash "(fst se, ctx)"] by simp
  moreover have "wakeupEvent f h d
      = Some (stat = SEND_EVENT, dispatched stat hash (fst se, ctx) (?d\<lparr>dispatch_state := s\<rparr>))"
    using Some l f by (simp add: wakeupEvent_def Let_def)
  ultimately show ?thesis using dispatched_ok(1) [OF ok'] by blast
qed

lemma cleanup_ok: "store_ok (dispatcher_cleanup d)" "all_events (dispatcher_cleanup d) = all_events d"
proof -
  have "mset (concat (map (\<lambda>(_, l). map fst l) st)) = stored st" for st :: "(string \<times> (nat \<times> 'c option) list) list"
    by (induction st) (auto simp: stored_def)
  then show "all_events (dispatcher_cleanup d) = all_events d"
    by (simp add: dispatcher_cleanup_def all_events_def stored_def)
qed (simp add: dispatcher_cleanup_def store_ok_def)

lemma dispatcher_step_ok:
  assumes "store_ok d"
  shows "\<exists>d'. dispatcher_step f oper d = Some d' \<and> store_ok d'
    \<and> all_events d' = all_events d + mset (handed [oper])"
proof (cases oper)
  case (Wake h)
  then show ?thesis using wakeup_ok [OF assms, of f h] by (auto simp: dispatcher_step_def)
qed (simp_all add: dispatcher_step_def handle_ok [OF assms] cleanup_ok)

lemma handed_Cons: "mset (handed (oper # ops)) = mset (handed [oper]) + mset (handed ops)"
  by (cases oper) simp_all

text \<open>C33: Whatever the test answers, a dispatcher never uses the front of an empty list, and every
  event handed to it is in exactly one place: kept, sent on, completed by the cleanup or completed by
  the test that failed.\<close>

theorem dispatcher_conserves:
  "\<exists>d. dispatcher_run f ops (EventDispatcher_new s) = Some d \<and> all_events d = mset (handed ops)"
proof -
  have "\<exists>d'. dispatcher_run f ops d = Some d' \<and> all_events d' = all_events d + mset (handed ops)"
    if "store_ok d" for d
    using that
  proof (induction ops arbitrary: d)
    case (Cons oper ops)
    obtain d1 where d1: "dispatcher_step f oper d = Some d1" "store_ok d1"
        "all_events d1 = all_events d + mset (handed [oper])"
      using dispatcher_step_ok [OF Cons.prems] by blast
    then show ?case using Cons.IH [OF d1(2)] handed_Cons [of oper ops] by (auto simp: ac_simps)
  qed simp
  moreover have "store_ok (EventDispatcher_new s :: ('a, 'b) dispatcher)"
    by (simp add: store_ok_def EventDispatcher_new_def)
  ultimately show ?thesis by (fastforce simp: all_events_def EventDispatcher_new_def stored_def)
qed

text \<open>An event that is woken up too early goes to the end of its list: the order is lost.\<close>

lemma woken_too_early:
  "map_option (\<lambda>(b, d). (b, eventStore d)) (wakeupEvent (\<lambda>s e c h. (STORE_EVENT, c, h, s)) ''k''
     \<lparr>eventStore = [(''k'', [(1, None), (2, None)])], dispatch_state = (), sentEvents = [],
       doneEvents = [], failedEvents = []\<rparr>) = Some (False, [(''k'', [(2, None), (1, None)])])"
  by (simp add: wakeupEvent_def dispatched_def stored_at_def map_assign_def)

end
