(* ===== verification/Config.thy ===== *)
theory Config
  imports Seda Ini
begin

text \<open>
  The configuration of the stages (include/seda/sedaconfig.h, src/seda/sedaconfig.cpp): from the ini
  sections \<^verbatim>\<open>SedaConfig\<close> makes the thread pools and the stages, wires the stages and connects
  them. Pools and stages live in heaps under their pointers; 0 is the null pointer, and the maps from
  names to pointers are \<^verbatim>\<open>std::map\<close>s whose \<^verbatim>\<open>operator[]\<close> inserts a null pointer for an unknown
  name. The stages themselves are those of theory Seda.
\<close>

section \<open>State\<close>

datatype cfg_status = SUCCESS | INITFAIL | PARSEFAIL

record seda_config =
  mCfgFile :: string
  mCfgStr :: string
  mThreadPools :: "(string \<times> nat) list"
  mStages :: "(string \<times> stage_id) list"
  mStageNames :: "string list"
  stageHeap :: "stage_id \<Rightarrow> stage option"
  poolHeap :: "nat \<Rightarrow> nat option"      \<comment> \<open>number of threads\<close>
  nextPtr :: nat
  eventHistoryFlag :: bool
  maxEventHops :: u32

definition SEDA_BASE_NAME :: string where "SEDA_BASE_NAME = ''SEDA_BASE''"
definition THREAD_POOLS_NAME :: string where "THREAD_POOLS_NAME = ''ThreadPools''"

definition SedaConfig_new :: seda_config where
  "SedaConfig_new = \<lparr>mCfgFile = [], mCfgStr = [], mThreadPools = [], mStages = [], mStageNames = [], stageHeap = Map.empty,
     poolHeap = Map.empty, nextPtr = 1, eventHistoryFlag = False, maxEventHops = 100\<rparr>"

text \<open>\<^verbatim>\<open>parse()\<close> has an empty body inside its \<^verbatim>\<open>try\<close>: neither text is ever read.\<close>

definition setCfgFilename :: "string option \<Rightarrow> seda_config \<Rightarrow> seda_config" where
  "setCfgFilename filename c =
     c\<lparr>mCfgStr := [], mCfgFile := (case filename of None \<Rightarrow> [] | Some f \<Rightarrow> f)\<rparr>"

definition setCfgString :: "string option \<Rightarrow> seda_config \<Rightarrow> seda_config" where
  "setCfgString configStr c =
     c\<lparr>mCfgFile := [], mCfgStr := (case configStr of None \<Rightarrow> [] | Some s \<Rightarrow> s)\<rparr>"

definition cfg_parse :: "seda_config \<Rightarrow> cfg_status" where
  "cfg_parse c = SUCCESS"

text \<open>\<^verbatim>\<open>m[k]\<close> read: the pointer, and the map with the null pointer added for a new key.\<close>

definition at_key :: "string \<Rightarrow> (string \<times> nat) list \<Rightarrow> nat \<times> (string \<times> nat) list" where
  "at_key k m = (case map_of m k of Some p \<Rightarrow> (p, m) | None \<Rightarrow> (0, map_insert k 0 m))"

section \<open>Clearing\<close>

text \<open>The deletion of a stage asserts that it is not connected; \<^verbatim>\<open>mStageNames\<close> is not cleared.\<close>

definition clearconfig :: "seda_config \<Rightarrow> fault + seda_config" where
  "clearconfig c =
     (if \<exists>(_, p)\<in>set (mStages c). p \<noteq> 0 \<and> (case stageHeap c p of Some s \<Rightarrow> connected s | None \<Rightarrow> False)
      then Inl Assert_failed
      else Inr (c\<lparr>stageHeap := stageHeap c |` (- snd ` set (mStages c)), mStages := [],
                  poolHeap := poolHeap c |` (- snd ` set (mThreadPools c)), mThreadPools := []\<rparr>))"

definition failed :: "seda_config \<Rightarrow> fault + (cfg_status \<times> seda_config)" where
  "failed c = (case clearconfig c of Inl f \<Rightarrow> Inl f | Inr c' \<Rightarrow> Inr (INITFAIL, c'))"

section \<open>Event history and pools\<close>

definition initEventHistory :: "ini \<Rightarrow> seda_config \<Rightarrow> seda_config" where
  "initEventHistory i c =
     (let baseSection = get_section SEDA_BASE_NAME i;
          evHist = (map_of baseSection ''EventHistory'' = Some ''true'');
          maxHops = (case map_of baseSection ''MaxEventHops'' of None \<Rightarrow> 100 | Some s \<Rightarrow> fst (strToVal_u32 s))
      in c\<lparr>eventHistoryFlag := evHist, maxEventHops := maxHops\<rparr>)"

fun init_pools :: "ini \<Rightarrow> string list \<Rightarrow> seda_config \<Rightarrow> cfg_status \<times> seda_config" where
  "init_pools i [] c = (SUCCESS, c)"
| "init_pools i (threadName # nameList) c =
     (let countStr = ini_get ''count'' ''4'' threadName i;
          threadCount = fst (strToVal_int countStr)
      in if threadCount < 1 then (INITFAIL, c)
         else init_pools i nameList
           (c\<lparr>mThreadPools := map_assign threadName (nextPtr c) (mThreadPools c),
              poolHeap := (poolHeap c)(nextPtr c \<mapsto> nat threadCount), nextPtr := nextPtr c + 1\<rparr>))"

definition initThreadPool :: "ini \<Rightarrow> seda_config \<Rightarrow> fault + (cfg_status \<times> seda_config)" where
  "initThreadPool i c =
     (case map_of (get_section SEDA_BASE_NAME i) THREAD_POOLS_NAME of
        None \<Rightarrow> Inr (INITFAIL, c)
      | Some poolNames \<Rightarrow>
          (case init_pools i (splitString poolNames '','' []) c of
             (INITFAIL, c1) \<Rightarrow> Inr (INITFAIL, c1)
           | (st, c1) \<Rightarrow> if length (mThreadPools c1) < 1 then failed c1 else Inr (SUCCESS, c1)))"

section \<open>Stages\<close>

text \<open>\<open>factory\<close> tells which names have a registered factory that makes a stage; \<^verbatim>\<open>makeInstance\<close>
  asserts that there is one.\<close>

definition setPool_ptr :: "nat \<Rightarrow> stage \<Rightarrow> fault + stage" where
  "setPool_ptr t s = (if t = 0 then (if connected s then Inl Assert_failed else Inr (s\<lparr>thPool := None\<rparr>))
     else setPool t s)"

fun init_stages :: "ini \<Rightarrow> (string \<Rightarrow> bool) \<Rightarrow> string list \<Rightarrow> seda_config \<Rightarrow> fault + (cfg_status \<times> seda_config)" where
  "init_stages i factory [] c = Inr (SUCCESS, c)"
| "init_stages i factory (stageName # names) c =
     (case map_of (get_section stageName i) ''ThreadId'' of
        None \<Rightarrow> failed c
      | Some threadName \<Rightarrow>
          (if threadName = [] then failed c
           else let (t, pools) = at_key threadName (mThreadPools c)
                in if \<not> factory stageName then Inl Assert_failed
                   else case setPool_ptr t Stage_new of
                          Inl f \<Rightarrow> Inl f
                        | Inr stage \<Rightarrow> init_stages i factory names
                            (c\<lparr>mThreadPools := pools,
                               mStages := map_assign stageName (nextPtr c) (mStages c),
                               stageHeap := (stageHeap c)(nextPtr c \<mapsto> stage),
                               nextPtr := nextPtr c + 1\<rparr>)))"

definition initStages :: "ini \<Rightarrow> (string \<Rightarrow> bool) \<Rightarrow> seda_config \<Rightarrow> fault + (cfg_status \<times> seda_config)" where
  "initStages i factory c =
     (case map_of (get_section SEDA_BASE_NAME i) ''STAGES'' of
        None \<Rightarrow> failed c
      | Some names \<Rightarrow>
          (let c1 = c\<lparr>mStageNames := splitString names '','' (mStageNames c)\<rparr>
           in case init_stages i factory (mStageNames c1) c1 of
                Inr (SUCCESS, c2) \<Rightarrow> if length (mStages c2) < 1 then failed c2 else Inr (SUCCESS, c2)
              | r \<Rightarrow> r))"

fun push_stages :: "stage_id \<Rightarrow> string list \<Rightarrow> seda_config \<Rightarrow> fault + seda_config" where
  "push_stages sid [] c = Inr c"
| "push_stages sid (nextStageName # names) c =
     (let (nextStage, stages) = at_key nextStageName (mStages c);
          c1 = c\<lparr>mStages := stages\<rparr>
      in case stageHeap c1 sid of
           None \<Rightarrow> Inl Dangling
         | Some s \<Rightarrow> (case pushStage nextStage s of
                        Inl f \<Rightarrow> Inl f
                      | Inr s' \<Rightarrow> push_stages sid names (c1\<lparr>stageHeap := (stageHeap c1)(sid \<mapsto> s')\<rparr>)))"

fun gen_next :: "ini \<Rightarrow> string list \<Rightarrow> seda_config \<Rightarrow> fault + seda_config" where
  "gen_next i [] c = Inr c"
| "gen_next i (stageName # names) c =
     (let (sid, stages) = at_key stageName (mStages c);
          c1 = c\<lparr>mStages := stages\<rparr>
      in case map_of (get_section stageName i) ''NextStages'' of
           None \<Rightarrow> gen_next i names c1
         | Some nextStageNames \<Rightarrow>
             (case push_stages sid (splitString nextStageNames '','' []) c1 of
                Inl f \<Rightarrow> Inl f
              | Inr c2 \<Rightarrow> gen_next i names c2))"

definition genNextStages :: "ini \<Rightarrow> seda_config \<Rightarrow> fault + (cfg_status \<times> seda_config)" where
  "genNextStages i c =
     (case gen_next i (mStageNames c) c of Inl f \<Rightarrow> Inl f | Inr c' \<Rightarrow> Inr (SUCCESS, c'))"

definition instantiate :: "ini \<Rightarrow> (string \<Rightarrow> bool) \<Rightarrow> seda_config \<Rightarrow> fault + (cfg_status \<times> seda_config)" where
  "instantiate i factory c =
     (case initThreadPool i (initEventHistory i c) of
        Inr (SUCCESS, c1) \<Rightarrow>
          (case initStages i factory c1 of
             Inr (SUCCESS, c2) \<Rightarrow> genNextStages i c2
           | r \<Rightarrow> r)
      | r \<Rightarrow> r)"

section \<open>Start and cleanup\<close>

text \<open>\<^verbatim>\<open>disconnect\<close> from the point where its wait has ended.\<close>

definition disconnect_ptr :: "stage_id \<Rightarrow> (stage_id \<Rightarrow> stage option) \<Rightarrow> (stage_id \<Rightarrow> stage option)" where
  "disconnect_ptr p h =
     (case h p of
        Some s \<Rightarrow> (if connected s then h(p \<mapsto> disconnect_end (s\<lparr>connected := False\<rparr>)) else h)
      | None \<Rightarrow> h)"

definition cfg_cleanup :: "seda_config \<Rightarrow> fault + seda_config" where
  "cfg_cleanup c =
     clearconfig (c\<lparr>stageHeap := fold (\<lambda>(_, p) h. if p \<noteq> 0 then disconnect_ptr p h else h) (mStages c) (stageHeap c)\<rparr>)"

definition cfg_delete :: "seda_config \<Rightarrow> fault + seda_config" where
  "cfg_delete c = (if mThreadPools c \<noteq> [] \<or> mStages c \<noteq> [] then cfg_cleanup c else Inr c)"

text \<open>\<open>inits\<close> is what \<^verbatim>\<open>initialize()\<close> of a stage answers. A stage has no events before it is connected.\<close>

fun start_stages :: "(string \<Rightarrow> bool) \<Rightarrow> (string \<times> stage_id) list \<Rightarrow> seda_config
    \<Rightarrow> fault + (cfg_status \<times> seda_config)" where
  "start_stages inits [] c = Inr (SUCCESS, c)"
| "start_stages inits ((n, p) # rest) c =
     (if p = 0 then start_stages inits rest c
      else case stageHeap c p of
             None \<Rightarrow> Inl Dangling
           | Some s \<Rightarrow>
               (case Stage_connect (inits n) s of
                  Inl f \<Rightarrow> Inl f
                | Inr (s', _, up) \<Rightarrow>
                    if up then start_stages inits rest (c\<lparr>stageHeap := (stageHeap c)(p \<mapsto> s')\<rparr>)
                    else (case cfg_cleanup c of Inl f \<Rightarrow> Inl f | Inr c' \<Rightarrow> Inr (INITFAIL, c'))))"

definition cfg_start :: "(string \<Rightarrow> bool) \<Rightarrow> seda_config \<Rightarrow> fault + (cfg_status \<times> seda_config)" where
  "cfg_start inits c = (if mThreadPools c = [] then Inl Assert_failed else start_stages inits (mStages c) c)"

definition cfg_init :: "ini \<Rightarrow> (string \<Rightarrow> bool) \<Rightarrow> (string \<Rightarrow> bool) \<Rightarrow> seda_config
    \<Rightarrow> fault + (cfg_status \<times> seda_config)" where
  "cfg_init i factory inits c =
     (if mStages c \<noteq> [] \<or> mThreadPools c \<noteq> [] then Inl Assert_failed
      else case instantiate i factory c of
             Inr (SUCCESS, c1) \<Rightarrow> cfg_start inits c1
           | r \<Rightarrow> r)"

definition getStage :: "string \<Rightarrow> seda_config \<Rightarrow> stage_id \<times> seda_config" where
  "getStage stagename c =
     (let (p, m) = at_key stagename (mStages c) in (p, c\<lparr>mStages := m\<rparr>))"

definition getStageNames :: "seda_config \<Rightarrow> string list" where
  "getStageNames c = mStageNames c"

definition getStageQueueStatus :: "nat list \<Rightarrow> seda_config \<Rightarrow> fault + nat list" where
  "getStageQueueStatus stats c =
     (if \<exists>(_, p)\<in>set (mStages c). stageHeap c p = None then Inl Dangling
      else Inr (stats @ map (\<lambda>(_, p). qlen (the (stageHeap c p))) (mStages c)))"

section \<open>A sound configuration comes up wired\<close>

definition names_of :: "string \<Rightarrow> string list" where
  "names_of s = splitString s '','' []"

definition next_names :: "ini \<Rightarrow> string \<Rightarrow> string list" where
  "next_names i n = (case map_of (get_section n i) ''NextStages'' of None \<Rightarrow> [] | Some s \<Rightarrow> names_of s)"

definition pool_name :: "ini \<Rightarrow> string \<Rightarrow> string" where
  "pool_name i n = the (map_of (get_section n i) ''ThreadId'')"

text \<open>The pools are declared with at least one thread each, the stages are distinct and have a
  factory and a declared pool, and their next stages are declared.\<close>

definition sound_config :: "ini \<Rightarrow> (string \<Rightarrow> bool) \<Rightarrow> string list \<Rightarrow> string list \<Rightarrow> bool" where
  "sound_config i factory pools stages \<longleftrightarrow>
     map_option names_of (map_of (get_section SEDA_BASE_NAME i) THREAD_POOLS_NAME) = Some pools
   \<and> map_option names_of (map_of (get_section SEDA_BASE_NAME i) ''STAGES'') = Some stages
   \<and> pools \<noteq> [] \<and> (\<forall>p\<in>set pools. 1 \<le> fst (strToVal_int (ini_get ''count'' ''4'' p i)))
   \<and> stages \<noteq> [] \<and> distinct stages
   \<and> (\<forall>n\<in>set stages. factory n \<and> map_of (get_section n i) ''ThreadId'' \<noteq> None
        \<and> pool_name i n \<in> set pools \<and> set (next_names i n) \<subseteq> set stages)"

lemma names_of_nonempty: "f \<in> set (names_of s) \<Longrightarrow> f \<noteq> []"
  by (auto simp: names_of_def splitString_fields)

lemma at_key_Some: "map_of m k = Some p \<Longrightarrow> at_key k m = (p, m)"
  by (simp add: at_key_def)

text \<open>Pointers handed out are fresh and not null.\<close>

definition ptrs_ok :: "seda_config \<Rightarrow> bool" where
  "ptrs_ok c \<longleftrightarrow> 0 < nextPtr c \<and> distinct (map fst (mStages c)) \<and> (\<forall>n p. map_of (mThreadPools c) n = Some p \<longrightarrow> 0 < p)
     \<and> (\<forall>n p. map_of (mStages c) n = Some p \<longrightarrow> 0 < p \<and> p < nextPtr c)
     \<and> (\<forall>n n' p. map_of (mStages c) n = Some p \<and> map_of (mStages c) n' = Some p \<longrightarrow> n = n')"

lemma init_pools_ok:
  assumes "\<forall>p\<in>set ns. 1 \<le> fst (strToVal_int (ini_get ''count'' ''4'' p i))" and "ptrs_ok c"
  shows "\<exists>c'. init_pools i ns c = (SUCCESS, c') \<and> ptrs_ok c'
    \<and> dom (map_of (mThreadPools c')) = dom (map_of (mThreadPools c)) \<union> set ns
    \<and> mStages c' = mStages c \<and> mStageNames c' = mStageNames c \<and> stageHeap c' = stageHeap c"
  using assms
proof (induction ns arbitrary: c)
  case (Cons n ns)
  let ?c = "c\<lparr>mThreadPools := map_assign n (nextPtr c) (mThreadPools c),
     poolHeap := (poolHeap c)(nextPtr c \<mapsto> nat (fst (strToVal_int (ini_get ''count'' ''4'' n i)))),
     nextPtr := nextPtr c + 1\<rparr>"
  have "ptrs_ok ?c"
    using Cons.prems(2) by (auto simp: ptrs_ok_def map_of_map_assign less_Suc_eq split: if_splits)
  from Cons.IH [OF _ this] obtain c' where c': "init_pools i ns ?c = (SUCCESS, c')" "ptrs_ok c'"
      "dom (map_of (mThreadPools c')) = dom (map_of (mThreadPools ?c)) \<union> set ns"
      "mStages c' = mStages c" "mStageNames c' = mStageNames c" "stageHeap c' = stageHeap c"
    using Cons.prems(1) by auto
  moreover have "init_pools i (n # ns) c = (SUCCESS, c')"
    using Cons.prems(1) c'(1) by (simp add: Let_def)
  ultimately show ?case by (auto simp: map_of_map_assign)
qed simp

text \<open>A stage as it is before the wiring: with its pool, unconnected, without next stages.\<close>

definition staged :: "ini \<Rightarrow> (string \<Rightarrow> string list) \<Rightarrow> bool \<Rightarrow> seda_config \<Rightarrow> string \<Rightarrow> bool" where
  "staged i nexts conn c n \<longleftrightarrow> (\<exists>p t. map_of (mStages c) n = Some p
     \<and> map_of (mThreadPools c) (pool_name i n) = Some t
     \<and> stageHeap c p = Some \<lparr>eventList = [], connected = conn, eventRef = 0, thPool = Some t,
         nextStageList = map (the \<circ> map_of (mStages c)) (nexts n)\<rparr>)"

lemma init_stages_ok:
  assumes "\<forall>n\<in>set ns. factory n \<and> map_of (get_section n i) ''ThreadId'' \<noteq> None
      \<and> pool_name i n \<noteq> [] \<and> pool_name i n \<in> dom (map_of (mThreadPools c))"
    and "ptrs_ok c" and "\<forall>n\<in>S. staged i (\<lambda>_. []) False c n"
  shows "\<exists>c'. init_stages i factory ns c = Inr (SUCCESS, c') \<and> ptrs_ok c'
    \<and> mThreadPools c' = mThreadPools c \<and> mStageNames c' = mStageNames c
    \<and> dom (map_of (mStages c')) = dom (map_of (mStages c)) \<union> set ns
    \<and> (\<forall>n\<in>S \<union> set ns. staged i (\<lambda>_. []) False c' n)"
  using assms
proof (induction ns arbitrary: c S)
  case Nil
  then show ?case by auto
next
  case (Cons n ns)
  obtain tn where tn: "map_of (get_section n i) ''ThreadId'' = Some tn" "pool_name i n = tn" "tn \<noteq> []"
    using Cons.prems(1) by (auto simp: pool_name_def)
  obtain t where t: "map_of (mThreadPools c) tn = Some t" using Cons.prems(1) tn(2) by auto
  then have "0 < t" using Cons.prems(2) unfolding ptrs_ok_def by blast
  then have pool: "setPool_ptr t Stage_new = Inr (Stage_new\<lparr>thPool := Some t\<rparr>)"
    by (simp add: setPool_ptr_def setPool_def Stage_new_def)
  let ?c = "c\<lparr>mThreadPools := mThreadPools c, mStages := map_assign n (nextPtr c) (mStages c),
     stageHeap := (stageHeap c)(nextPtr c \<mapsto> Stage_new\<lparr>thPool := Some t\<rparr>), nextPtr := nextPtr c + 1\<rparr>"
  have run: "init_stages i factory (n # ns) c = init_stages i factory ns ?c"
    using tn Cons.prems(1) pool by (simp add: at_key_Some [OF t])
  have lt: "p < nextPtr c" if "map_of (mStages c) k = Some p" for k p
    using Cons.prems(2) that unfolding ptrs_ok_def by blast
  have ptrs: "ptrs_ok ?c"
    using Cons.prems(2) lt unfolding ptrs_ok_def
    by (auto simp: map_of_map_assign less_Suc_eq distinct_map_assign split: if_splits)
  have new: "staged i (\<lambda>_. []) False ?c n"
    using t tn(2) by (simp add: staged_def map_of_map_assign Stage_new_def)
  have old: "staged i (\<lambda>_. []) False ?c k" if "k \<in> S" for k
  proof (cases "k = n")
    case False
    obtain p t' where p: "map_of (mStages c) k = Some p" "map_of (mThreadPools c) (pool_name i k) = Some t'"
      "stageHeap c p = Some \<lparr>eventList = [], connected = False, eventRef = 0, thPool = Some t', nextStageList = []\<rparr>"
      using bspec [OF Cons.prems(3) \<open>k \<in> S\<close>] unfolding staged_def by fastforce
    then show ?thesis using False lt [OF p(1)] by (simp add: staged_def map_of_map_assign)
  qed (use new in simp)
  from Cons.IH [of ?c "insert n S"] obtain c' where
    "init_stages i factory ns ?c = Inr (SUCCESS, c')" "ptrs_ok c'" "mThreadPools c' = mThreadPools c"
    "mStageNames c' = mStageNames c" "dom (map_of (mStages c')) = dom (map_of (mStages ?c)) \<union> set ns"
    "\<forall>k\<in>insert n S \<union> set ns. staged i (\<lambda>_. []) False c' k"
    using Cons.prems(1) ptrs new old by auto
  then show ?case unfolding run by (auto simp: map_of_map_assign)
qed

text \<open>The wiring: the next stages of a stage become the pointers their names stand for.\<close>

lemma push_stages_ok:
  "stageHeap c sid = Some s \<Longrightarrow> \<not> connected s \<Longrightarrow> set ns \<subseteq> dom (map_of (mStages c)) \<Longrightarrow>
     push_stages sid ns c = Inr (c\<lparr>stageHeap := (stageHeap c)(sid \<mapsto>
       s\<lparr>nextStageList := nextStageList s @ map (the \<circ> map_of (mStages c)) ns\<rparr>)\<rparr>)"
proof (induction ns arbitrary: c s)
  case Nil
  then have "(stageHeap c)(sid \<mapsto> s) = stageHeap c" by auto
  then show ?case by simp
next
  case (Cons n ns)
  then obtain p where p: "map_of (mStages c) n = Some p" by auto
  show ?case
    using Cons.prems p Cons.IH [of "c\<lparr>stageHeap := (stageHeap c)(sid \<mapsto> s\<lparr>nextStageList := nextStageList s @ [p]\<rparr>)\<rparr>"
      "s\<lparr>nextStageList := nextStageList s @ [p]\<rparr>"]
    by (simp add: at_key_Some [OF p] pushStage_def fun_upd_upd fun_upd_same del: fun_upd_apply)
qed

lemma gen_next_step:
  assumes "map_of (mStages c) n = Some p" "stageHeap c p = Some s" "\<not> connected s" "nextStageList s = []"
    and "set (next_names i n) \<subseteq> dom (map_of (mStages c))"
  shows "gen_next i (n # ns) c = gen_next i ns (c\<lparr>stageHeap := (stageHeap c)(p \<mapsto>
       s\<lparr>nextStageList := map (the \<circ> map_of (mStages c)) (next_names i n)\<rparr>)\<rparr>)"
proof (cases "map_of (get_section n i) ''NextStages''")
  case None
  have "(stageHeap c)(p \<mapsto> s\<lparr>nextStageList := []\<rparr>) = stageHeap c" using assms(2,4) by auto
  then show ?thesis using None by (simp add: at_key_Some [OF assms(1)] next_names_def)
next
  case (Some a)
  then have "push_stages p (splitString a '','' []) c = Inr (c\<lparr>stageHeap := (stageHeap c)(p \<mapsto>
      s\<lparr>nextStageList := map (the \<circ> map_of (mStages c)) (next_names i n)\<rparr>)\<rparr>)"
    using push_stages_ok [OF assms(2,3), of "names_of a"] assms(4,5) by (simp add: next_names_def names_of_def)
  then show ?thesis using Some by (simp add: at_key_Some [OF assms(1)])
qed

lemma gen_next_ok:
  assumes "distinct ns" and "ptrs_ok c"
    and "\<forall>n\<in>set ns. staged i (\<lambda>_. []) False c n \<and> set (next_names i n) \<subseteq> dom (map_of (mStages c))"
    and "\<forall>n\<in>S. staged i (next_names i) False c n" and "S \<inter> set ns = {}"
  shows "\<exists>c'. gen_next i ns c = Inr c' \<and> ptrs_ok c' \<and> mStages c' = mStages c
    \<and> mThreadPools c' = mThreadPools c \<and> (\<forall>n\<in>S \<union> set ns. staged i (next_names i) False c' n)"
  using assms
proof (induction ns arbitrary: c S)
  case Nil
  then show ?case by auto
next
  case (Cons n ns)
  have "staged i (\<lambda>_. []) False c n" using Cons.prems(3) by simp
  then obtain p t where p: "map_of (mStages c) n = Some p" "map_of (mThreadPools c) (pool_name i n) = Some t"
      "stageHeap c p = Some \<lparr>eventList = [], connected = False, eventRef = 0, thPool = Some t, nextStageList = []\<rparr>"
    unfolding staged_def by fastforce
  let ?s = "\<lparr>eventList = [], connected = False, eventRef = 0, thPool = Some t,
     nextStageList = map (the \<circ> map_of (mStages c)) (next_names i n)\<rparr>"
  let ?c = "c\<lparr>stageHeap := (stageHeap c)(p \<mapsto> ?s)\<rparr>"
  have step: "gen_next i (n # ns) c = gen_next i ns ?c"
    using gen_next_step [OF p(1,3)] Cons.prems(3) by simp
  have ptrs: "ptrs_ok ?c" using Cons.prems(2) by (simp add: ptrs_ok_def)
  have keep: "staged i f False ?c k" if "staged i f False c k" "k \<noteq> n" for f k
  proof -
    have "q \<noteq> p" if "map_of (mStages c) k = Some q" for q
      using that p(1) \<open>k \<noteq> n\<close> Cons.prems(2) unfolding ptrs_ok_def by blast
    then show ?thesis using that(1) by (auto simp: staged_def)
  qed
  have new: "staged i (next_names i) False ?c n" using p by (simp add: staged_def)
  have "\<exists>c'. gen_next i ns ?c = Inr c' \<and> ptrs_ok c' \<and> mStages c' = mStages ?c
    \<and> mThreadPools c' = mThreadPools ?c \<and> (\<forall>n\<in>insert n S \<union> set ns. staged i (next_names i) False c' n)"
  proof (rule Cons.IH [OF _ ptrs])
    show "distinct ns" and "insert n S \<inter> set ns = {}" using Cons.prems(1,5) by auto
    show "\<forall>k\<in>set ns. staged i (\<lambda>_. []) False ?c k \<and> set (next_names i k) \<subseteq> dom (map_of (mStages ?c))"
      using keep Cons.prems(1,3) by auto
    show "\<forall>k\<in>insert n S. staged i (next_names i) False ?c k"
      using keep new Cons.prems(4,5) by auto
  qed
  then show ?case unfolding step by auto
qed

text \<open>The start connects every stage.\<close>

lemma start_stages_ok:
  assumes "distinct (map snd l)"
    and "\<forall>(n, p)\<in>set l. inits n \<and> 0 < p \<and> (\<exists>s. stageHeap c p = Some s \<and> \<not> connected s \<and> thPool s \<noteq> None)"
  shows "start_stages inits l c = Inr (SUCCESS, c\<lparr>stageHeap := \<lambda>p. if p \<in> snd ` set l
     then map_option (\<lambda>s. s\<lparr>eventRef := length (eventList s), connected := True\<rparr>) (stageHeap c p) else stageHeap c p\<rparr>)"
  using assms
proof (induction l arbitrary: c)
  case (Cons e l)
  obtain n p where e: "e = (n, p)" by fastforce
  obtain s where s: "stageHeap c p = Some s" "\<not> connected s" "thPool s \<noteq> None" "inits n" "0 < p"
    using Cons.prems(2) e by auto
  let ?s = "s\<lparr>eventRef := length (eventList s), connected := True\<rparr>"
  let ?c = "c\<lparr>stageHeap := (stageHeap c)(p \<mapsto> ?s)\<rparr>"
  have "start_stages inits (e # l) c = start_stages inits l ?c"
    using s by (auto simp: e Stage_connect_def Let_def)
  also have "\<dots> = Inr (SUCCESS, ?c\<lparr>stageHeap := \<lambda>p. if p \<in> snd ` set l
     then map_option (\<lambda>s. s\<lparr>eventRef := length (eventList s), connected := True\<rparr>) (stageHeap ?c p) else stageHeap ?c p\<rparr>)"
    using Cons.prems e by (intro Cons.IH) (fastforce simp: image_iff)+
  finally show ?case
    using Cons.prems(1) s(1) e by (auto simp: fun_eq_iff image_iff intro!: arg_cong [where f = "\<lambda>h. c\<lparr>stageHeap := h\<rparr>"])
qed simp

lemma staged_connected:
  assumes "ptrs_ok c" and all: "\<forall>n\<in>dom (map_of (mStages c)). staged i nexts False c n \<and> inits n"
  shows "\<exists>c'. start_stages inits (mStages c) c = Inr (SUCCESS, c')
    \<and> mStages c' = mStages c \<and> mThreadPools c' = mThreadPools c
    \<and> (\<forall>n\<in>dom (map_of (mStages c)). staged i nexts True c' n)"
proof -
  have keys: "distinct (map fst (mStages c))" using assms(1) by (simp add: ptrs_ok_def)
  have iff: "(n, p) \<in> set (mStages c) \<longleftrightarrow> map_of (mStages c) n = Some p" for n p
    using keys by (simp add: map_of_eq_Some_iff)
  have inj: "n = n'" if "map_of (mStages c) n = Some p" "map_of (mStages c) n' = Some p" for n n' p
    using assms(1) that unfolding ptrs_ok_def by blast
  have "distinct (mStages c)" using keys by (simp add: distinct_map)
  moreover have "inj_on snd (set (mStages c))"
    using inj iff by (intro inj_onI) (metis prod.collapse)
  ultimately have "distinct (map snd (mStages c))" by (simp add: distinct_map)
  moreover have ok: "\<forall>(n, p)\<in>set (mStages c). inits n \<and> 0 < p
      \<and> (\<exists>s. stageHeap c p = Some s \<and> \<not> connected s \<and> thPool s \<noteq> None)"
  proof (intro ballI, clarify)
    fix n p assume "(n, p) \<in> set (mStages c)"
    then have p: "map_of (mStages c) n = Some p" by (simp add: iff)
    then have "staged i nexts False c n" "inits n" "0 < p"
      using all assms(1) unfolding ptrs_ok_def by blast+
    then show "inits n \<and> 0 < p \<and> (\<exists>s. stageHeap c p = Some s \<and> \<not> connected s \<and> thPool s \<noteq> None)"
      using p unfolding staged_def by fastforce
  qed
  ultimately have run: "start_stages inits (mStages c) c = Inr (SUCCESS, c\<lparr>stageHeap := \<lambda>p. if p \<in> snd ` set (mStages c)
     then map_option (\<lambda>s. s\<lparr>eventRef := length (eventList s), connected := True\<rparr>) (stageHeap c p) else stageHeap c p\<rparr>)"
    by (rule start_stages_ok)
  have "staged i nexts True (c\<lparr>stageHeap := \<lambda>p. if p \<in> snd ` set (mStages c)
     then map_option (\<lambda>s. s\<lparr>eventRef := length (eventList s), connected := True\<rparr>) (stageHeap c p) else stageHeap c p\<rparr>) n"
    if n: "n \<in> dom (map_of (mStages c))" for n
  proof -
    have "staged i nexts False c n" using all n by blast
    then obtain p t where p: "map_of (mStages c) n = Some p" "map_of (mThreadPools c) (pool_name i n) = Some t"
      "stageHeap c p = Some \<lparr>eventList = [], connected = False, eventRef = 0, thPool = Some t,
         nextStageList = map (the \<circ> map_of (mStages c)) (nexts n)\<rparr>" unfolding staged_def by blast
    have "p \<in> snd ` set (mStages c)" using p(1) iff by force
    then show ?thesis using p by (simp add: staged_def)
  qed
  then show ?thesis unfolding run by auto
qed

text \<open>C34: A sound configuration comes up wired: when every declared pool has at least one thread, every
  stage has a factory, a declared pool and declared next stages, and every stage initialises, then
  \<^verbatim>\<open>init\<close> succeeds, makes exactly the declared pools and stages, and every stage ends up connected,
  with the pool its \<^verbatim>\<open>ThreadId\<close> names and, in their order, the stages its \<^verbatim>\<open>NextStages\<close> names.\<close>

theorem config_wires:
  assumes sound: "sound_config i factory pools stages" and "\<forall>n\<in>set stages. inits n"
  shows "\<exists>c. cfg_init i factory inits SedaConfig_new = Inr (SUCCESS, c)
    \<and> dom (map_of (mStages c)) = set stages \<and> dom (map_of (mThreadPools c)) = set pools
    \<and> (\<forall>n\<in>set stages. staged i (next_names i) True c n)"
proof -
  let ?c = "initEventHistory i SedaConfig_new"
  have c: "mStages ?c = []" "mThreadPools ?c = []" "mStageNames ?c = []" "nextPtr ?c = 1"
    by (simp_all add: initEventHistory_def SedaConfig_new_def Let_def)
  then have "ptrs_ok ?c" by (simp add: ptrs_ok_def)
  obtain ps ss where ps: "map_of (get_section SEDA_BASE_NAME i) THREAD_POOLS_NAME = Some ps" "names_of ps = pools"
    and ss: "map_of (get_section SEDA_BASE_NAME i) ''STAGES'' = Some ss" "names_of ss = stages"
    using sound by (auto simp: sound_config_def)
  have st: "distinct stages" "stages \<noteq> []" "pools \<noteq> []"
    and cnt: "\<forall>p\<in>set pools. 1 \<le> fst (strToVal_int (ini_get ''count'' ''4'' p i))"
    and each: "\<forall>n\<in>set stages. factory n \<and> map_of (get_section n i) ''ThreadId'' \<noteq> None
        \<and> pool_name i n \<in> set pools \<and> set (next_names i n) \<subseteq> set stages"
    using sound unfolding sound_config_def by blast+
  obtain c1 where c1: "init_pools i pools ?c = (SUCCESS, c1)" "ptrs_ok c1"
      "dom (map_of (mThreadPools c1)) = set pools" "mStages c1 = []" "mStageNames c1 = []"
    using init_pools_ok [OF cnt \<open>ptrs_ok ?c\<close>] c by auto
  have "mThreadPools c1 \<noteq> []" using c1(3) st(3) by auto
  then have p: "initThreadPool i ?c = Inr (SUCCESS, c1)"
    using ps c1(1) by (auto simp: initThreadPool_def names_of_def Suc_le_eq)
  let ?c1 = "c1\<lparr>mStageNames := stages\<rparr>"
  have "ptrs_ok ?c1" using c1(2) by (simp add: ptrs_ok_def)
  moreover have "\<forall>n\<in>set stages. factory n \<and> map_of (get_section n i) ''ThreadId'' \<noteq> None
      \<and> pool_name i n \<noteq> [] \<and> pool_name i n \<in> dom (map_of (mThreadPools ?c1))"
    using each c1(3) names_of_nonempty ps(2) by auto
  ultimately obtain c2 where c2: "init_stages i factory stages ?c1 = Inr (SUCCESS, c2)" "ptrs_ok c2"
      "mThreadPools c2 = mThreadPools c1" "mStageNames c2 = stages" "dom (map_of (mStages c2)) = set stages"
      "\<forall>n\<in>set stages. staged i (\<lambda>_. []) False c2 n"
    using init_stages_ok [of stages factory i ?c1 "{}"] c1(4) by auto
  have "mStages c2 \<noteq> []" using c2(5) st(2) by auto
  then have s: "initStages i factory c1 = Inr (SUCCESS, c2)"
    using ss c1(5) c2(1) by (auto simp: initStages_def names_of_def Let_def Suc_le_eq)
  obtain c3 where c3: "gen_next i stages c2 = Inr c3" "ptrs_ok c3" "mStages c3 = mStages c2"
      "mThreadPools c3 = mThreadPools c2" "\<forall>n\<in>set stages. staged i (next_names i) False c3 n"
    using gen_next_ok [OF st(1) c2(2), of i "{}"] c2(5,6) each by auto
  have inst: "instantiate i factory SedaConfig_new = Inr (SUCCESS, c3)"
    using p s c3(1) c2(4) by (simp add: instantiate_def genNextStages_def)
  have d3: "dom (map_of (mStages c3)) = set stages" by (simp add: c3(3) c2(5))
  obtain c4 where c4: "start_stages inits (mStages c3) c3 = Inr (SUCCESS, c4)" "mStages c4 = mStages c3"
      "mThreadPools c4 = mThreadPools c3" "\<forall>n\<in>set stages. staged i (next_names i) True c4 n"
    using staged_connected [OF c3(2), of i "next_names i" inits] c3(5) assms(2) unfolding d3 by blast
  have "mThreadPools c3 \<noteq> []" using \<open>mThreadPools c1 \<noteq> []\<close> c2(3) c3(4) by simp
  then have "cfg_init i factory inits SedaConfig_new = Inr (SUCCESS, c4)"
    using inst c4(1) by (simp add: cfg_init_def cfg_start_def SedaConfig_new_def)
  then show ?thesis using c4 d3 c3(4) c2(3) c1(3) by auto
qed

definition sample_config :: ini where
  "sample_config = CIni_empty\<lparr>mSections :=
     [(''SEDA_BASE'', [(''STAGES'', ''net,app''), (''ThreadPools'', ''io'')]), (''app'', [(''ThreadId'', ''io'')]),
      (''io'', [(''count'', ''2'')]), (''net'', [(''NextStages'', ''app,net''), (''ThreadId'', ''io'')])]\<rparr>"

theorem config_wires_witness:
  "\<exists>c. cfg_init sample_config (\<lambda>_. True) (\<lambda>_. True) SedaConfig_new = Inr (SUCCESS, c)
     \<and> dom (map_of (mStages c)) = {''net'', ''app''} \<and> staged sample_config (next_names sample_config) True c ''net''
     \<and> next_names sample_config ''net'' = [''app'', ''net'']"
proof -
  have "sound_config sample_config (\<lambda>_. True) [''io''] [''net'', ''app'']"
    by code_simp
  then have "\<exists>c. cfg_init sample_config (\<lambda>_. True) (\<lambda>_. True) SedaConfig_new = Inr (SUCCESS, c)
     \<and> dom (map_of (mStages c)) = set [''net'', ''app''] \<and> dom (map_of (mThreadPools c)) = set [''io'']
     \<and> (\<forall>n\<in>set [''net'', ''app'']. staged sample_config (next_names sample_config) True c n)"
    by (rule config_wires) simp
  moreover have "next_names sample_config ''net'' = [''app'', ''net'']" by code_simp
  ultimately show ?thesis by auto
qed

text \<open>After \<^verbatim>\<open>cleanup\<close> the names of the stages are still there, so a second \<^verbatim>\<open>init\<close> from the same
  configuration makes every stage twice and wires it twice.\<close>

definition init_twice :: "ini \<Rightarrow> fault + (cfg_status \<times> seda_config)" where
  "init_twice i =
     (case cfg_init i (\<lambda>_. True) (\<lambda>_. True) SedaConfig_new of
        Inr (SUCCESS, c) \<Rightarrow>
          (case cfg_cleanup c of
             Inl f \<Rightarrow> Inl f
           | Inr c1 \<Rightarrow> cfg_init i (\<lambda>_. True) (\<lambda>_. True) c1)
      | r \<Rightarrow> r)"

lemma second_init_duplicates:
  "(case init_twice sample_config of
      Inr (SUCCESS, c) \<Rightarrow> mStageNames c = [''net'', ''app'', ''net'', ''app'']
        \<and> map_of (mStages c) ''net'' = Some 7 \<and> map_of (mStages c) ''app'' = Some 8
        \<and> map_option nextStageList (stageHeap c 7) = Some [8, 7, 8, 7]
    | _ \<Rightarrow> False)"
  by code_simp

text \<open>A next stage that is not declared becomes the null pointer. The start stops at an assertion for
  a stage whose pool is not declared.\<close>

lemma undeclared_next_is_null:
  "map_of (mStages c) n = None \<Longrightarrow> stageHeap c sid = Some s \<Longrightarrow> \<not> connected s \<Longrightarrow>
     push_stages sid [n] c = Inr (c\<lparr>mStages := map_insert n 0 (mStages c),
       stageHeap := (stageHeap c)(sid \<mapsto> s\<lparr>nextStageList := nextStageList s @ [0]\<rparr>)\<rparr>)"
  by (simp add: at_key_def pushStage_def)

lemma undeclared_pool_asserts:
  assumes "0 < p" "stageHeap c p = Some s" "thPool s = None"
  shows "start_stages inits ((n, p) # rest) c = Inl Assert_failed"
  using assms by (simp add: Stage_connect_def)

end
