(* ===== verification/DateTime.thy ===== *)
theory DateTime
  imports LString "HOL-Library.Signed_Division"
begin

text \<open>
  Dates and times (include/time/datetime.h, src/time/datetime.cpp): a Julian day number and the
  milliseconds of the day. The arithmetic is that of \<^verbatim>\<open>int\<close>: division and remainder truncate
  (\<open>sdiv\<close>, \<open>smod\<close>). The products that reach 32 bits for dates of today (\<^verbatim>\<open>toTimeT\<close>, the
  difference of two times) are reduced to 32 bits; the others stay below for years of at most seven
  digits. \<^verbatim>\<open>gmtime_r\<close> and \<^verbatim>\<open>sscanf\<close> are those of the C library: days counted from 1 January
  1970, for times from then on, and the conversion of at most so many characters to a number.
\<close>

section \<open>The Gregorian calendar\<close>

definition i32 :: "int \<Rightarrow> int" where
  "i32 x = sint (word_of_int x :: 32 word)"

record date_time =
  m_date :: int
  m_time :: int

record tm =
  tm_sec :: int
  tm_min :: int
  tm_hour :: int
  tm_mday :: int
  tm_mon :: int
  tm_year :: int

definition SECONDS_PER_DAY :: int where "SECONDS_PER_DAY = 86400"
definition MILLIS_PER_DAY :: int where "MILLIS_PER_DAY = 86400000"
definition MILLIS_PER_SEC :: int where "MILLIS_PER_SEC = 1000"
definition JULIAN_19700101 :: int where "JULIAN_19700101 = 2440588"

definition julianDate :: "int \<Rightarrow> int \<Rightarrow> int \<Rightarrow> int" where
  "julianDate year month day =
     (let a = (14 - month) sdiv 12;
          y = year + 4800 - a;
          m = month + 12 * a - 3
      in day + (153 * m + 2) sdiv 5 + y * 365 + y sdiv 4 - y sdiv 100 + y sdiv 400 - 32045)"

definition getYMD :: "int \<Rightarrow> int \<times> int \<times> int" where
  "getYMD jday =
     (let a = jday + 32044;
          b = (4 * a + 3) sdiv 146097;
          c = a - (b * 146097) sdiv 4;
          d = (4 * c + 3) sdiv 1461;
          e = c - (1461 * d) sdiv 4;
          m = (5 * e + 2) sdiv 153
      in (b * 100 + d - 4800 + m sdiv 10, m + 3 - 12 * (m sdiv 10), e - (153 * m + 2) sdiv 5 + 1))"

definition makeHMS :: "int \<Rightarrow> int \<Rightarrow> int \<Rightarrow> int \<Rightarrow> int" where
  "makeHMS hour minute second millis = MILLIS_PER_SEC * (3600 * hour + 60 * minute + second) + millis"

definition getHMS :: "int \<Rightarrow> int \<times> int \<times> int \<times> int" where
  "getHMS t =
     (let ticks = t sdiv MILLIS_PER_SEC
      in (ticks sdiv 3600, (ticks sdiv 60) smod 60, ticks smod 60, t smod MILLIS_PER_SEC))"

section \<open>The object\<close>

definition DateTime_zero :: date_time where
  "DateTime_zero = \<lparr>m_date = 0, m_time = 0\<rparr>"

definition DateTime_of :: "int \<Rightarrow> int \<Rightarrow> date_time" where
  "DateTime_of date time = \<lparr>m_date = date, m_time = time\<rparr>"

definition DateTime_new :: "int \<Rightarrow> int \<Rightarrow> int \<Rightarrow> int \<Rightarrow> int \<Rightarrow> int \<Rightarrow> int \<Rightarrow> date_time" where
  "DateTime_new year month day hour minute second millis =
     \<lparr>m_date = julianDate year month day, m_time = makeHMS hour minute second millis\<rparr>"

definition toTimeT :: "date_time \<Rightarrow> int" where
  "toTimeT t = i32 (SECONDS_PER_DAY * (m_date t - JULIAN_19700101) + m_time t sdiv MILLIS_PER_SEC)"

definition toTm :: "date_time \<Rightarrow> tm" where
  "toTm t =
     (let (year, month, day) = getYMD (m_date t); (hour, minute, second, millis) = getHMS (m_time t)
      in \<lparr>tm_sec = second, tm_min = minute, tm_hour = hour, tm_mday = day, tm_mon = month - 1, tm_year = year - 1900\<rparr>)"

definition setYMD :: "int \<Rightarrow> int \<Rightarrow> int \<Rightarrow> date_time \<Rightarrow> date_time" where
  "setYMD year month day t = t\<lparr>m_date := julianDate year month day\<rparr>"

definition setHMS :: "int \<Rightarrow> int \<Rightarrow> int \<Rightarrow> int \<Rightarrow> date_time \<Rightarrow> date_time" where
  "setHMS hour minute second millis t = t\<lparr>m_time := makeHMS hour minute second millis\<rparr>"

definition clearDate :: "date_time \<Rightarrow> date_time" where "clearDate t = t\<lparr>m_date := 0\<rparr>"

definition clearTime :: "date_time \<Rightarrow> date_time" where "clearTime t = t\<lparr>m_time := 0\<rparr>"

definition dt_set :: "int \<Rightarrow> int \<Rightarrow> date_time \<Rightarrow> date_time" where
  "dt_set date time t = t\<lparr>m_date := date, m_time := time\<rparr>"

definition dt_add :: "date_time \<Rightarrow> int \<Rightarrow> date_time" where
  "dt_add t seconds =
     (let d = seconds sdiv SECONDS_PER_DAY; s = seconds smod SECONDS_PER_DAY;
          date = m_date t + d; time = m_time t + s * MILLIS_PER_SEC
      in if time > MILLIS_PER_DAY then \<lparr>m_date = date + 1, m_time = time smod MILLIS_PER_DAY\<rparr>
         else if time < 0 then \<lparr>m_date = date - 1, m_time = time + MILLIS_PER_DAY\<rparr>
         else \<lparr>m_date = date, m_time = time\<rparr>)"

definition dt_eq :: "date_time \<Rightarrow> date_time \<Rightarrow> bool" where
  "dt_eq lhs rhs \<longleftrightarrow> m_date lhs = m_date rhs \<and> m_time lhs = m_time rhs"

definition dt_less :: "date_time \<Rightarrow> date_time \<Rightarrow> bool" where
  "dt_less lhs rhs =
     (if m_date lhs < m_date rhs then True
      else if m_date lhs > m_date rhs then False
      else if m_time lhs < m_time rhs then True else False)"

definition dt_greater :: "date_time \<Rightarrow> date_time \<Rightarrow> bool" where
  "dt_greater lhs rhs \<longleftrightarrow> \<not> (dt_eq lhs rhs \<or> dt_less lhs rhs)"

definition dt_le :: "date_time \<Rightarrow> date_time \<Rightarrow> bool" where
  "dt_le lhs rhs \<longleftrightarrow> dt_eq lhs rhs \<or> dt_less lhs rhs"

definition dt_ge :: "date_time \<Rightarrow> date_time \<Rightarrow> bool" where
  "dt_ge lhs rhs \<longleftrightarrow> dt_eq lhs rhs \<or> dt_greater lhs rhs"

definition dt_minus :: "date_time \<Rightarrow> date_time \<Rightarrow> int" where
  "dt_minus lhs rhs = i32 (SECONDS_PER_DAY * (m_date lhs - m_date rhs) + m_time lhs sdiv 1000 - m_time rhs sdiv 1000)"

section \<open>The clock\<close>

text \<open>\<^verbatim>\<open>gmtime_r\<close>: the days since 1 January 1970 counted through the calendar.\<close>

definition leap :: "int \<Rightarrow> bool" where
  "leap y \<longleftrightarrow> 4 dvd y \<and> (\<not> 100 dvd y \<or> 400 dvd y)"

definition month_days :: "int \<Rightarrow> int \<Rightarrow> int" where
  "month_days y m = (if m = 2 then if leap y then 29 else 28 else if m \<in> {4, 6, 9, 11} then 30 else 31)"

fun next_day :: "int \<times> int \<times> int \<Rightarrow> int \<times> int \<times> int" where
  "next_day (y, m, d) = (if d < month_days y m then (y, m, d + 1) else if m < 12 then (y, m + 1, 1) else (y + 1, 1, 1))"

definition civil :: "nat \<Rightarrow> int \<times> int \<times> int" where
  "civil n = (next_day ^^ n) (1970, 1, 1)"

definition gmtime :: "nat \<Rightarrow> tm" where
  "gmtime t =
     (let (y, m, d) = civil (t div 86400); s = int (t mod 86400)
      in \<lparr>tm_sec = s mod 60, tm_min = s div 60 mod 60, tm_hour = s div 3600, tm_mday = d, tm_mon = m - 1, tm_year = y - 1900\<rparr>)"

definition fromTm :: "tm \<Rightarrow> int \<Rightarrow> date_time" where
  "fromTm t millis = \<lparr>m_date = julianDate (tm_year t + 1900) (tm_mon t + 1) (tm_mday t),
     m_time = makeHMS (tm_hour t) (tm_min t) (tm_sec t) millis\<rparr>"

definition fromTimeT :: "nat \<Rightarrow> int \<Rightarrow> date_time" where
  "fromTimeT t millis = fromTm (gmtime t) millis"

text \<open>The clock answers seconds and microseconds.\<close>

definition dt_now :: "nat \<times> nat \<Rightarrow> date_time" where
  "dt_now tv = fromTimeT (fst tv) (int (snd tv div 1000))"

definition nowtimet :: "nat \<times> nat \<Rightarrow> int" where
  "nowtimet tv = int (fst tv)"

definition TimeStamp_now :: "nat \<times> nat \<Rightarrow> date_time" where
  "TimeStamp_now tv = dt_now tv"

definition TimeStamp_hms :: "nat \<times> nat \<Rightarrow> int \<Rightarrow> int \<Rightarrow> int \<Rightarrow> int \<Rightarrow> date_time" where
  "TimeStamp_hms tv hour minute second millisecond = setHMS hour minute second millisecond (dt_now tv)"

definition TimeStamp_date :: "int \<Rightarrow> int \<Rightarrow> int \<Rightarrow> int \<Rightarrow> int \<Rightarrow> int \<Rightarrow> int \<Rightarrow> date_time" where
  "TimeStamp_date hour minute second millisecond date month year =
     DateTime_new year month date hour minute second millisecond"

definition TimeStamp_setCurrent :: "nat \<times> nat \<Rightarrow> date_time \<Rightarrow> date_time" where
  "TimeStamp_setCurrent tv t = dt_set (m_date (dt_now tv)) (m_time (dt_now tv)) t"

definition Time_setCurrent :: "nat \<times> nat \<Rightarrow> date_time \<Rightarrow> date_time" where
  "Time_setCurrent tv t = t\<lparr>m_time := m_time (dt_now tv)\<rparr>"

definition Time_now :: "nat \<times> nat \<Rightarrow> date_time" where
  "Time_now tv = Time_setCurrent tv DateTime_zero"

definition Time_of :: "date_time \<Rightarrow> date_time" where
  "Time_of val = clearDate val"

definition Time_hms :: "int \<Rightarrow> int \<Rightarrow> int \<Rightarrow> int \<Rightarrow> date_time" where
  "Time_hms hour minute second millisecond = setHMS hour minute second millisecond DateTime_zero"

definition Time_of_timet :: "nat \<Rightarrow> int \<Rightarrow> date_time" where
  "Time_of_timet t millisecond = clearDate (fromTimeT t millisecond)"

definition Time_of_tm :: "tm \<Rightarrow> int \<Rightarrow> date_time" where
  "Time_of_tm t millisecond = clearDate (fromTm t millisecond)"

definition Date_setCurrent :: "nat \<times> nat \<Rightarrow> date_time \<Rightarrow> date_time" where
  "Date_setCurrent tv t = t\<lparr>m_date := m_date (dt_now tv)\<rparr>"

definition Date_now :: "nat \<times> nat \<Rightarrow> date_time" where
  "Date_now tv = Date_setCurrent tv DateTime_zero"

definition Date_of :: "date_time \<Rightarrow> date_time" where
  "Date_of val = clearTime val"

definition Date_dmy :: "int \<Rightarrow> int \<Rightarrow> int \<Rightarrow> date_time" where
  "Date_dmy date month year = DateTime_new year month date 0 0 0 0"

definition Date_of_sec :: "int \<Rightarrow> date_time" where
  "Date_of_sec sec = DateTime_of (i32 (sec sdiv SECONDS_PER_DAY)) 0"

definition Date_of_tm :: "tm \<Rightarrow> date_time" where
  "Date_of_tm t = clearTime (fromTm t 0)"

definition Now_sec :: "nat \<times> nat \<Rightarrow> int" where
  "Now_sec tv = (if snd tv > 500 * 1000 then int (fst tv) + 1 else int (fst tv))"

definition Now_usec :: "nat \<times> nat \<Rightarrow> int" where
  "Now_usec tv = int (fst tv) * 1000000 + int (snd tv)"

definition Now_msec :: "nat \<times> nat \<Rightarrow> int" where
  "Now_msec tv =
     (let msec = int (fst tv) * 1000 + int (snd tv div 1000)
      in if snd tv mod 1000 \<ge> 500 then msec + 1 else msec)"

text \<open>\<^verbatim>\<open>Now::unique\<close>: the state is \<^verbatim>\<open>lastUnique\<close>, used under a mutex.\<close>

fun hex_nat :: "nat \<Rightarrow> string" where
  "hex_nat n = (if n < 16 then [hex_digit n] else hex_nat (n div 16) @ [hex_digit (n mod 16)])"

declare hex_nat.simps [simp del]

definition setw :: "nat \<Rightarrow> char \<Rightarrow> string \<Rightarrow> string" where
  "setw w c s = replicate (w - length s) c @ s"

definition unique_number :: "u64 \<Rightarrow> nat \<times> nat \<Rightarrow> u64" where
  "unique_number lastUnique tv =
     (let temp = push_bit 20 (of_nat (fst tv)) + of_nat (snd tv)
      in if temp > lastUnique then temp else lastUnique + 1)"

definition Now_unique :: "u64 \<Rightarrow> nat \<times> nat \<Rightarrow> string \<times> u64" where
  "Now_unique lastUnique tv =
     (let temp = unique_number lastUnique tv in (setw 14 CHR ''0'' (hex_nat (unat temp)), temp))"

section \<open>Text\<close>

definition pad2 :: "int \<Rightarrow> string" where
  "pad2 n = (if n \<le> 9 then ''0'' else []) @ dec_int n"

definition xml_text :: "tm \<Rightarrow> string" where
  "xml_text t = dec_int (tm_year t + 1900) @ ''-'' @ pad2 (tm_mon t + 1) @ ''-'' @ pad2 (tm_mday t) @ ''T''
     @ pad2 (tm_hour t) @ '':'' @ pad2 (tm_min t) @ '':'' @ pad2 (tm_sec t) @ ''Z''"

definition toXmlDateTime :: "date_time \<Rightarrow> string" where
  "toXmlDateTime t = xml_text (toTm t)"

definition TimeTtoXmlStr :: "nat \<Rightarrow> string" where
  "TimeTtoXmlStr timet = xml_text (gmtime timet)"

definition TimeTtoStr :: "int \<Rightarrow> string" where
  "TimeTtoStr timet = setw 10 CHR '' '' (dec_int timet)"

text \<open>\<^verbatim>\<open>%d\<close> of \<^verbatim>\<open>sscanf\<close> with a width: blanks skipped, a sign and digits within the width.
  The six numbers are read up to the first mismatch; \<open>fresh\<close> is what the uninitialised \<^verbatim>\<open>tm\<close> of the
  caller holds in the fields that are not read.\<close>

definition scan_int :: "nat \<Rightarrow> string \<Rightarrow> (int \<times> string) option" where
  "scan_int w str =
     (let s = dropWhile isspace str;
          signed = (s \<noteq> [] \<and> (hd s = CHR ''-'' \<or> hd s = CHR ''+''));
          s1 = (if signed then tl s else s);
          ds = takeWhile digit (take (if signed then w - 1 else w) s1)
      in if ds = [] then None
         else Some (if s \<noteq> [] \<and> hd s = CHR ''-'' then - int (val_digits 0 ds) else int (val_digits 0 ds),
                    drop (length ds) s1))"

fun scan_fields :: "(nat \<times> char) list \<Rightarrow> string \<Rightarrow> int list" where
  "scan_fields [] s = []"
| "scan_fields ((w, c) # fs) s =
     (case scan_int w s of
        None \<Rightarrow> []
      | Some (v, r) \<Rightarrow> v # (if r \<noteq> [] \<and> hd r = c then scan_fields fs (tl r) else []))"

definition xml_format :: "(nat \<times> char) list" where
  "xml_format = [(4, CHR ''-''), (2, CHR ''-''), (2, CHR ''T''), (2, CHR '':''), (2, CHR '':''), (2, CHR ''Z'')]"

definition scan_xml :: "tm \<Rightarrow> string \<Rightarrow> tm \<times> nat" where
  "scan_xml fresh s =
     (let vs = scan_fields xml_format (cstr s); n = length vs
      in (\<lparr>tm_sec = if 5 < n then vs ! 5 else tm_sec fresh, tm_min = if 4 < n then vs ! 4 else tm_min fresh,
           tm_hour = if 3 < n then vs ! 3 else tm_hour fresh, tm_mday = if 2 < n then vs ! 2 else tm_mday fresh,
           tm_mon = if 1 < n then vs ! 1 else tm_mon fresh, tm_year = if 0 < n then vs ! 0 else tm_year fresh\<rparr>, n))"

definition DateTime_xml :: "tm \<Rightarrow> string \<Rightarrow> date_time" where
  "DateTime_xml fresh xmlStr =
     (let tmp = fst (scan_xml fresh xmlStr)
      in \<lparr>m_date = julianDate (tm_year tmp) (tm_mon tmp) (tm_mday tmp),
          m_time = makeHMS (tm_hour tmp) (tm_min tmp) (tm_sec tmp) 0\<rparr>)"

definition StrtoTimeT :: "tm \<Rightarrow> string \<Rightarrow> date_time \<Rightarrow> int \<times> date_time" where
  "StrtoTimeT fresh xmlStr t =
     (let tmp = fst (scan_xml fresh xmlStr);
          t' = t\<lparr>m_date := julianDate (tm_year tmp) (tm_mon tmp) (tm_mday tmp),
                 m_time := makeHMS (tm_hour tmp) (tm_min tmp) (tm_sec tmp) 0\<rparr>
      in (toTimeT t', t'))"

definition StrtoTimeTStr :: "tm \<Rightarrow> string \<Rightarrow> date_time \<Rightarrow> string \<times> date_time" where
  "StrtoTimeTStr fresh xmlStr t =
     (let tmp = fst (scan_xml fresh xmlStr);
          t' = t\<lparr>m_date := julianDate (tm_year tmp) (tm_mon tmp) (tm_mday tmp),
                 m_time := makeHMS (tm_hour tmp) (tm_min tmp) (tm_sec tmp) 0\<rparr>
      in (setw 10 CHR '' '' (dec_int (toTimeT t')), t'))"

definition isValidXMLDatetime :: "tm \<Rightarrow> string \<Rightarrow> bool" where
  "isValidXMLDatetime fresh str =
     (if length str \<noteq> 20 then False
      else if \<not> list_all2 (\<lambda>f c. if f = CHR ''0'' then digit c else f = c) ''0000-00-00T00:00:00Z'' str then False
      else let (tmp, ret) = scan_xml fresh str
           in if ret \<noteq> 6 then False
              else if tm_mon tmp > 12 \<or> tm_mon tmp \<le> 0 then False
              else if tm_mday tmp > 31 \<or> tm_mday tmp \<le> 0 then False
              else if tm_hour tmp > 24 \<or> tm_hour tmp < 0 then False
              else if tm_min tmp > 60 \<or> tm_min tmp < 0 then False
              else if tm_sec tmp > 60 \<or> tm_sec tmp < 0 then False
              else True)"

section \<open>Durations\<close>

definition maxDayInMonthFor :: "int \<Rightarrow> int \<Rightarrow> int" where
  "maxDayInMonthFor yr month =
     (let tmpMonth = ((month - 1) smod 12) + 1;
          tmpYear = yr + ((tmpMonth - 1) sdiv 12)
      in if tmpMonth = 1 \<or> tmpMonth = 3 \<or> tmpMonth = 5 \<or> tmpMonth = 7 \<or> tmpMonth = 8 \<or> tmpMonth = 10 \<or> tmpMonth = 12 then 31
         else if tmpMonth = 4 \<or> tmpMonth = 6 \<or> tmpMonth = 9 \<or> tmpMonth = 11 then 30
         else if tmpMonth = 2 \<and> (0 = tmpYear smod 400 \<or> (0 \<noteq> tmpYear smod 100 \<and> 0 = tmpYear smod 4)) then 29
         else 28)"

definition find_from :: "char \<Rightarrow> string \<Rightarrow> nat \<Rightarrow> nat option" where
  "find_from c s i =
     (let k = length (takeWhile (\<lambda>x. x \<noteq> c) (drop i s)) in if i + k < length s then Some (i + k) else None)"

text \<open>The block of one field: the sign, the number before its letter (at position \<open>k\<close>) and the index
  behind the letter. The substring has \<open>k\<close> characters, not up to \<open>k\<close>.\<close>

definition dur_field :: "string \<Rightarrow> nat \<Rightarrow> nat \<Rightarrow> int \<times> nat" where
  "dur_field s index k =
     (let neg = (index < length s \<and> s ! index = CHR ''-'');
          index1 = (if neg then index + 1 else index);
          v = (case scan_int (length s) (take k (drop index1 s)) of None \<Rightarrow> 0 | Some (v, _) \<Rightarrow> v)
      in (if neg then - v else v, k + 1))"

definition tm_zero :: tm where
  "tm_zero = \<lparr>tm_sec = 0, tm_min = 0, tm_hour = 0, tm_mday = 0, tm_mon = 0, tm_year = 0\<rparr>"

definition parseDuration :: "string \<Rightarrow> tm" where
  "parseDuration s =
     (if s = [] \<or> hd s \<noteq> CHR ''P'' then tm_zero
      else
        let indT = find_from CHR ''T'' s 0;
            index = 1;
            (year, index) = (case find_from CHR ''Y'' s index of None \<Rightarrow> (0, index) | Some k \<Rightarrow> dur_field s index k);
            (mon, index) = (case find_from CHR ''M'' s index of
                None \<Rightarrow> (0, index)
              | Some k \<Rightarrow> if (case indT of Some t \<Rightarrow> k < t | None \<Rightarrow> True) then dur_field s index k else (0, index));
            (mday, index) = (case find_from CHR ''D'' s index of None \<Rightarrow> (0, index) | Some k \<Rightarrow> dur_field s index k);
            date = tm_zero\<lparr>tm_year := year, tm_mon := mon, tm_mday := mday\<rparr>
        in case indT of
             None \<Rightarrow> date
           | Some t \<Rightarrow>
               (let index = t + 1;
                    (hour, index) = (case find_from CHR ''H'' s index of None \<Rightarrow> (0, index) | Some k \<Rightarrow> dur_field s index k);
                    (minute, index) = (case find_from CHR ''M'' s index of None \<Rightarrow> (0, index) | Some k \<Rightarrow> dur_field s index k);
                    second = (case find_from CHR ''S'' s index of None \<Rightarrow> 0 | Some k \<Rightarrow> fst (dur_field s index k))
                in date\<lparr>tm_hour := hour, tm_min := minute, tm_sec := second\<rparr>))"

lemma maxDay_pos: "28 \<le> maxDayInMonthFor y m"
  by (simp add: maxDayInMonthFor_def Let_def)

text \<open>The \<^verbatim>\<open>while (true)\<close> of \<^verbatim>\<open>addDurationDateTime\<close>; it ends for all days, months and years.\<close>

function carry_days :: "int \<Rightarrow> int \<Rightarrow> int \<Rightarrow> int \<times> int \<times> int" where
  "carry_days eYear eMonth eDay =
     (if eDay < 1 then
        let tmpMonth = eMonth + -1
        in carry_days (eYear + (tmpMonth - 1) sdiv 12) (((tmpMonth - 1) smod 12) + 1)
             (eDay + maxDayInMonthFor eYear (eMonth - 1))
      else if eDay > maxDayInMonthFor eYear eMonth then
        let tmpMonth = eMonth + 1
        in carry_days (eYear + (tmpMonth - 1) sdiv 12) (((tmpMonth - 1) smod 12) + 1)
             (eDay - maxDayInMonthFor eYear eMonth)
      else (eYear, eMonth, eDay))"
  by pat_completeness auto

termination
proof (relation "measure (\<lambda>(y, m, d). nat (if d < 1 then 100 - d else d))", goal_cases)
  case (2 y m d x)
  then show ?case using maxDay_pos [of y "m - 1"] by (auto simp: maxDayInMonthFor_def Let_def)
next
  case (3 y m d x)
  then show ?case using maxDay_pos [of y m] by auto
qed simp

declare carry_days.simps [simp del]

definition addDurationDateTime :: "string \<Rightarrow> date_time \<Rightarrow> date_time" where
  "addDurationDateTime xmlDuration t =
     (let (sYear, sMonth, sDay) = getYMD (m_date t);
          (sHour, sMin, sSec, sMillis) = getHMS (m_time t);
          durT = parseDuration xmlDuration;
          tmpMonth = sMonth + tm_mon durT;
          eMonth = ((tmpMonth - 1) smod 12) + 1;
          eYear = sYear + tm_year durT + (tmpMonth - 1) sdiv 12;
          tmpSec = sSec + tm_sec durT;
          tmpMin = sMin + tm_min durT + tmpSec sdiv 60;
          tmpHour = sHour + tm_hour durT + tmpMin sdiv 60;
          tmpDay = (if sDay > maxDayInMonthFor eYear eMonth then maxDayInMonthFor eYear eMonth
                    else if sDay < 1 then 1 else sDay);
          (eYear, eMonth, eDay) = carry_days eYear eMonth (tmpDay + tm_mday durT + tmpHour sdiv 24)
      in t\<lparr>m_date := julianDate eYear eMonth eDay,
           m_time := makeHMS (tmpHour smod 24) (tmpMin smod 60) (tmpSec smod 60) 0\<rparr>)"

definition addDuration :: "string \<Rightarrow> date_time \<Rightarrow> int \<times> date_time" where
  "addDuration xmlDuration t = (let t' = addDurationDateTime xmlDuration t in (toTimeT t', t'))"
section \<open>The calendar is the Gregorian one\<close>

lemma sdiv_nonneg: "0 \<le> a \<Longrightarrow> 0 < b \<Longrightarrow> a sdiv b = a div b" for a b :: int
  by (cases "a = 0") (simp_all add: signed_divide_int_def)

lemma div_bounds: "0 < b \<Longrightarrow> b * c \<le> a \<Longrightarrow> a < b * c + b \<Longrightarrow> a div b = c" for a b c :: int
  by (rule int_div_pos_eq [of _ _ _ "a - b * c"]) auto

lemma smod_nonneg: "0 \<le> a \<Longrightarrow> 0 < b \<Longrightarrow> a smod b = a mod b" for a b :: int
  by (cases "a = 0") (simp_all add: signed_modulo_int_def)

definition valid_date :: "int \<times> int \<times> int \<Rightarrow> bool" where
  "valid_date = (\<lambda>(y, m, d). - 4799 \<le> y \<and> 1 \<le> m \<and> m \<le> 12 \<and> 1 \<le> d \<and> d \<le> month_days y m)"

text \<open>Years counted from March: the month and the day of the year, and the leap years.\<close>

definition march_day :: "int \<Rightarrow> int \<Rightarrow> int" where
  "march_day m d = (153 * m + 2) div 5 + d - 1"

lemma julianDate_march:
  assumes "- 4799 \<le> y" "1 \<le> m" "m \<le> 12"
  shows "julianDate y m d = (let Y = (if m \<le> 2 then y + 4799 else y + 4800)
     in march_day (if m \<le> 2 then m + 9 else m - 3) d + 365 * Y + Y div 4 - Y div 100 + Y div 400 - 32044)"
proof -
  define Y where "Y = (if m \<le> 2 then y + 4799 else y + 4800)"
  define M where "M = (if m \<le> 2 then m + 9 else m - 3)"
  have "(14 - m) sdiv 12 = (if m \<le> 2 then 1 else 0)"
    using sdiv_nonneg [of "14 - m" 12] assms by (auto intro!: div_bounds)
  then have e: "y + 4800 - (14 - m) sdiv 12 = Y" "m + 12 * ((14 - m) sdiv 12) - 3 = M" by (simp_all add: Y_def M_def)
  have "0 \<le> Y" "0 \<le> 153 * M + 2" using assms by (simp_all add: Y_def M_def)
  then have s: "(153 * M + 2) sdiv 5 = (153 * M + 2) div 5" "Y sdiv 4 = Y div 4" "Y sdiv 100 = Y div 100"
    "Y sdiv 400 = Y div 400" by (simp_all only: sdiv_nonneg zero_less_numeral)
  show ?thesis unfolding julianDate_def Let_def e s march_day_def Y_def [symmetric] M_def [symmetric] by linarith
qed

text \<open>A day of the March year \<open>Y\<close> lies in it, its last day only in a leap year.\<close>

lemma month_cases:
  "1 \<le> m \<Longrightarrow> m \<le> 12 \<Longrightarrow> m = 1 \<or> m = 2 \<or> m = 3 \<or> m = 4 \<or> m = 5 \<or> m = 6
    \<or> m = 7 \<or> m = 8 \<or> m = 9 \<or> m = 10 \<or> m = 11 \<or> m = 12" for m :: int
  by presburger

definition march_month :: "int \<Rightarrow> int" where
  "march_month m = (if m \<le> 2 then m + 9 else m - 3)"

lemma march_day_bounds:
  assumes "1 \<le> m" "m \<le> 12" "1 \<le> d" "d \<le> month_days y m"
  shows "0 \<le> march_day (march_month m) d" "march_day (march_month m) d \<le> (if m = 2 \<and> leap y then 365 else 364)"
    "(5 * march_day (march_month m) d + 2) div 153 = march_month m"
proof -
  from month_cases [OF assms(1,2)] show "0 \<le> march_day (march_month m) d"
    using assms(3) by (elim disjE) (simp_all add: march_day_def march_month_def)
  from month_cases [OF assms(1,2)] show "march_day (march_month m) d \<le> (if m = 2 \<and> leap y then 365 else 364)"
    using assms(4) by (elim disjE) (simp_all add: march_day_def march_month_def month_days_def split: if_splits)
  from month_cases [OF assms(1,2)] show "(5 * march_day (march_month m) d + 2) div 153 = march_month m"
    using assms(3,4) by (elim disjE; intro div_bounds)
      (simp_all add: march_day_def march_month_def month_days_def split: if_splits)
qed

text \<open>The division steps of \<^verbatim>\<open>getYMD\<close>: the century, then the year of the century.\<close>

lemma century_of_day:
  fixes C Z D :: int
  assumes "0 \<le> C" "0 \<le> Z" "Z < 100" "0 \<le> D"
    and last: "D \<le> 364 \<or> D = 365 \<and> Z mod 4 = 3 \<and> (Z = 99 \<longrightarrow> C mod 4 = 3)"
    and N: "N = 36524 * C + C div 4 + 365 * Z + Z div 4 + D"
  shows "(4 * N + 3) div 146097 = C" "N - (C * 146097) div 4 = (1461 * Z) div 4 + D"
    "(4 * ((1461 * Z) div 4 + D) + 3) div 1461 = Z"
proof -
  have "C * 146097 = C + 36524 * C * 4" "1461 * Z = Z + 365 * Z * 4" by simp_all
  then have a: "(C * 146097) div 4 = 36524 * C + C div 4" "(1461 * Z) div 4 = 365 * Z + Z div 4"
    by (simp_all only: div_mult_self1 [of "4::int"] zero_neq_numeral simp_thms)
  show "N - (C * 146097) div 4 = (1461 * Z) div 4 + D" by (simp add: N a)
  have m: "4 * (C div 4) + C mod 4 = C" "4 * (Z div 4) + Z mod 4 = Z" by simp_all
  have b: "0 \<le> C mod 4" "C mod 4 \<le> 3" "0 \<le> Z mod 4" "Z mod 4 \<le> 3" by simp_all
  show "(4 * N + 3) div 146097 = C"
  proof (rule div_bounds)
    show "4 * N + 3 < 146097 * C + 146097"
    proof (cases "Z = 99")
      case True
      then have "Z mod 4 = 3" "D \<le> 364 \<or> D = 365 \<and> C mod 4 = 3" using last by auto
      then show ?thesis using N m b True by linarith
    next
      case False
      then have "Z \<le> 98" "D \<le> 365" using assms(3) last by auto
      then show ?thesis using N m b by linarith
    qed
    have "0 \<le> Z div 4" using assms(2) by simp
    then show "146097 * C \<le> 4 * N + 3" using N m b assms(4) by linarith
  qed simp
  show "(4 * ((1461 * Z) div 4 + D) + 3) div 1461 = Z"
  proof -
    have "0 \<le> 4 * D + 3 - Z mod 4" "4 * D + 3 - Z mod 4 < 1461" using b last assms(4) by auto
    moreover have "4 * ((1461 * Z) div 4 + D) + 3 = 1461 * Z + (4 * D + 3 - Z mod 4)"
      unfolding a using minus_mult_div_eq_mod [of Z 4] by (simp add: algebra_simps)
    ultimately show ?thesis by (intro div_bounds) simp_all
  qed
qed

theorem getYMD_julianDate:
  assumes "valid_date (y, m, d)"
  shows "getYMD (julianDate y m d) = (y, m, d)"
proof -
  have v: "- 4799 \<le> y" "1 \<le> m" "m \<le> 12" "1 \<le> d" "d \<le> month_days y m" using assms by (simp_all add: valid_date_def)
  define Y where "Y = (if m \<le> 2 then y + 4799 else y + 4800)"
  define C where "C = Y div 100"
  define Z where "Z = Y mod 100"
  define D where "D = march_day (march_month m) d"
  note D = march_day_bounds [OF v(2-5), folded D_def]
  have Y: "0 \<le> Y" "Y = 100 * C + Z" "0 \<le> C" "0 \<le> Z" "Z < 100" using v by (auto simp: Y_def C_def Z_def)
  have q: "Y div 4 = 25 * C + Z div 4" "Y div 400 = C div 4"
  proof -
    have "Y = Z + 25 * C * 4" using Y(2) by simp
    then show "Y div 4 = 25 * C + Z div 4" by (simp only: div_mult_self1 [of "4::int"] zero_neq_numeral simp_thms)
    show "Y div 400 = C div 4" using zdiv_zmult2_eq [of 4 Y 100] by (simp add: C_def)
  qed
  have j: "julianDate y m d + 32044 = 36524 * C + C div 4 + 365 * Z + Z div 4 + D"
  proof -
    have "julianDate y m d + 32044 = D + 365 * Y + Y div 4 - Y div 100 + Y div 400"
      unfolding julianDate_march [OF v(1-3)] Let_def Y_def [symmetric] march_month_def [symmetric] D_def by simp
    then show ?thesis using Y(2) q C_def by linarith
  qed
  have "D \<le> 364 \<or> D = 365 \<and> Z mod 4 = 3 \<and> (Z = 99 \<longrightarrow> C mod 4 = 3)"
  proof (cases "m = 2 \<and> leap y")
    case True
    then have l: "4 dvd Y + 1" "\<not> 100 dvd Y + 1 \<or> 400 dvd Y + 1"
      by (simp_all add: Y_def leap_def dvd_add_left_iff dvd_add_right_iff)
    have "Y + 1 = (Z + 1) + 4 * (25 * C)" using Y(2) by simp
    then have "4 dvd Z + 1" using l(1) by (simp only: dvd_add_left_iff dvd_triv_left)
    then have "Z mod 4 = 3" by presburger
    moreover
    have "C mod 4 = 3" if "Z = 99"
    proof -
      have "Y + 1 = 100 * (C + 1)" using Y(2) that by simp
      then have "400 dvd 100 * (C + 1)" using l(2) by (metis dvd_triv_left)
      then have "4 dvd C + 1" using dvd_mult_cancel_left [of 100 4 "C + 1"] by simp
      then show ?thesis by presburger
    qed
    ultimately show ?thesis using D(2) by (cases "D = 365") (auto split: if_splits)
  qed (use D(2) in auto)
  note c = century_of_day [OF Y(3-5) D(1) this j]
  let ?N = "julianDate y m d + 32044"
  have "0 \<le> C div 4" "0 \<le> Z div 4" "0 \<le> (1461 * Z) div 4" using Y(3,4) by simp_all
  then have n: "0 \<le> 4 * ?N + 3" "0 \<le> 4 * ((1461 * Z) div 4 + D) + 3" "0 \<le> 5 * D + 2" "0 \<le> C * 146097" "0 \<le> 1461 * Z"
    unfolding j using Y(3,4) D(1) by simp_all
  have b: "(4 * ?N + 3) sdiv 146097 = C" "(4 * ((1461 * Z) div 4 + D) + 3) sdiv 1461 = Z" "(5 * D + 2) sdiv 153 = march_month m"
    by (rule trans [OF sdiv_nonneg]; (rule n c D zero_less_numeral))+
  have s: "(C * 146097) sdiv 4 = (C * 146097) div 4" "(1461 * Z) sdiv 4 = (1461 * Z) div 4"
    by (rule sdiv_nonneg [OF n(4)], simp, rule sdiv_nonneg [OF n(5)], simp)
  have e: "(1461 * Z) div 4 + D - (1461 * Z) div 4 = D" by simp
  have M: "(153 * march_month m + 2) sdiv 5 = (153 * march_month m + 2) div 5"
      "march_month m sdiv 10 = march_month m div 10" using v by (simp_all add: march_month_def sdiv_nonneg)
  have "getYMD (julianDate y m d) = (C * 100 + Z - 4800 + march_month m div 10,
      march_month m + 3 - 12 * (march_month m div 10), D - (153 * march_month m + 2) div 5 + 1)"
    unfolding getYMD_def Let_def b(1) s c(2) b(2) e b(3) M by (rule refl)
  also have "\<dots> = (y, m, d)"
    proof (cases "m \<le> 2")
    case True
    then have "march_month m div 10 = 1" using v(2) by (simp add: march_month_def)
    then show ?thesis using Y(2) Y_def True by (simp add: D_def march_day_def march_month_def)
  next
    case False
    then have "march_month m div 10 = 0" using v(3) by (simp add: march_month_def)
    then show ?thesis using Y(2) Y_def False by (simp add: D_def march_day_def march_month_def)
  qed
  finally show ?thesis .
qed

text \<open>The day number of the first of the next month, by the length of the month.\<close>

lemma year_step:
  "(Y + 1) div 4 - (Y + 1) div 100 + (Y + 1) div 400
     = Y div 4 - Y div 100 + Y div 400 + (if 4 dvd Y + 1 \<and> (\<not> 100 dvd Y + 1 \<or> 400 dvd Y + 1) then 1 else 0)" for Y :: int
proof -
  have s: "(Y + 1) div k = Y div k + (if k dvd Y + 1 then 1 else 0)" if "0 < k" for k :: int
  proof (cases "k dvd Y + 1")
    case True
    then obtain q where q: "Y + 1 = k * q" by (auto elim: dvdE)
    have "Y div k = q - 1" by (rule div_bounds) (use that q in \<open>auto simp: algebra_simps\<close>)
    then show ?thesis using True that q by simp
  next
    case False
    then have "Y mod k \<noteq> k - 1" by (metis add.commute add_diff_cancel_left' diff_add_cancel dvd_eq_mod_eq_0 mod_add_left_eq mod_self)
    moreover have "0 \<le> Y mod k" "Y mod k < k" using that by simp_all
    moreover have "k * (Y div k) + Y mod k = Y" by simp
    ultimately have "(Y + 1) div k = Y div k" using that by (intro div_bounds) linarith+
    then show ?thesis using False by simp
  qed
  have d: "100 dvd Y + 1 \<Longrightarrow> 4 dvd Y + 1" "400 dvd Y + 1 \<Longrightarrow> 100 dvd Y + 1"
    by (rule dvd_trans [of _ 100], simp, assumption, rule dvd_trans [of _ 400], simp, assumption)
  have k: "(Y + 1) div 4 = Y div 4 + (if 4 dvd Y + 1 then 1 else 0)"
    "(Y + 1) div 100 = Y div 100 + (if 100 dvd Y + 1 then 1 else 0)"
    "(Y + 1) div 400 = Y div 400 + (if 400 dvd Y + 1 then 1 else 0)"
    by (rule s, simp)+
  show ?thesis
    unfolding k using d by (cases "4 dvd Y + 1"; cases "100 dvd Y + 1"; cases "400 dvd Y + 1") simp_all
qed

definition march_year :: "int \<Rightarrow> int" where
  "march_year Y = 365 * Y + Y div 4 - Y div 100 + Y div 400"

lemma julianDate_march_year:
  assumes "- 4799 \<le> y" "1 \<le> m" "m \<le> 12"
  shows "julianDate y m d = march_day (march_month m) d + march_year (if m \<le> 2 then y + 4799 else y + 4800) - 32044"
  using julianDate_march [OF assms] by (simp add: march_month_def march_year_def Let_def)

lemma march_year_Suc: "march_year (Y + 1) = march_year Y + 365
    + (if 4 dvd Y + 1 \<and> (\<not> 100 dvd Y + 1 \<or> 400 dvd Y + 1) then 1 else 0)"
proof -
  have h: "a - b + c = a' - b' + c' + e \<Longrightarrow> 365 * (Y + 1) + a - b + c = 365 * Y + a' - b' + c' + 365 + e"
    for a b c a' b' c' e :: int by simp
  show ?thesis unfolding march_year_def by (rule h [OF year_step])
qed

lemma march_year_step: "march_year (y + 4800) = march_year (y + 4799) + (if leap y then 366 else 365)"
proof -
  have l: "4 dvd y + 4800 \<and> (\<not> 100 dvd y + 4800 \<or> 400 dvd y + 4800) \<longleftrightarrow> leap y"
    by (simp add: leap_def dvd_add_left_iff)
  have s: "y + 4799 + 1 = y + 4800" by simp
  show ?thesis using march_year_Suc [of "y + 4799"] unfolding s l by (cases "leap y") (simp_all only: if_True if_False)
qed

lemma julianDate_day: "julianDate y m (d + k) = julianDate y m d + k"
  by (simp add: julianDate_def Let_def)

lemma julianDate_month:
  assumes "- 4799 \<le> y" "1 \<le> m" "m \<le> 12"
  shows "julianDate (if m < 12 then y else y + 1) (if m < 12 then m + 1 else 1) 1 = julianDate y m 1 + month_days y m"
proof -
  have d: "march_day k 1 = (153 * k + 2) div 5" for k by (simp add: march_day_def)
  note j = julianDate_march_year [OF assms, of 1]
  show ?thesis
  proof (cases "m = 12")
    case True
    then show ?thesis
      using assms j julianDate_march_year [of "y + 1" 1 1] by (simp add: d march_month_def month_days_def add.assoc)
  next
    case False
    then have "julianDate y (m + 1) 1 = march_day (march_month (m + 1)) 1
        + march_year (if m + 1 \<le> 2 then y + 4799 else y + 4800) - 32044"
      using assms by (intro julianDate_march_year) auto
    then have "julianDate y (m + 1) 1 = julianDate y m 1 + month_days y m"
      using month_cases [OF assms(2,3)] False march_year_step [of y] unfolding j d
      by (elim disjE) (simp_all add: march_month_def month_days_def)
    then show ?thesis using assms False by simp
  qed
qed

lemma julian_next:
  assumes "valid_date (y, m, d)"
  shows "valid_date (next_day (y, m, d))"
    "(case next_day (y, m, d) of (y', m', d') \<Rightarrow> julianDate y' m' d') = julianDate y m d + 1"
proof -
  have pos: "28 \<le> month_days z k" for z k by (simp add: month_days_def)
  show "valid_date (next_day (y, m, d))"
    using assms pos [of y "m + 1"] pos [of "y + 1" 1] by (auto simp: valid_date_def)
  show "(case next_day (y, m, d) of (y', m', d') \<Rightarrow> julianDate y' m' d') = julianDate y m d + 1"
  proof (cases "d < month_days y m")
    case False
    then have "d = 1 + (month_days y m - 1)" using assms by (simp add: valid_date_def)
    then have "julianDate y m d = julianDate y m 1 + (month_days y m - 1)" by (metis julianDate_day)
    then show ?thesis using julianDate_month [of y m] assms False by (auto simp: valid_date_def)
  qed (simp add: julianDate_day)
qed

lemma civil_julian:
  "valid_date (civil n) \<and> (case civil n of (y, m, d) \<Rightarrow> julianDate y m d) = JULIAN_19700101 + int n"
proof (induction n)
  case 0
  have "julianDate 1970 1 1 = JULIAN_19700101" by code_simp
  then show ?case by (simp add: civil_def valid_date_def month_days_def)
next
  case (Suc n)
  obtain y m d where c: "civil n = (y, m, d)" by (cases "civil n")
  have "civil (Suc n) = next_day (y, m, d)" using c by (simp add: civil_def)
  then show ?case using Suc julian_next [of y m d] c by simp
qed

text \<open>Hence \<^verbatim>\<open>julianDate\<close> numbers the days and \<^verbatim>\<open>getYMD\<close> is their calendar.\<close>

lemma getYMD_civil: "getYMD (JULIAN_19700101 + int n) = civil n"
proof -
  obtain y m d where c: "civil n = (y, m, d)" by (cases "civil n")
  then show ?thesis using civil_julian [of n] getYMD_julianDate [of y m d] by simp
qed

lemma hms_sum: "3600 * (s div 3600) + 60 * (s div 60 mod 60) + s mod 60 = s" for s :: int
proof -
  have "s div 3600 = s div 60 div 60" using zdiv_zmult2_eq [of 60 s 60] by simp
  then show ?thesis using mult_div_mod_eq [of 60 s] mult_div_mod_eq [of 60 "s div 60"] by linarith
qed

lemma makeHMS_seconds: "makeHMS (s div 3600) (s div 60 mod 60) (s mod 60) millis = 1000 * s + millis"
  unfolding makeHMS_def MILLIS_PER_SEC_def hms_sum by (rule refl)

lemma fromTimeT_eq:
  "fromTimeT t millis = \<lparr>m_date = JULIAN_19700101 + int (t div 86400), m_time = 1000 * int (t mod 86400) + millis\<rparr>"
proof -
  obtain y m d where c: "civil (t div 86400) = (y, m, d)" by (cases "civil (t div 86400)")
  have "julianDate y m d = JULIAN_19700101 + int (t div 86400)" using civil_julian [of "t div 86400"] c by simp
  then show ?thesis
    unfolding fromTimeT_def fromTm_def gmtime_def c
    by (simp only: Let_def prod.case tm.simps diff_add_cancel makeHMS_seconds)
qed

lemma i32_id: "- (2 ^ 31) \<le> x \<Longrightarrow> x < 2 ^ 31 \<Longrightarrow> i32 x = x"
  by (simp add: i32_def signed_of_int signed_take_bit_int_eq_self)



section \<open>Text round trip\<close>

lemma digit_not_space: "digit c \<Longrightarrow> \<not> isspace c \<and> c \<noteq> CHR ''-'' \<and> c \<noteq> CHR ''+'' \<and> c \<noteq> NUL"
  by (auto simp: digit_def isspace_def)

lemma scan_digits:
  assumes "ds \<noteq> []" "\<forall>c\<in>set ds. digit c" "length ds \<le> w" "w = length ds \<or> r = [] \<or> \<not> digit (hd r)"
  shows "scan_int w (ds @ r) = Some (int (val_digits 0 ds), r)"
proof -
  obtain c cs where ds: "ds = c # cs" using assms(1) by (cases ds) auto
  have c: "\<not> isspace c" "c \<noteq> CHR ''-''" "c \<noteq> CHR ''+''" using digit_not_space assms(2) ds by auto
  have "takeWhile digit (take w (ds @ r)) = ds"
  proof (cases "w = length ds")
    case True
    then show ?thesis using assms(2) by (simp add: takeWhile_eq_all_conv)
  next
    case False
    then have "r = [] \<or> \<not> digit (hd r)" using assms(4) by blast
    then have "takeWhile digit (take (w - length ds) r) = []" by (cases r; cases "w - length ds") auto
    then show ?thesis using assms(2,3) by (simp add: takeWhile_append)
  qed
  then show ?thesis using c by (simp add: scan_int_def ds Let_def)
qed

lemma dec_nat_digit: "c \<in> set (dec_nat n) \<Longrightarrow> digit c"
  using dec_nat_digits by (simp add: digit_def)

lemma digit_char: "n < 10 \<Longrightarrow> digit (char_of (48 + n))" for n :: nat
  by (simp add: digit_def)

lemma dec_nat_small: "n < 10 \<Longrightarrow> dec_nat n = [char_of (48 + n)]"
  by (simp add: dec_nat.simps [of n])

lemma dec_nat_step: "10 \<le> n \<Longrightarrow> dec_nat n = dec_nat (n div 10) @ [char_of (48 + n mod 10)]"
  by (subst dec_nat.simps) simp

lemma pad2_chars:
  assumes "0 \<le> n" "n \<le> 99"
  shows "\<exists>a b. pad2 n = [a, b] \<and> digit a \<and> digit b \<and> int (val_digits 0 [a, b]) = n"
proof -
  obtain k where k: "n = int k" "k \<le> 99" using assms by (metis nat_eq_iff2 nat_le_iff of_nat_numeral)
  show ?thesis
  proof (cases "k < 10")
    case True
    then show ?thesis using k by (simp add: pad2_def dec_int_def dec_nat_small digit_def)
  next
    case False
    then have "dec_nat k = [char_of (48 + k div 10), char_of (48 + k mod 10)]" "k div 10 < 10"
      using k(2) by (simp_all add: dec_nat_step dec_nat_small)
    moreover have "k mod 10 \<le> 9" "10 * int (k div 10) + int (k mod 10) = int k" by presburger+
    ultimately show ?thesis using k False by (simp add: pad2_def dec_int_def digit_def)
  qed
qed

lemma year_chars:
  assumes "1000 \<le> n" "n \<le> 9999"
  shows "\<exists>a b c d. dec_int n = [a, b, c, d] \<and> digit a \<and> digit b \<and> digit c \<and> digit d
    \<and> int (val_digits 0 [a, b, c, d]) = n"
proof -
  obtain k where k: "n = int k" "1000 \<le> k" "k \<le> 9999" using assms by (intro that [of "nat n"]) auto
  define a where "a = k div 10 div 10 div 10"
  define b where "b = k div 10 div 10 mod 10"
  define c where "c = k div 10 mod 10"
  define d where "d = k mod 10"
  have "10 \<le> k div 10 div 10" "10 \<le> k div 10" "a < 10" using k(2,3) by (simp_all add: a_def)
  then have "dec_nat k = [char_of (48 + a), char_of (48 + b), char_of (48 + c), char_of (48 + d)]"
    using k by (simp add: dec_nat_step dec_nat_small a_def b_def c_def d_def del: div_mult2_eq)
  moreover have "10 * (10 * (10 * a + b) + c) + d = k"
    unfolding a_def b_def c_def d_def by (simp only: mult_div_mod_eq)
  moreover have "b < 10" "c < 10" "d < 10" by (simp_all add: b_def c_def d_def)
  ultimately show ?thesis using k(1) \<open>a < 10\<close> by (auto simp: dec_int_def digit_def)
qed

text \<open>The text of a calendar time with a year of four digits.\<close>

definition plain_time :: "tm \<Rightarrow> bool" where
  "plain_time t \<longleftrightarrow> 1000 \<le> tm_year t + 1900 \<and> tm_year t + 1900 \<le> 9999 \<and> 0 \<le> tm_mon t \<and> tm_mon t \<le> 11
     \<and> 1 \<le> tm_mday t \<and> tm_mday t \<le> 31 \<and> 0 \<le> tm_hour t \<and> tm_hour t \<le> 23
     \<and> 0 \<le> tm_min t \<and> tm_min t \<le> 59 \<and> 0 \<le> tm_sec t \<and> tm_sec t \<le> 59"

lemma scan_xml_text:
  assumes "plain_time t"
  shows "scan_xml fresh (xml_text t) = (t\<lparr>tm_year := tm_year t + 1900, tm_mon := tm_mon t + 1\<rparr>, 6)"
    and "isValidXMLDatetime fresh (xml_text t)"
proof -
  note p = assms [unfolded plain_time_def]
  obtain a b c d where Y: "dec_int (tm_year t + 1900) = [a, b, c, d]" "digit a" "digit b" "digit c" "digit d"
    "int (val_digits 0 [a, b, c, d]) = tm_year t + 1900" using year_chars p by metis
  have two: "\<exists>a b. pad2 n = [a, b] \<and> digit a \<and> digit b \<and> int (val_digits 0 [a, b]) = n" if "0 \<le> n \<and> n \<le> 59" for n
    using pad2_chars that by simp
  obtain e f where M: "pad2 (tm_mon t + 1) = [e, f]" "digit e" "digit f" "int (val_digits 0 [e, f]) = tm_mon t + 1"
    using two [of "tm_mon t + 1"] p by auto
  obtain g h where D: "pad2 (tm_mday t) = [g, h]" "digit g" "digit h" "int (val_digits 0 [g, h]) = tm_mday t"
    using two [of "tm_mday t"] p by auto
  obtain i j where H: "pad2 (tm_hour t) = [i, j]" "digit i" "digit j" "int (val_digits 0 [i, j]) = tm_hour t"
    using two [of "tm_hour t"] p by auto
  obtain k l where N: "pad2 (tm_min t) = [k, l]" "digit k" "digit l" "int (val_digits 0 [k, l]) = tm_min t"
    using two [of "tm_min t"] p by auto
  obtain m n where S: "pad2 (tm_sec t) = [m, n]" "digit m" "digit n" "int (val_digits 0 [m, n]) = tm_sec t"
    using two [of "tm_sec t"] p by auto
  have x: "xml_text t = [a, b, c, d] @ CHR ''-'' # [e, f] @ CHR ''-'' # [g, h] @ CHR ''T'' # [i, j] @ CHR '':''
      # [k, l] @ CHR '':'' # [m, n] @ ''Z''"
    unfolding xml_text_def Y(1) M(1) D(1) H(1) N(1) S(1) by simp
  have "NUL \<notin> set (xml_text t)" unfolding x using Y M D H N S digit_not_space by auto
  then have c: "cstr (xml_text t) = xml_text t" by (rule cstr_id)
  have s4: "scan_int 4 ([a, b, c, d] @ r) = Some (tm_year t + 1900, r)" for r
    using scan_digits [of "[a, b, c, d]" 4 r] Y by simp
  have s2: "scan_int 2 ([u, v] @ r) = Some (int (val_digits 0 [u, v]), r)" if "digit u" "digit v" for u v r
    using scan_digits [of "[u, v]" 2 r] that by simp
  have "scan_fields xml_format (xml_text t) = [tm_year t + 1900, tm_mon t + 1, tm_mday t, tm_hour t, tm_min t, tm_sec t]"
    unfolding x xml_format_def
    by (simp only: scan_fields.simps s4 s2 [OF M(2,3)] s2 [OF D(2,3)] s2 [OF H(2,3)] s2 [OF N(2,3)] s2 [OF S(2,3)]
        M(4) D(4) H(4) N(4) S(4) option.case prod.case list.sel list.distinct simp_thms if_True)
  then show r: "scan_xml fresh (xml_text t) = (t\<lparr>tm_year := tm_year t + 1900, tm_mon := tm_mon t + 1\<rparr>, 6)"
    by (simp add: scan_xml_def c Let_def)
  have "list_all2 (\<lambda>f c. if f = CHR ''0'' then digit c else f = c) ''0000-00-00T00:00:00Z'' (xml_text t)"
    unfolding x using Y(2-5) M(2,3) D(2,3) H(2,3) N(2,3) S(2,3) by simp
  moreover have "length (xml_text t) = 20" unfolding x by simp
  ultimately show "isValidXMLDatetime fresh (xml_text t)" using p by (simp add: isValidXMLDatetime_def r)
qed

lemma toTm_valid:
  assumes "m_date t = julianDate y m d" "valid_date (y, m, d)" "0 \<le> m_time t" "m_time t < MILLIS_PER_DAY"
    and "1000 \<le> y" "y \<le> 9999"
  shows "plain_time (toTm t)" "tm_year (toTm t) = y - 1900" "tm_mon (toTm t) = m - 1" "tm_mday (toTm t) = d"
    "makeHMS (tm_hour (toTm t)) (tm_min (toTm t)) (tm_sec (toTm t)) 0 = m_time t - m_time t mod 1000"
proof -
  let ?s = "m_time t div 1000"
  have s: "0 \<le> ?s" "?s < 86400" using assms(3,4) by (auto simp: MILLIS_PER_DAY_def)
  have h: "getHMS (m_time t) = (?s div 3600, (?s div 60) mod 60, ?s mod 60, m_time t mod 1000)"
    using assms(3) s by (simp add: getHMS_def Let_def MILLIS_PER_SEC_def sdiv_nonneg smod_nonneg)
  have e: "toTm t = \<lparr>tm_sec = ?s mod 60, tm_min = (?s div 60) mod 60, tm_hour = ?s div 3600, tm_mday = d,
      tm_mon = m - 1, tm_year = y - 1900\<rparr>"
    by (simp add: toTm_def h assms(1) getYMD_julianDate [OF assms(2)])
  then show "tm_year (toTm t) = y - 1900" "tm_mon (toTm t) = m - 1" "tm_mday (toTm t) = d" by simp_all
  have "month_days y m \<le> 31" by (simp add: month_days_def)
  moreover have "?s div 3600 \<le> 23" using s by simp
  moreover have "0 \<le> ?s div 3600" "i mod 60 \<le> 59" for i :: int
    using s pos_mod_bound [of 60 i] by (simp_all add: pos_imp_zdiv_nonneg_iff)
  ultimately show "plain_time (toTm t)" using assms(2,5,6) by (simp add: e plain_time_def valid_date_def)
  have "makeHMS (?s div 3600) (?s div 60 mod 60) (?s mod 60) 0 = m_time t - m_time t mod 1000"
    by (simp only: makeHMS_seconds add_0_right minus_mod_eq_mult_div)
  then show "makeHMS (tm_hour (toTm t)) (tm_min (toTm t)) (tm_sec (toTm t)) 0 = m_time t - m_time t mod 1000"
    by (simp only: e tm.simps)
qed

text \<open>C37: A time in the years 1000 to 9999 written by \<^verbatim>\<open>toXmlDateTime\<close> is accepted by
  \<^verbatim>\<open>isValidXMLDatetime\<close> and read back by the constructor as the same second, whatever its uninitialised
  local held.\<close>

theorem xml_time_roundtrip:
  assumes "m_date t = julianDate y m d" "valid_date (y, m, d)" "0 \<le> m_time t" "m_time t < MILLIS_PER_DAY"
    and "1000 \<le> y" "y \<le> 9999"
  shows "isValidXMLDatetime fresh (toXmlDateTime t)
    \<and> DateTime_xml fresh (toXmlDateTime t) = t\<lparr>m_time := m_time t - m_time t mod 1000\<rparr>"
proof -
  note p = toTm_valid [OF assms]
  have "DateTime_xml fresh (toXmlDateTime t) = \<lparr>m_date = julianDate y m d, m_time = m_time t - m_time t mod 1000\<rparr>"
    using p(2-5) by (simp add: DateTime_xml_def toXmlDateTime_def scan_xml_text(1) [OF p(1)] Let_def)
  also have "\<dots> = t\<lparr>m_time := m_time t - m_time t mod 1000\<rparr>" using assms(1) by (cases t) simp
  finally show ?thesis using scan_xml_text(2) [OF p(1)] by (simp add: toXmlDateTime_def)
qed

theorem xml_time_roundtrip_witness:
  "DateTime_xml tm_zero (toXmlDateTime (DateTime_new 2024 2 29 12 34 56 789)) = DateTime_new 2024 2 29 12 34 56 0"
proof -
  let ?t = "DateTime_new 2024 2 29 12 34 56 789"
  have v: "valid_date (2024, 2, 29)" by (simp add: valid_date_def month_days_def leap_def)
  have t: "m_date ?t = julianDate 2024 2 29" "m_time ?t = 45296789"
    by (simp_all add: DateTime_new_def makeHMS_def MILLIS_PER_SEC_def)
  have "DateTime_xml tm_zero (toXmlDateTime ?t) = ?t\<lparr>m_time := m_time ?t - m_time ?t mod 1000\<rparr>"
    by (rule conjunct2 [OF xml_time_roundtrip [OF t(1) v]]) (simp_all only: t, simp_all add: MILLIS_PER_DAY_def)
  also have "\<dots> = DateTime_new 2024 2 29 12 34 56 0" by code_simp
  finally show ?thesis .
qed

section \<open>Durations add up\<close>

lemma smod_0_iff: "0 = a smod b \<longleftrightarrow> b dvd a" if "0 < b" for a b :: int
  using that by (auto simp: signed_modulo_int_def sgn_0_0 dvd_eq_mod_eq_0 [symmetric])

lemma maxDay_month_days:
  assumes "1 \<le> m" "m \<le> 12"
  shows "maxDayInMonthFor y m = month_days y m"
proof -
  have "((m - 1) smod 12) + 1 = m" "(m - 1) sdiv 12 = 0" using assms by (simp_all add: smod_nonneg sdiv_nonneg)
  then show ?thesis using month_cases [OF assms]
      dvd_trans [of 4 400 y]
    by (elim disjE) (simp_all add: maxDayInMonthFor_def month_days_def leap_def Let_def smod_0_iff)
qed

text \<open>The carry loop keeps the day: it ends with the date whose number is that of the first of the month
  and the days added to it.\<close>

lemma carry_days_exact:
  assumes "- 4799 \<le> y" "1 \<le> m" "m \<le> 12" "1 \<le> d"
  shows "case carry_days y m d of (y', m', d') \<Rightarrow> valid_date (y', m', d') \<and> julianDate y' m' d' = julianDate y m d"
  using assms
proof (induction y m d rule: carry_days.induct)
  case (1 y m d)
  note mx = maxDay_month_days [OF "1.prems"(2,3)]
  show ?case
  proof (cases "d > month_days y m")
    case True
    let ?m = "if m < 12 then m + 1 else 1" and ?y = "if m < 12 then y else y + 1"
    have e: "y + (m + 1 - 1) sdiv 12 = ?y" "(m + 1 - 1) smod 12 + 1 = ?m"
      using "1.prems"(2,3) by (auto simp: sdiv_nonneg smod_nonneg)
    have step: "carry_days y m d = carry_days ?y ?m (d - month_days y m)"
      using True "1.prems"(4) e by (simp add: carry_days.simps [of y m d] mx Let_def)
    have "case carry_days ?y ?m (d - month_days y m) of (y', m', d') \<Rightarrow>
        valid_date (y', m', d') \<and> julianDate y' m' d' = julianDate ?y ?m (d - month_days y m)"
      using "1.IH"(2) [OF _ _ refl] "1.prems" True by (simp only: e mx) auto
    moreover have "julianDate ?y ?m (d - month_days y m) = julianDate y m d"
      using julianDate_month [OF "1.prems"(1-3)] julianDate_day [of ?y ?m 1 "d - month_days y m - 1"]
        julianDate_day [of y m 1 "d - 1"] by simp
    ultimately show ?thesis unfolding step by auto
  next
    case False
    then have "carry_days y m d = (y, m, d)" using "1.prems"(4) by (simp add: carry_days.simps [of y m d] mx)
    then show ?thesis using False "1.prems" by (simp add: valid_date_def)
  qed
qed

text \<open>A duration of days, hours, minutes and seconds as its author writes it.\<close>

definition dur_text :: "nat \<Rightarrow> nat \<Rightarrow> nat \<Rightarrow> nat \<Rightarrow> string" where
  "dur_text d h m s = ''P'' @ dec_nat d @ ''DT'' @ dec_nat h @ ''H'' @ dec_nat m @ ''M'' @ dec_nat s @ ''S''"

lemma find_here: "c \<notin> set b \<Longrightarrow> s = a @ b @ c # r \<Longrightarrow> i = length a \<Longrightarrow> find_from c s i = Some (i + length b)"
  by (simp add: find_from_def takeWhile_neq Let_def)

lemma find_none: "c \<notin> set (drop i s) \<Longrightarrow> find_from c s i = None"
proof -
  assume "c \<notin> set (drop i s)"
  then have "takeWhile (\<lambda>x. x \<noteq> c) (drop i s) = drop i s" by (auto simp: takeWhile_eq_all_conv)
  then show ?thesis unfolding find_from_def by (simp only: Let_def) simp
qed

lemma dur_field_nat:
  assumes "s = p @ dec_nat n @ c # q" "i = length p" "p \<noteq> []" "\<not> digit c" "k = i + length (dec_nat n)"
  shows "dur_field s i k = (int n, k + 1)"
proof -
  obtain x xs where x: "dec_nat n = x # xs" using dec_nat_nonempty by (cases "dec_nat n") auto
  have "digit x" using dec_nat_digit [of x n] x by simp
  then have "s ! i \<noteq> CHR ''-''" using digit_not_space assms(1,2) x by (simp add: nth_append)
  moreover have "take k (drop i s) = dec_nat n @ c # take (length p - 1) q"
    using assms(2,3,5) by (cases "length p") (simp_all add: assms(1))
  moreover have "scan_int (length s) (dec_nat n @ c # take (length p - 1) q) = Some (int n, c # take (length p - 1) q)"
    using scan_digits [of "dec_nat n" "length s" "c # take (length p - 1) q"] dec_nat_nonempty dec_nat_digit
      assms(1,4) by (simp add: val_dec_nat)
  ultimately show ?thesis by (simp add: dur_field_def Let_def)
qed

lemma parse_dur_text:
  "parseDuration (dur_text d h m s)
     = tm_zero\<lparr>tm_mday := int d, tm_hour := int h, tm_min := int m, tm_sec := int s\<rparr>"
proof -
  let ?s = "dur_text d h m s"
  have nd: "c \<notin> set (dec_nat n)" if "\<not> digit c" for c n using that dec_nat_digit by blast
  have cs: "\<not> digit CHR ''Y''" "\<not> digit CHR ''M''" "\<not> digit CHR ''D''" "\<not> digit CHR ''T''" "\<not> digit CHR ''H''" "\<not> digit CHR ''S''"
    by (simp_all add: digit_def)
  note c = nd [OF cs(1)] nd [OF cs(2)] nd [OF cs(3)] nd [OF cs(4)] nd [OF cs(5)] nd [OF cs(6)]
  let ?iT = "length (dec_nat d) + 2"
  let ?iH = "?iT + 1 + length (dec_nat h)" let ?iM = "?iH + 1 + length (dec_nat m)"
  have T: "find_from CHR ''T'' ?s 0 = Some ?iT"
    using find_here [of "CHR ''T''" "''P'' @ dec_nat d @ ''D''" ?s "[]" "dec_nat h @ ''H'' @ dec_nat m @ ''M'' @ dec_nat s @ ''S''" 0] c
    by (simp add: dur_text_def)
  have Y: "find_from CHR ''Y'' ?s 1 = None" by (rule find_none) (use c in \<open>auto simp: dur_text_def\<close>)
  have M: "find_from CHR ''M'' ?s 1 = Some ?iM"
    using find_here [of "CHR ''M''" "dec_nat d @ ''DT'' @ dec_nat h @ ''H'' @ dec_nat m" ?s "''P''" "dec_nat s @ ''S''" 1] c
    by (simp add: dur_text_def)
  have D: "find_from CHR ''D'' ?s 1 = Some (1 + length (dec_nat d))"
    using find_here [of "CHR ''D''" "dec_nat d" ?s "''P''" "''T'' @ dec_nat h @ ''H'' @ dec_nat m @ ''M'' @ dec_nat s @ ''S''" 1] c
    by (simp add: dur_text_def)
  have fD: "dur_field ?s 1 (1 + length (dec_nat d)) = (int d, ?iT)"
    using dur_field_nat [of ?s "''P''" d "CHR ''D''" "''T'' @ dec_nat h @ ''H'' @ dec_nat m @ ''M'' @ dec_nat s @ ''S''"] cs
    by (simp add: dur_text_def)
  have H: "find_from CHR ''H'' ?s (?iT + 1) = Some ?iH"
    using find_here [of "CHR ''H''" "dec_nat h" ?s "''P'' @ dec_nat d @ ''DT''" "dec_nat m @ ''M'' @ dec_nat s @ ''S''" "?iT + 1"] c
    by (simp add: dur_text_def)
  have fH: "dur_field ?s (?iT + 1) ?iH = (int h, ?iH + 1)"
    using dur_field_nat [of ?s "''P'' @ dec_nat d @ ''DT''" h "CHR ''H''" "dec_nat m @ ''M'' @ dec_nat s @ ''S''" "?iT + 1"] cs
    by (simp add: dur_text_def)
  have N: "find_from CHR ''M'' ?s (?iH + 1) = Some ?iM"
    using find_here [of "CHR ''M''" "dec_nat m" ?s "''P'' @ dec_nat d @ ''DT'' @ dec_nat h @ ''H''" "dec_nat s @ ''S''" "?iH + 1"] c
    by (simp add: dur_text_def)
  have fN: "dur_field ?s (?iH + 1) ?iM = (int m, ?iM + 1)"
    using dur_field_nat [of ?s "''P'' @ dec_nat d @ ''DT'' @ dec_nat h @ ''H''" m "CHR ''M''" "dec_nat s @ ''S''" "?iH + 1"] cs
    by (simp add: dur_text_def)
  have S: "find_from CHR ''S'' ?s (?iM + 1) = Some (?iM + 1 + length (dec_nat s))"
    using find_here [of "CHR ''S''" "dec_nat s" ?s "''P'' @ dec_nat d @ ''DT'' @ dec_nat h @ ''H'' @ dec_nat m @ ''M''" "[]" "?iM + 1"] c
    by (simp add: dur_text_def)
  have fS: "fst (dur_field ?s (?iM + 1) (?iM + 1 + length (dec_nat s))) = int s"
    using dur_field_nat [of ?s "''P'' @ dec_nat d @ ''DT'' @ dec_nat h @ ''H'' @ dec_nat m @ ''M''" s "CHR ''S''" "[]" "?iM + 1"] cs
    by (simp add: dur_text_def)
  have fD': "dur_field ?s (Suc 0) (Suc (length (dec_nat d))) = (int d, ?iT)" using fD by simp
  have "\<not> ?iM < ?iT" "?s \<noteq> []" "hd ?s = CHR ''P''" by (simp_all add: dur_text_def)
  then show ?thesis
    unfolding parseDuration_def Let_def T Y M option.case prod.case D fD H fH N fN S fS
    by (simp only: if_False simp_thms option.case prod.case fD H fH N fN S fS) (simp add: tm_zero_def D [unfolded One_nat_def] fD')
qed



section \<open>Where dates go wrong\<close>

text \<open>A day taken from the first of January: the month becomes 0, for which the table says 28 days.\<close>

lemma day_before_new_year:
  "addDurationDateTime ''P-1D'' (DateTime_new 2024 1 1 0 0 0 0) = DateTime_new 2023 12 28 0 0 0 0"
  by code_simp

text \<open>A negative second stays a negative second; the milliseconds are lost.\<close>

lemma negative_second:
  "addDurationDateTime ''PT-1S'' (DateTime_new 2024 1 1 0 0 0 500) = DateTime_of (julianDate 2024 1 1) (- 1000)"
  by code_simp

text \<open>\<^verbatim>\<open>operator+=\<close> leaves midnight as the end of the day before, and such a time is not equal to the
  same time made from its parts.\<close>

lemma midnight_not_normalised:
  "dt_add (DateTime_new 2024 1 1 23 0 0 0) 3600 = DateTime_of (julianDate 2024 1 1) 86400000"
  "dt_eq (dt_add (DateTime_new 2024 1 1 23 0 0 0) 3600) (DateTime_new 2024 1 2 0 0 0 0) = False"
  by code_simp+

text \<open>From 2038 on the 32 bit product wraps, and a year before 1000 is written with fewer digits.\<close>

lemma year_2038: "toTimeT (DateTime_new 2038 1 19 3 14 8 0) = - (2 ^ 31)"
  by code_simp

lemma early_year_invalid: "isValidXMLDatetime tm_zero (toXmlDateTime (DateTime_new 999 1 1 0 0 0 0)) = False"
  by code_simp

section \<open>Other laws\<close>

text \<open>The comparisons are the linear order of date, then time.\<close>

lemma dt_order:
  "dt_less a b \<longleftrightarrow> m_date a < m_date b \<or> m_date a = m_date b \<and> m_time a < m_time b"
  "dt_le a b \<longleftrightarrow> \<not> dt_less b a" "dt_ge a b \<longleftrightarrow> \<not> dt_less a b" "dt_greater a b \<longleftrightarrow> dt_less b a"
  "dt_eq a b \<longleftrightarrow> a = b"
  by (auto simp: dt_less_def dt_le_def dt_ge_def dt_greater_def dt_eq_def intro: date_time.equality)

text \<open>The numbers of \<^verbatim>\<open>Now::unique\<close> grow with every call, whatever the clock does.\<close>

lemma unique_grows: "lastUnique < unique_number lastUnique tv" if "lastUnique \<noteq> - 1"
proof -
  have "1 + lastUnique \<noteq> 0" using that by (metis add.commute eq_neg_iff_add_eq_0)
  then have "lastUnique < lastUnique + 1" by (simp add: word_less_nat_alt unatSuc add.commute)
  then show ?thesis by (simp add: unique_number_def Let_def)
qed

end
