(* ===== verification/Startup.thy ===== *)
theory Startup
  imports Endpoint Events Ini
begin

text \<open>
  Starting and stopping the network: the properties of the communication stage
  (src/comm/commstage.cpp), the static settings of connections (src/net/conn.cpp), and the life of a
  \<^verbatim>\<open>Net\<close> and a \<^verbatim>\<open>NetServer\<close> (src/net/net.cpp, src/net/netserver.cpp): pipes, selectors, the epoll
  threads and the data threads. The kernel is explicit: its open descriptors, its running threads, and
  an oracle \<open>ok\<close> that tells which system call, in the order they are made, succeeds. A thread ends
  when it has been told to: a data thread by a negative entry in its queue (theory NetLife), an epoll
  thread by the exit message in its pipe. \<open>None\<close> is a join that waits for ever.
\<close>

section \<open>Settings\<close>

record conn_settings =
  gSocketSendBufSize :: int
  gSocketRcvBufSize :: int
  gListenSendBufSize :: int
  gListenRcvBufSize :: int
  gMaxBlockSize :: int
  gTimeout :: int
  gLocalEp :: endpoint

definition settings_default :: "endpoint \<Rightarrow> conn_settings" where
  "settings_default ep = \<lparr>gSocketSendBufSize = 262144, gSocketRcvBufSize = 16384, gListenSendBufSize = 262144,
     gListenRcvBufSize = 16384, gMaxBlockSize = 64 * 1048576, gTimeout = 30, gLocalEp = ep\<rparr>"

definition setSndBufSz :: "int \<Rightarrow> conn_settings \<Rightarrow> conn_settings" where
  "setSndBufSz n c = c\<lparr>gSocketSendBufSize := n\<rparr>"
definition setRcvBufSz :: "int \<Rightarrow> conn_settings \<Rightarrow> conn_settings" where
  "setRcvBufSz n c = c\<lparr>gSocketRcvBufSize := n\<rparr>"
definition setLsnSndBufSz :: "int \<Rightarrow> conn_settings \<Rightarrow> conn_settings" where
  "setLsnSndBufSz n c = c\<lparr>gListenSendBufSize := n\<rparr>"
definition setLsnRcvBufSz :: "int \<Rightarrow> conn_settings \<Rightarrow> conn_settings" where
  "setLsnRcvBufSz n c = c\<lparr>gListenRcvBufSize := n\<rparr>"
definition setSocketTimeout :: "int \<Rightarrow> conn_settings \<Rightarrow> conn_settings" where
  "setSocketTimeout n c = c\<lparr>gTimeout := n\<rparr>"
definition setMaxBlockSize :: "int \<Rightarrow> conn_settings \<Rightarrow> conn_settings" where
  "setMaxBlockSize n c = c\<lparr>gMaxBlockSize := n\<rparr>"

text \<open>One block of \<^verbatim>\<open>setSocketProperty\<close>. A value that is no number sets 0.\<close>

definition int_property :: "string \<Rightarrow> (int \<Rightarrow> conn_settings \<Rightarrow> conn_settings) \<Rightarrow> (string \<times> string) list
    \<Rightarrow> conn_settings \<Rightarrow> conn_settings" where
  "int_property key setter sec c =
     (case map_of sec key of None \<Rightarrow> c | Some v \<Rightarrow> setter (fst (strToVal_int v)) c)"

definition setSocketProperty :: "(string \<times> string) list \<Rightarrow> conn_settings \<Rightarrow> conn_settings" where
  "setSocketProperty sec c =
     (let c1 = int_property ''socket_timeout'' setSocketTimeout sec c;
          c2 = int_property ''socket_send_buf_size'' setSndBufSz sec c1;
          c3 = int_property ''socket_rcv_buf_size'' setRcvBufSz sec c2;
          c4 = int_property ''listen_send_buf_size'' setLsnSndBufSz sec c3;
          c5 = int_property ''listen_rcv_buf_size'' setLsnRcvBufSz sec c4
      in int_property ''one_block_buffer_size'' setMaxBlockSize sec c5)"

definition setLocalEp :: "(string \<times> string) list \<Rightarrow> bool \<Rightarrow> conn_settings \<Rightarrow> bool \<times> conn_settings" where
  "setLocalEp sec server c =
     (let ep1 = (case map_of sec ''port'' of None \<Rightarrow> gLocalEp c
                 | Some v \<Rightarrow> setPort (word_of_int (fst (strToVal_int v))) (gLocalEp c))
      in if server \<and> mPort ep1 = DEFAULT_PORT then (False, c\<lparr>gLocalEp := ep1\<rparr>)
         else let ep2 = (case map_of sec ''location'' of None \<Rightarrow> ep1 | Some v \<Rightarrow> setLocation v ep1);
                  ep3 = (case map_of sec ''service'' of None \<Rightarrow> ep2 | Some v \<Rightarrow> setService v ep2)
              in (True, c\<lparr>gLocalEp := ep3\<rparr>))"

text \<open>\<^verbatim>\<open>strToVal\<close> of a \<^verbatim>\<open>bool\<close>: only the number 1 is true.\<close>

definition strToVal_bool :: "string \<Rightarrow> bool" where
  "strToVal_bool str = (stream_number str = Some (False, 1))"

definition setProperties :: "ini \<Rightarrow> string \<Rightarrow> bool \<Rightarrow> conn_settings \<Rightarrow> bool \<times> bool \<times> conn_settings" where
  "setProperties i stageName server c =
     (let sec = get_section stageName i;
          server1 = (case map_of sec ''server'' of None \<Rightarrow> server | Some v \<Rightarrow> strToVal_bool v);
          (set, c1) = setLocalEp sec server1 c
      in if \<not> set then (False, server1, c1) else (True, server1, setSocketProperty sec c1))"

section \<open>The kernel\<close>

record net_run =
  initFlag :: bool
  shutdownFlag :: bool
  sendDataThreads :: "nat list"
  recvDataThreads :: "nat list"
  dataParams :: "nat \<Rightarrow> (nat \<times> int list) option"    \<comment> \<open>tid and sockQ\<close>
  recvPfd :: "nat \<times> nat"
  sendPfd :: "nat \<times> nat"
  recvEpfd :: nat
  sendEpfd :: nat
  recvThreadId :: nat
  sendThreadId :: nat
  srvPort :: "16 word"
  mListenSock :: "nat option"
  openFds :: "nat set"
  liveThreads :: "nat set"
  exitSent :: "nat set"         \<comment> \<open>pipes that hold the exit message, by their write end\<close>
  nextId :: nat
  calls :: nat

definition Net_new :: "nat set \<Rightarrow> nat set \<Rightarrow> nat \<Rightarrow> net_run" where
  "Net_new fds threads n = \<lparr>initFlag = False, shutdownFlag = False, sendDataThreads = [], recvDataThreads = [],
     dataParams = Map.empty, recvPfd = (0, 0), sendPfd = (0, 0), recvEpfd = 0, sendEpfd = 0, recvThreadId = 0,
     sendThreadId = 0, srvPort = 0, mListenSock = None, openFds = fds, liveThreads = threads, exitSent = {},
     nextId = n, calls = 0\<rparr>"

definition NetServer_new :: "16 word \<Rightarrow> nat set \<Rightarrow> nat set \<Rightarrow> nat \<Rightarrow> net_run" where
  "NetServer_new port fds threads n = (Net_new fds threads n)\<lparr>srvPort := port\<rparr>"

definition setSrvPort :: "16 word \<Rightarrow> net_run \<Rightarrow> net_run" where
  "setSrvPort port s = s\<lparr>srvPort := port\<rparr>"

definition syscall :: "(nat \<Rightarrow> bool) \<Rightarrow> net_run \<Rightarrow> bool \<times> net_run" where
  "syscall ok s = (ok (calls s), s\<lparr>calls := calls s + 1\<rparr>)"

text \<open>A call that makes one descriptor.\<close>

definition open_fd :: "(nat \<Rightarrow> bool) \<Rightarrow> net_run \<Rightarrow> nat option \<times> net_run" where
  "open_fd ok s =
     (let (r, s1) = syscall ok s
      in if r then (Some (nextId s1), s1\<lparr>openFds := insert (nextId s1) (openFds s1), nextId := nextId s1 + 1\<rparr>)
         else (None, s1))"

definition sys_pipe :: "(nat \<Rightarrow> bool) \<Rightarrow> net_run \<Rightarrow> (nat \<times> nat) option \<times> net_run" where
  "sys_pipe ok s =
     (let (r, s1) = syscall ok s; n = nextId s1
      in if r then (Some (n, n + 1), s1\<lparr>openFds := openFds s1 \<union> {n, n + 1}, nextId := n + 2\<rparr>)
         else (None, s1))"

definition sys_thread :: "(nat \<Rightarrow> bool) \<Rightarrow> net_run \<Rightarrow> nat option \<times> net_run" where
  "sys_thread ok s =
     (let (r, s1) = syscall ok s
      in if r then (Some (nextId s1), s1\<lparr>liveThreads := insert (nextId s1) (liveThreads s1), nextId := nextId s1 + 1\<rparr>)
         else (None, s1))"

definition close_fds :: "nat set \<Rightarrow> net_run \<Rightarrow> net_run" where
  "close_fds fs s = s\<lparr>openFds := openFds s - fs\<rparr>"

text \<open>\<^verbatim>\<open>Sock::createSelector\<close>: the new selector stays open when the notifier cannot be added.\<close>

definition createSelector :: "(nat \<Rightarrow> bool) \<Rightarrow> net_run \<Rightarrow> nat option \<times> bool \<times> net_run" where
  "createSelector ok s =
     (case open_fd ok s of
        (None, s1) \<Rightarrow> (None, False, s1)
      | (Some epfd, s1) \<Rightarrow> (let (r, s2) = syscall ok s1 in (Some epfd, r, s2)))"

definition setupListener :: "(nat \<Rightarrow> bool) \<Rightarrow> net_run \<Rightarrow> bool \<times> net_run" where
  "setupListener ok s =
     (case open_fd ok s of
        (None, s1) \<Rightarrow> (False, s1\<lparr>mListenSock := None\<rparr>)
      | (Some lsock, s1) \<Rightarrow>
          (let (r, s2) = syscall ok (s1\<lparr>mListenSock := Some lsock\<rparr>)
           in if \<not> r then (False, s2) else syscall ok s2))"

section \<open>Starting\<close>

definition setupSelectors :: "(nat \<Rightarrow> bool) \<Rightarrow> net_run \<Rightarrow> bool \<times> net_run" where
  "setupSelectors ok s =
     (case sys_pipe ok s of
        (None, s1) \<Rightarrow> (False, s1)
      | (Some p, s1) \<Rightarrow>
          (case createSelector ok (s1\<lparr>recvPfd := p\<rparr>) of
             (None, _, s2) \<Rightarrow> (False, s2)
           | (Some e, r, s2) \<Rightarrow>
               if \<not> r then (False, s2\<lparr>recvEpfd := e\<rparr>)
               else (case sys_pipe ok (s2\<lparr>recvEpfd := e\<rparr>) of
                       (None, s3) \<Rightarrow> (False, s3)
                     | (Some p, s3) \<Rightarrow>
                         (case createSelector ok (s3\<lparr>sendPfd := p\<rparr>) of
                            (None, _, s4) \<Rightarrow> (False, s4)
                          | (Some e, r, s4) \<Rightarrow> (r, s4\<lparr>sendEpfd := e\<rparr>)))))"

text \<open>Both branches of the failure take the entry off the list of the send threads.\<close>

definition startDataThread :: "(nat \<Rightarrow> bool) \<Rightarrow> bool \<Rightarrow> net_run \<Rightarrow> bool \<times> net_run" where
  "startDataThread ok isSend s =
     (let p = nextId s;
          s1 = s\<lparr>nextId := p + 1, dataParams := (dataParams s)(p \<mapsto> (0, []))\<rparr>;
          s2 = (if isSend then s1\<lparr>sendDataThreads := sendDataThreads s1 @ [p]\<rparr>
                else s1\<lparr>recvDataThreads := recvDataThreads s1 @ [p]\<rparr>)
      in case sys_thread ok s2 of
           (None, s3) \<Rightarrow> (False, s3\<lparr>dataParams := (dataParams s3)(p := None),
                                  sendDataThreads := butlast (sendDataThreads s3)\<rparr>)
         | (Some tid, s3) \<Rightarrow> (True, s3\<lparr>dataParams := (dataParams s3)(p \<mapsto> (tid, []))\<rparr>))"

fun start_data_threads :: "(nat \<Rightarrow> bool) \<Rightarrow> nat \<Rightarrow> net_run \<Rightarrow> bool \<times> net_run" where
  "start_data_threads ok 0 s = (True, s)"
| "start_data_threads ok (Suc n) s =
     (case startDataThread ok True s of
        (False, s1) \<Rightarrow> (False, s1)
      | (True, s1) \<Rightarrow>
          (case startDataThread ok False s1 of
             (False, s2) \<Rightarrow> (False, s2)
           | (True, s2) \<Rightarrow> start_data_threads ok n s2))"

definition startThreads :: "(nat \<Rightarrow> bool) \<Rightarrow> ini \<Rightarrow> net_run \<Rightarrow> bool \<times> net_run" where
  "startThreads ok i s =
     (case sys_thread ok s of
        (None, s1) \<Rightarrow> (False, s1)
      | (Some t, s1) \<Rightarrow>
          (case sys_thread ok (s1\<lparr>recvThreadId := t\<rparr>) of
             (None, s2) \<Rightarrow> (False, s2)
           | (Some t, s2) \<Rightarrow>
               start_data_threads ok (nat (fst (strToVal_int (ini_get ''NetThreadCount'' ''8'' ''Default'' i))))
                 (s2\<lparr>sendThreadId := t\<rparr>)))"

datatype net_code = SETUP_OK | NET_ERR_EPOLL | NET_ERR_THREAD | ERR_EINVAL | SOCK_FAILED

definition Net_setup :: "(nat \<Rightarrow> bool) \<Rightarrow> ini \<Rightarrow> net_run \<Rightarrow> net_code \<times> net_run" where
  "Net_setup ok i s =
     (if initFlag s then (SETUP_OK, s)
      else case setupSelectors ok s of
             (False, s1) \<Rightarrow> (NET_ERR_EPOLL, s1)
           | (True, s1) \<Rightarrow>
               (case startThreads ok i s1 of
                  (False, s2) \<Rightarrow> (NET_ERR_THREAD, s2)
                | (True, s2) \<Rightarrow> (SETUP_OK, s2\<lparr>initFlag := True\<rparr>)))"

definition NetServer_setup :: "(nat \<Rightarrow> bool) \<Rightarrow> ini \<Rightarrow> net_run \<Rightarrow> net_code \<times> net_run" where
  "NetServer_setup ok i s =
     (if srvPort s = 0 then (ERR_EINVAL, s)
      else if initFlag s then (SETUP_OK, s)
      else case setupSelectors ok s of
             (False, s1) \<Rightarrow> (SOCK_FAILED, s1)
           | (True, s1) \<Rightarrow>
               (case setupListener ok s1 of
                  (False, s2) \<Rightarrow> (SOCK_FAILED, s2)
                | (True, s2) \<Rightarrow>
                    (case syscall ok s2 of       \<comment> \<open>\<open>addToSelector\<close> of the listener\<close>
                       (False, s3) \<Rightarrow> (SOCK_FAILED, s3)
                     | (True, s3) \<Rightarrow>
                         (case startThreads ok i s3 of
                            (False, s4) \<Rightarrow> (NET_ERR_THREAD, s4)
                          | (True, s4) \<Rightarrow> (SETUP_OK, s4\<lparr>initFlag := True\<rparr>)))))"

section \<open>Stopping\<close>

definition tell :: "nat \<Rightarrow> net_run \<Rightarrow> net_run res" where
  "tell p s =
     (case dataParams s p of
        None \<Rightarrow> Some (Inl Dangling)
      | Some (tid, q) \<Rightarrow> ret (s\<lparr>dataParams := (dataParams s)(p \<mapsto> (tid, q @ [- 1]))\<rparr>))"

text \<open>\<^verbatim>\<open>pthread_join\<close> of a data thread, then the deletion of its record.\<close>

definition join_data :: "nat \<Rightarrow> net_run \<Rightarrow> net_run res" where
  "join_data p s =
     (case dataParams s p of
        None \<Rightarrow> Some (Inl Dangling)
      | Some (tid, q) \<Rightarrow>
          (if \<exists>x\<in>set q. x < 0
           then ret (s\<lparr>liveThreads := liveThreads s - {tid}, dataParams := (dataParams s)(p := None)\<rparr>)
           else None))"

fun for_all :: "(nat \<Rightarrow> net_run \<Rightarrow> net_run res) \<Rightarrow> nat list \<Rightarrow> net_run \<Rightarrow> net_run res" where
  "for_all f [] s = ret s"
| "for_all f (p # ps) s = thenr (f p s) (for_all f ps)"

definition cleanupThreads :: "net_run \<Rightarrow> net_run res" where
  "cleanupThreads s =
     thenr (for_all tell (sendDataThreads s) s) (\<lambda>s1.
     thenr (for_all tell (recvDataThreads s1) s1) (\<lambda>s2.
     thenr (for_all join_data (sendDataThreads s2) s2) (\<lambda>s3.
     let s3 = s3\<lparr>sendDataThreads := []\<rparr>
     in thenr (for_all join_data (recvDataThreads s3) s3) (\<lambda>s4.
     ret (s4\<lparr>recvDataThreads := []\<rparr>)))))"

definition join_epoll :: "nat \<Rightarrow> nat \<Rightarrow> net_run \<Rightarrow> net_run res" where
  "join_epoll tid wfd s =
     (if wfd \<in> exitSent s then ret (s\<lparr>liveThreads := liveThreads s - {tid}\<rparr>) else None)"

definition Net_shutdown :: "net_run \<Rightarrow> (net_code \<times> net_run) res" where
  "Net_shutdown s =
     (if \<not> initFlag s \<or> shutdownFlag s then ret (ERR_EINVAL, s)
      else
        thenr (cleanupThreads s) (\<lambda>s1.
        let s2 = s1\<lparr>exitSent := insert (snd (recvPfd s1)) (insert (snd (sendPfd s1)) (exitSent s1))\<rparr>
        in thenr (join_epoll (recvThreadId s2) (snd (recvPfd s2)) s2) (\<lambda>s3.
        thenr (join_epoll (sendThreadId s3) (snd (sendPfd s3)) s3) (\<lambda>s4.
        let s5 = close_fds {fst (recvPfd s4), snd (recvPfd s4), recvEpfd s4,
                            fst (sendPfd s4), snd (sendPfd s4), sendEpfd s4} s4
        in ret (SETUP_OK, s5\<lparr>shutdownFlag := True, initFlag := False\<rparr>)))))"

definition NetServer_shutdown :: "net_run \<Rightarrow> (net_code \<times> net_run) res" where
  "NetServer_shutdown s =
     thenr (Net_shutdown s) (\<lambda>(rc, s1).
       if rc \<noteq> SETUP_OK then ret (rc, s1)
       else ret (SETUP_OK, close_fds (set_option (mListenSock s1)) s1))"

definition Net_delete :: "net_run \<Rightarrow> net_run res" where
  "Net_delete s = (if \<not> initFlag s \<or> shutdownFlag s then ret s else Some (Inl Assert_failed))"

definition net_initialized :: "net_run \<Rightarrow> bool" where "net_initialized s = initFlag s"

definition net_finalized :: "net_run \<Rightarrow> bool" where "net_finalized s = shutdownFlag s"

section \<open>The communication stage\<close>

record comm_run =
  isServer :: bool
  commNet :: "net_run option"
  commNext :: "stage_id option"

definition comm_initialize :: "(nat \<Rightarrow> bool) \<Rightarrow> ini \<Rightarrow> stage_id list \<Rightarrow> conn_settings \<Rightarrow> nat set \<Rightarrow> nat set \<Rightarrow> nat
    \<Rightarrow> comm_run \<Rightarrow> (bool \<times> comm_run) res" where
  "comm_initialize ok i nexts c fds threads n s =
     (if length nexts \<noteq> 1 then Some (Inl Assert_failed)
      else let s1 = s\<lparr>commNext := Some (hd nexts)\<rparr>;
               (rc, nt) = (if isServer s1 then NetServer_setup ok i (NetServer_new (ucast (mPort (gLocalEp c))) fds threads n)
                           else Net_setup ok i (Net_new fds threads n))
           in ret (rc = SETUP_OK, s1\<lparr>commNet := Some nt\<rparr>))"

definition comm_cleanup :: "comm_run \<Rightarrow> comm_run res" where
  "comm_cleanup s =
     (case commNet s of
        None \<Rightarrow> Some (Inl Dangling)
      | Some nt \<Rightarrow>
          thenr (if isServer s then NetServer_shutdown nt else Net_shutdown nt) (\<lambda>(rc, nt1).
          thenr (Net_delete nt1) (\<lambda>nt2. ret (s\<lparr>commNet := None\<rparr>))))"
section \<open>What is started is stopped\<close>

definition net_fds :: "net_run \<Rightarrow> nat set" where
  "net_fds s = {fst (recvPfd s), snd (recvPfd s), recvEpfd s, fst (sendPfd s), snd (sendPfd s), sendEpfd s}"

definition data_tids :: "net_run \<Rightarrow> nat set" where
  "data_tids s = {t. \<exists>p q. dataParams s p = Some (t, q)}"

text \<open>The threads of a network that is starting or running, beside those (\<open>ths\<close>) of the rest of the
  program.\<close>

definition threads_up :: "nat set \<Rightarrow> net_run \<Rightarrow> bool" where
  "threads_up ths s \<longleftrightarrow> distinct (sendDataThreads s @ recvDataThreads s)
     \<and> dom (dataParams s) = set (sendDataThreads s) \<union> set (recvDataThreads s)
     \<and> (\<forall>p\<in>dom (dataParams s). p < nextId s) \<and> (\<forall>t\<in>ths. t < nextId s)
     \<and> liveThreads s = ths \<union> {recvThreadId s, sendThreadId s} \<union> data_tids s
     \<and> ths \<inter> ({recvThreadId s, sendThreadId s} \<union> data_tids s) = {}"

definition net_up :: "nat set \<Rightarrow> nat set \<Rightarrow> net_run \<Rightarrow> bool" where
  "net_up fds ths s \<longleftrightarrow> initFlag s \<and> \<not> shutdownFlag s \<and> threads_up ths s
     \<and> openFds s = fds \<union> net_fds s \<union> set_option (mListenSock s) \<and> fds \<inter> (net_fds s \<union> set_option (mListenSock s)) = {}
     \<and> net_fds s \<inter> set_option (mListenSock s) = {}"

lemmas kernel_calls = syscall_def open_fd_def sys_pipe_def sys_thread_def createSelector_def setupListener_def Let_def

text \<open>What the starting of threads leaves alone, and what the making of descriptors leaves alone.\<close>

definition same_net :: "net_run \<Rightarrow> net_run \<Rightarrow> bool" where
  "same_net s s' \<longleftrightarrow> openFds s' = openFds s \<and> net_fds s' = net_fds s \<and> mListenSock s' = mListenSock s
     \<and> initFlag s' = initFlag s \<and> shutdownFlag s' = shutdownFlag s"

definition same_threads :: "net_run \<Rightarrow> net_run \<Rightarrow> bool" where
  "same_threads s s' \<longleftrightarrow> liveThreads s' = liveThreads s \<and> sendDataThreads s' = sendDataThreads s
     \<and> recvDataThreads s' = recvDataThreads s \<and> dataParams s' = dataParams s
     \<and> initFlag s' = initFlag s \<and> shutdownFlag s' = shutdownFlag s"

lemma setupSelectors_True:
  assumes "setupSelectors ok s = (True, s')"
  shows "net_fds s' = {nextId s ..< nextId s + 6}" "openFds s' = openFds s \<union> {nextId s ..< nextId s + 6}"
    "nextId s' = nextId s + 6" "mListenSock s' = mListenSock s" "same_threads s s'"
proof -
  have r: "{n ..< n + 6} = {n, n + 1, n + 2, n + 3, n + 4, n + 5}" for n :: nat by auto
  show "net_fds s' = {nextId s ..< nextId s + 6}" "openFds s' = openFds s \<union> {nextId s ..< nextId s + 6}"
    "nextId s' = nextId s + 6" "mListenSock s' = mListenSock s" "same_threads s s'"
    using assms unfolding r
    by (auto simp: setupSelectors_def kernel_calls net_fds_def same_threads_def split: if_splits)
qed

lemma startDataThread_True:
  assumes "startDataThread ok isSend s = (True, s')"
  shows "sendDataThreads s' = (if isSend then sendDataThreads s @ [nextId s] else sendDataThreads s)"
    "recvDataThreads s' = (if isSend then recvDataThreads s else recvDataThreads s @ [nextId s])"
    "dataParams s' = (dataParams s)(nextId s \<mapsto> (nextId s + 1, []))"
    "liveThreads s' = insert (nextId s + 1) (liveThreads s)" "nextId s' = nextId s + 2"
    "recvThreadId s' = recvThreadId s" "sendThreadId s' = sendThreadId s" "same_net s s'"
proof -
  have ok: "ok (calls s)" using assms by (rule contrapos_pp) (simp add: startDataThread_def kernel_calls)
  have s': "s' = snd (startDataThread ok isSend s)" using assms by simp
  show "sendDataThreads s' = (if isSend then sendDataThreads s @ [nextId s] else sendDataThreads s)"
    "recvDataThreads s' = (if isSend then recvDataThreads s else recvDataThreads s @ [nextId s])"
    "dataParams s' = (dataParams s)(nextId s \<mapsto> (nextId s + 1, []))"
    "liveThreads s' = insert (nextId s + 1) (liveThreads s)" "nextId s' = nextId s + 2"
    "recvThreadId s' = recvThreadId s" "sendThreadId s' = sendThreadId s" "same_net s s'"
    unfolding s' using ok by (simp_all add: startDataThread_def kernel_calls same_net_def net_fds_def)
qed

lemma startDataThread_up:
  assumes "startDataThread ok isSend s = (True, s')" and "threads_up ths s"
  shows "threads_up ths s'"
proof -
  have fresh: "dataParams s (nextId s) = None" "nextId s \<notin> set (sendDataThreads s)" "nextId s \<notin> set (recvDataThreads s)"
  proof -
    have d: "dom (dataParams s) = set (sendDataThreads s) \<union> set (recvDataThreads s)"
      and lt: "\<forall>p\<in>dom (dataParams s). p < nextId s" using assms(2) by (simp_all add: threads_up_def)
    have "nextId s \<notin> dom (dataParams s)" using lt by (metis less_irrefl)
    then show "dataParams s (nextId s) = None" "nextId s \<notin> set (sendDataThreads s)" "nextId s \<notin> set (recvDataThreads s)"
      using d by (simp_all add: domIff, blast+)
  qed
  have t: "data_tids s' = insert (nextId s + 1) (data_tids s)"
  proof (intro set_eqI iffI)
    fix x assume "x \<in> data_tids s'"
    then show "x \<in> insert (nextId s + 1) (data_tids s)"
      by (auto simp: startDataThread_True(3) [OF assms(1)] data_tids_def split: if_splits)
  next
    fix x assume x: "x \<in> insert (nextId s + 1) (data_tids s)"
    show "x \<in> data_tids s'"
    proof (cases "x = nextId s + 1")
      case False
      then obtain p q where p: "dataParams s p = Some (x, q)" using x by (auto simp: data_tids_def)
      then have "p \<noteq> nextId s" using fresh(1) by auto
      then have "dataParams s' p = Some (x, q)" using p by (simp add: startDataThread_True(3) [OF assms(1)])
      then show ?thesis unfolding data_tids_def by blast
    qed (auto simp: startDataThread_True(3) [OF assms(1)] data_tids_def)
  qed
  have "nextId s + 1 \<notin> ths" using assms(2) unfolding threads_up_def by fastforce
  note u = assms(2) [unfolded threads_up_def] and r = startDataThread_True [OF assms(1)]
  have "distinct (sendDataThreads s' @ recvDataThreads s')" unfolding r using u fresh by (cases isSend) auto
  moreover have "dom (dataParams s') = set (sendDataThreads s') \<union> set (recvDataThreads s')"
    unfolding r using u by (cases isSend) auto
  moreover have "\<forall>p\<in>dom (dataParams s'). p < nextId s'"
  proof
    fix p assume "p \<in> dom (dataParams s')"
    then have "p = nextId s \<or> p \<in> dom (dataParams s)" unfolding r by auto
    then have "p \<le> nextId s" using u [THEN conjunct2, THEN conjunct2, THEN conjunct1] by (metis less_or_eq_imp_le)
    then show "p < nextId s'" unfolding r(5) by simp
  qed
  moreover have "\<forall>t\<in>ths. t < nextId s'" unfolding r(5)
    using u [THEN conjunct2, THEN conjunct2, THEN conjunct2, THEN conjunct1] by (simp add: less_SucI)
  moreover have "liveThreads s' = ths \<union> {recvThreadId s', sendThreadId s'} \<union> data_tids s'" unfolding r t using u by auto
  moreover have "ths \<inter> ({recvThreadId s', sendThreadId s'} \<union> data_tids s') = {}"
    unfolding r t using u \<open>nextId s + 1 \<notin> ths\<close> by auto
  ultimately show ?thesis unfolding threads_up_def by blast
qed

lemma start_data_threads_up:
  "start_data_threads ok n s = (True, s') \<Longrightarrow> threads_up ths s \<Longrightarrow> threads_up ths s' \<and> same_net s s'"
proof (induction n arbitrary: s)
  case (Suc n)
  from Suc.prems(1) obtain s1 s2 where s: "startDataThread ok True s = (True, s1)" "startDataThread ok False s1 = (True, s2)"
      "start_data_threads ok n s2 = (True, s')" by (auto split: prod.splits bool.splits)
  have "threads_up ths s2" using startDataThread_up s(1,2) Suc.prems(2) by blast
  then have "threads_up ths s' \<and> same_net s2 s'" using Suc.IH [OF s(3)] by blast
  moreover have "same_net s s1" "same_net s1 s2" using startDataThread_True(8) s(1,2) by blast+
  ultimately show ?case by (simp add: same_net_def)
qed (simp add: same_net_def)

lemma startThreads_up:
  assumes "startThreads ok i s = (True, s')" and "liveThreads s = ths" "\<forall>t\<in>ths. t < nextId s"
    and "sendDataThreads s = []" "recvDataThreads s = []" "dataParams s = Map.empty"
  shows "threads_up ths s' \<and> same_net s s'"
proof -
  let ?t = "nextId s"
  obtain s1 where s1: "start_data_threads ok (nat (fst (strToVal_int (ini_get ''NetThreadCount'' ''8'' ''Default'' i)))) s1 = (True, s')"
    "liveThreads s1 = insert (?t + 1) (insert ?t ths)" "recvThreadId s1 = ?t" "sendThreadId s1 = ?t + 1" "nextId s1 = ?t + 2"
    "sendDataThreads s1 = []" "recvDataThreads s1 = []" "dataParams s1 = Map.empty" "same_net s s1"
  proof -
    let ?s1 = "s\<lparr>calls := calls s + 1, liveThreads := insert ?t ths, nextId := ?t + 1, recvThreadId := ?t\<rparr>"
    let ?s2 = "?s1\<lparr>calls := calls s + 2, liveThreads := insert (?t + 1) (insert ?t ths), nextId := ?t + 2, sendThreadId := ?t + 1\<rparr>"
    have "sys_thread ok s = (Some ?t, s\<lparr>calls := calls s + 1, liveThreads := insert ?t ths, nextId := ?t + 1\<rparr>)"
      using assms(1,2) by (auto simp: startThreads_def kernel_calls split: if_splits)
    moreover have "sys_thread ok ?s1 = (Some (?t + 1), ?s1\<lparr>calls := calls s + 2, liveThreads := insert (?t + 1) (insert ?t ths), nextId := ?t + 2\<rparr>)"
      using assms(1,2) by (auto simp: startThreads_def kernel_calls split: if_splits)
    ultimately have "start_data_threads ok (nat (fst (strToVal_int (ini_get ''NetThreadCount'' ''8'' ''Default'' i)))) ?s2 = (True, s')"
      using assms(1) by (simp add: startThreads_def)
    then show thesis by (rule that) (use assms(4-6) in \<open>simp_all add: same_net_def net_fds_def\<close>)
  qed
  have "threads_up ths s1" using s1 assms(3) by (auto simp: threads_up_def data_tids_def)
  then have "threads_up ths s' \<and> same_net s1 s'" using start_data_threads_up [OF s1(1)] by blast
  then show ?thesis using s1(9) by (simp add: same_net_def)
qed

lemma net_up_init:
  assumes "threads_up ths s" "same_net s0 s" "openFds s0 = fds \<union> net_fds s0 \<union> set_option (mListenSock s0)"
    "fds \<inter> (net_fds s0 \<union> set_option (mListenSock s0)) = {}" "net_fds s0 \<inter> set_option (mListenSock s0) = {}" "\<not> shutdownFlag s0"
  shows "net_up fds ths (s\<lparr>initFlag := True\<rparr>)"
proof -
  have "threads_up ths (s\<lparr>initFlag := True\<rparr>)" "net_fds (s\<lparr>initFlag := True\<rparr>) = net_fds s"
    using assms(1) by (simp_all add: threads_up_def data_tids_def net_fds_def)
  then show ?thesis using assms(2-6) by (simp add: net_up_def same_net_def)
qed

lemma Net_setup_up:
  assumes "Net_setup ok i (Net_new fds ths n) = (SETUP_OK, s)" and "\<forall>x\<in>fds \<union> ths. x < n"
  shows "net_up fds ths s \<and> mListenSock s = None"
proof -
  obtain s1 s2 where s: "setupSelectors ok (Net_new fds ths n) = (True, s1)" "startThreads ok i s1 = (True, s2)"
      "s = s2\<lparr>initFlag := True\<rparr>"
    using assms(1) by (auto simp: Net_setup_def Net_new_def split: prod.splits bool.splits)
  have new: "openFds (Net_new fds ths n) = fds" "nextId (Net_new fds ths n) = n" "mListenSock (Net_new fds ths n) = None"
      "liveThreads (Net_new fds ths n) = ths" "sendDataThreads (Net_new fds ths n) = []" "recvDataThreads (Net_new fds ths n) = []"
      "dataParams (Net_new fds ths n) = Map.empty" "\<not> shutdownFlag (Net_new fds ths n)" by (simp_all add: Net_new_def)
  note s1 = setupSelectors_True [OF s(1), unfolded new]
  have t: "threads_up ths s2 \<and> same_net s1 s2"
  proof (rule startThreads_up [OF s(2)])
    show "\<forall>t\<in>ths. t < nextId s1" unfolding s1(3) using assms(2) by (auto intro: trans_less_add1)
  qed (use s1 new in \<open>simp_all add: same_threads_def\<close>)
  have "x < n" if "x \<in> fds" for x using assms(2) that by blast
  then have "fds \<inter> {n ..< n + 6} = {}" by fastforce
  then have "net_up fds ths s" unfolding s(3)
    using t s1 new by (intro net_up_init [of ths s2 s1]) (simp_all add: same_threads_def)
  then show ?thesis using t s1(4) by (simp add: s(3) same_net_def)
qed

lemma NetServer_setup_up:
  assumes "NetServer_setup ok i (NetServer_new port fds ths n) = (SETUP_OK, s)" and "\<forall>x\<in>fds \<union> ths. x < n"
  shows "net_up fds ths s"
proof -
  let ?new = "NetServer_new port fds ths n"
  obtain s1 s2 s3 s4 where s: "setupSelectors ok ?new = (True, s1)" "setupListener ok s1 = (True, s2)"
      "syscall ok s2 = (True, s3)" "startThreads ok i s3 = (True, s4)" "s = s4\<lparr>initFlag := True\<rparr>"
    using assms(1) by (auto simp: NetServer_setup_def NetServer_new_def Net_new_def split: prod.splits bool.splits if_splits)
  have new: "openFds ?new = fds" "nextId ?new = n" "liveThreads ?new = ths" "sendDataThreads ?new = []" "recvDataThreads ?new = []"
      "dataParams ?new = Map.empty" "\<not> shutdownFlag ?new" by (simp_all add: NetServer_new_def Net_new_def)
  note s1 = setupSelectors_True [OF s(1), unfolded new]
  have s3: "mListenSock s3 = Some (n + 6)" "openFds s3 = insert (n + 6) (openFds s1)" "nextId s3 = n + 7"
      "net_fds s3 = net_fds s1" "same_threads s1 s3"
    using s(2,3) s1(3) by (auto simp: kernel_calls same_threads_def net_fds_def split: if_splits)
  have t: "threads_up ths s4 \<and> same_net s3 s4"
  proof (rule startThreads_up [OF s(4)])
    show "\<forall>t\<in>ths. t < nextId s3" unfolding s3(3) using assms(2) by (auto intro: trans_less_add1)
  qed (use s1 s3 new in \<open>simp_all add: same_threads_def\<close>)
  have "x < n" if "x \<in> fds" for x using assms(2) that by blast
  then have "fds \<inter> {n ..< n + 6} = {}" "n + 6 \<notin> fds" by fastforce+
  then show ?thesis unfolding s(5)
    using t s1 s3 new by (intro net_up_init [of ths s4 s3]) (auto simp: same_threads_def)
qed

text \<open>Telling the data threads and joining them.\<close>

lemma tell_all:
  assumes "set ps \<subseteq> dom (dataParams s)"
  shows "\<exists>h. for_all tell ps s = ret (s\<lparr>dataParams := h\<rparr>) \<and> dom h = dom (dataParams s)
    \<and> (\<forall>p t q. dataParams s p = Some (t, q) \<longrightarrow> (\<exists>q'. h p = Some (t, q') \<and> set q \<subseteq> set q' \<and> (p \<in> set ps \<longrightarrow> -1 \<in> set q')))"
  using assms
proof (induction ps arbitrary: s)
  case Nil
  have "for_all tell [] s = ret (s\<lparr>dataParams := dataParams s\<rparr>)" by simp
  then show ?case by (intro exI [of _ "dataParams s"]) simp
next
  case (Cons p ps)
  obtain t q where p: "dataParams s p = Some (t, q)" using Cons.prems by auto
  let ?h = "(dataParams s)(p \<mapsto> (t, q @ [- 1]))"
  have sub: "set ps \<subseteq> dom (dataParams (s\<lparr>dataParams := ?h\<rparr>))" using Cons.prems by auto
  have "\<exists>h. for_all tell ps (s\<lparr>dataParams := ?h\<rparr>) = ret (s\<lparr>dataParams := h\<rparr>) \<and> dom h = dom ?h
    \<and> (\<forall>p t q. ?h p = Some (t, q) \<longrightarrow> (\<exists>q'. h p = Some (t, q') \<and> set q \<subseteq> set q' \<and> (p \<in> set ps \<longrightarrow> -1 \<in> set q')))"
    using Cons.IH [OF sub] by (simp del: fun_upd_apply dom_fun_upd)
  then obtain h where h: "for_all tell ps (s\<lparr>dataParams := ?h\<rparr>) = ret (s\<lparr>dataParams := h\<rparr>)" "dom h = dom ?h"
    "\<forall>k t q. ?h k = Some (t, q) \<longrightarrow> (\<exists>q'. h k = Some (t, q') \<and> set q \<subseteq> set q' \<and> (k \<in> set ps \<longrightarrow> -1 \<in> set q'))"
    by blast
  have "\<exists>q'. h k = Some (t', q') \<and> set q0 \<subseteq> set q' \<and> (k \<in> set (p # ps) \<longrightarrow> -1 \<in> set q')"
    if "dataParams s k = Some (t', q0)" for k t' q0
  proof (cases "k = p")
    case True
    then have "?h k = Some (t', q0 @ [- 1])" using p that by simp
    with h(3) have "\<exists>q'. h k = Some (t', q') \<and> set (q0 @ [- 1]) \<subseteq> set q'" by blast
    then show ?thesis by auto
  next
    case False
    then have "?h k = Some (t', q0)" using that by simp
    with h(3) show ?thesis using False by (metis set_ConsD)
  qed
  moreover have "for_all tell (p # ps) s = ret (s\<lparr>dataParams := h\<rparr>)" using h(1) p by (simp add: tell_def)
  ultimately show ?case using h(2) p by (intro exI [of _ h]) auto
qed

lemma join_all:
  assumes "distinct ps" and "\<forall>p\<in>set ps. \<exists>t q. dataParams s p = Some (t, q) \<and> -1 \<in> set q"
  shows "for_all join_data ps s = ret (s\<lparr>liveThreads := liveThreads s - {t. \<exists>p\<in>set ps. \<exists>q. dataParams s p = Some (t, q)},
    dataParams := dataParams s |` (- set ps)\<rparr>)"
  using assms
proof (induction ps arbitrary: s)
  case (Cons p ps)
  obtain t q where p: "dataParams s p = Some (t, q)" "-1 \<in> set q" using Cons.prems(2) by auto
  let ?s = "s\<lparr>liveThreads := liveThreads s - {t}, dataParams := (dataParams s)(p := None)\<rparr>"
  have "join_data p s = ret ?s" using p by (auto simp: join_data_def intro!: bexI [of _ "- 1"])
  moreover have "for_all join_data ps ?s = ret (?s\<lparr>liveThreads := liveThreads ?s - {t. \<exists>p\<in>set ps. \<exists>q. dataParams ?s p = Some (t, q)},
    dataParams := dataParams ?s |` (- set ps)\<rparr>)"
    by (rule Cons.IH) (use Cons.prems in auto)
  moreover have "liveThreads ?s - {t. \<exists>k\<in>set ps. \<exists>q. dataParams ?s k = Some (t, q)}
      = liveThreads s - {t. \<exists>k\<in>set (p # ps). \<exists>q. dataParams s k = Some (t, q)}"
    using Cons.prems(1) p(1) by auto
  moreover have "dataParams ?s |` (- set ps) = dataParams s |` (- set (p # ps))"
    by (auto simp: restrict_map_def fun_eq_iff)
  ultimately show ?case by simp
next
  case Nil
  have "s\<lparr>liveThreads := liveThreads s, dataParams := dataParams s\<rparr> = s" by (cases s) simp
  then show ?case by simp
qed

lemma cleanupThreads_up:
  assumes "threads_up ths s"
  shows "cleanupThreads s = ret (s\<lparr>dataParams := Map.empty, sendDataThreads := [], recvDataThreads := [],
    liveThreads := liveThreads s - data_tids s\<rparr>)"
proof -
  let ?S = "sendDataThreads s" and ?R = "recvDataThreads s"
  note u = assms [unfolded threads_up_def]
  obtain h where h: "for_all tell ?S s = ret (s\<lparr>dataParams := h\<rparr>)" "dom h = dom (dataParams s)"
    "\<forall>p t q. dataParams s p = Some (t, q) \<longrightarrow> (\<exists>q'. h p = Some (t, q') \<and> set q \<subseteq> set q' \<and> (p \<in> set ?S \<longrightarrow> -1 \<in> set q'))"
    using tell_all [of ?S s] u by auto
  obtain g where g: "for_all tell ?R (s\<lparr>dataParams := h\<rparr>) = ret (s\<lparr>dataParams := g\<rparr>)" "dom g = dom h"
    "\<forall>p t q. h p = Some (t, q) \<longrightarrow> (\<exists>q'. g p = Some (t, q') \<and> set q \<subseteq> set q' \<and> (p \<in> set ?R \<longrightarrow> -1 \<in> set q'))"
    using tell_all [of ?R "s\<lparr>dataParams := h\<rparr>"] u h(2) by auto
  have told: "\<exists>q'. g p = Some (t, q') \<and> -1 \<in> set q'" if D: "dataParams s p = Some (t, q)" for p t q
  proof -
    obtain q1 where q1: "h p = Some (t, q1)" "p \<in> set ?S \<longrightarrow> -1 \<in> set q1" using h(3) D by blast
    then obtain q2 where "g p = Some (t, q2)" "set q1 \<subseteq> set q2" "p \<in> set ?R \<longrightarrow> -1 \<in> set q2" using g(3) by blast
    moreover have "p \<in> set ?S \<or> p \<in> set ?R" using D u by blast
    ultimately show ?thesis using q1(2) by blast
  qed
  have all: "\<exists>t q. g p = Some (t, q) \<and> -1 \<in> set q" if "p \<in> set ?S \<union> set ?R" for p
  proof -
    have "p \<in> dom (dataParams s)" using that u by simp
    then obtain t q where "dataParams s p = Some (t, q)" by auto
    then show ?thesis using told by blast
  qed
  have same: "(\<exists>q. g p = Some (t, q)) \<longleftrightarrow> (\<exists>q. dataParams s p = Some (t, q))" for p t
  proof
    assume "\<exists>q. g p = Some (t, q)"
    then obtain q where q: "g p = Some (t, q)" by blast
    then obtain t' q' where d: "dataParams s p = Some (t', q')"
    proof -
      have "p \<in> dom (dataParams s)" using q g(2) h(2) by blast
      then show thesis using that by auto
    qed
    then show "\<exists>q. dataParams s p = Some (t, q)" using told [OF d] q by auto
  qed (use told in blast)
  let ?s3 = "s\<lparr>liveThreads := liveThreads s - {t. \<exists>p\<in>set ?S. \<exists>q. g p = Some (t, q)}, dataParams := g |` (- set ?S)\<rparr>"
  have j1: "for_all join_data ?S (s\<lparr>dataParams := g\<rparr>) = ret ?s3"
    using join_all [of ?S "s\<lparr>dataParams := g\<rparr>"] all u by simp
  let ?s3' = "?s3\<lparr>sendDataThreads := []\<rparr>"
  have r: "p \<in> - set ?S" if "p \<in> set ?R" for p using that u by auto
  have "\<forall>p\<in>set ?R. \<exists>t q. dataParams ?s3' p = Some (t, q) \<and> -1 \<in> set q" using all r by (simp add: restrict_map_def)
  then have j2: "for_all join_data ?R ?s3' = ret (?s3'\<lparr>liveThreads := liveThreads ?s3' - {t. \<exists>p\<in>set ?R. \<exists>q. dataParams ?s3' p = Some (t, q)},
      dataParams := dataParams ?s3' |` (- set ?R)\<rparr>)"
    using u by (intro join_all) auto
  have l: "liveThreads ?s3' - {t. \<exists>p\<in>set ?R. \<exists>q. dataParams ?s3' p = Some (t, q)} = liveThreads s - data_tids s"
  proof -
    have "{t. \<exists>p\<in>set ?R. \<exists>q. dataParams ?s3' p = Some (t, q)} = {t. \<exists>p\<in>set ?R. \<exists>q. dataParams s p = Some (t, q)}"
      using r same by (auto simp: restrict_map_def)
    moreover have "data_tids s = {t. \<exists>p\<in>set ?S \<union> set ?R. \<exists>q. dataParams s p = Some (t, q)}"
      using u by (auto simp: data_tids_def)
    ultimately show ?thesis using same by auto
  qed
  have d: "dataParams ?s3' |` (- set ?R) = Map.empty"
  proof
    fix p
    have "dom g = set ?S \<union> set ?R" unfolding g(2) h(2) using u [THEN conjunct2, THEN conjunct1] .
    then have "g p = None" if "p \<notin> set ?S" "p \<notin> set ?R" using that by (metis Un_iff domIff)
    then show "(dataParams ?s3' |` (- set ?R)) p = None" by (simp add: restrict_map_def)
  qed
  have j2': "for_all join_data ?R ?s3' = ret (?s3'\<lparr>liveThreads := liveThreads s - data_tids s, dataParams := Map.empty\<rparr>)"
    using j2 unfolding l d .
  have e: "sendDataThreads (s\<lparr>dataParams := g\<rparr>) = ?S" "recvDataThreads (s\<lparr>dataParams := h\<rparr>) = ?R" "recvDataThreads ?s3' = ?R"
    by simp_all
  have "cleanupThreads s = ret (?s3'\<lparr>liveThreads := liveThreads s - data_tids s, dataParams := Map.empty\<rparr>\<lparr>recvDataThreads := []\<rparr>)"
    unfolding cleanupThreads_def Let_def h(1) thenr_simps e g(1) j1 j2' by (rule refl)
  then show ?thesis by (cases s) simp
qed

text \<open>The queues of the data threads change at any time.\<close>

definition with_queues :: "(nat \<Rightarrow> int list) \<Rightarrow> net_run \<Rightarrow> net_run" where
  "with_queues qs s = s\<lparr>dataParams := \<lambda>p. map_option (\<lambda>(t, _). (t, qs p)) (dataParams s p)\<rparr>"

lemma net_up_queues: "net_up fds ths s \<Longrightarrow> net_up fds ths (with_queues qs s)"
proof -
  have "data_tids (with_queues qs s) = data_tids s" by (auto simp: data_tids_def with_queues_def)
  moreover have "dom (dataParams (with_queues qs s)) = dom (dataParams s)" by (auto simp: with_queues_def)
  ultimately show "net_up fds ths s \<Longrightarrow> net_up fds ths (with_queues qs s)"
    unfolding net_up_def threads_up_def by (simp add: with_queues_def net_fds_def)
qed

lemma Net_shutdown_up:
  assumes "net_up fds ths s"
  shows "\<exists>s'. Net_shutdown s = ret (SETUP_OK, s') \<and> openFds s' = fds \<union> set_option (mListenSock s) \<and> liveThreads s' = ths
    \<and> dataParams s' = Map.empty \<and> sendDataThreads s' = [] \<and> recvDataThreads s' = []
    \<and> shutdownFlag s' \<and> \<not> initFlag s' \<and> mListenSock s' = mListenSock s"
proof -
  note u = assms [unfolded net_up_def]
  let ?s1 = "s\<lparr>dataParams := Map.empty, sendDataThreads := [], recvDataThreads := [], liveThreads := liveThreads s - data_tids s\<rparr>"
  have c: "cleanupThreads s = ret ?s1" using cleanupThreads_up u by blast
  have "liveThreads s - data_tids s - {recvThreadId s} - {sendThreadId s} = ths"
    using u unfolding threads_up_def by blast
  moreover have "openFds s - net_fds s = fds \<union> set_option (mListenSock s)" using u by blast
  ultimately show ?thesis
    using u c by (simp add: Net_shutdown_def Let_def join_epoll_def close_fds_def net_fds_def)
qed


lemma start_all_ok: "fst (start_data_threads (\<lambda>_. True) n s)"
proof (induction n arbitrary: s)
  case (Suc n)
  have "fst (startDataThread (\<lambda>_. True) b s)" for b s by (simp add: startDataThread_def kernel_calls)
  then show ?case using Suc by (auto split: prod.splits bool.splits) (metis fst_conv)+
qed simp

lemma setup_runs: "\<not> initFlag s \<Longrightarrow> fst (Net_setup (\<lambda>_. True) i s) = SETUP_OK"
proof -
  have "fst (startThreads (\<lambda>_. True) i s)" for s
    using start_all_ok by (simp add: startThreads_def kernel_calls)
  moreover have "fst (setupSelectors (\<lambda>_. True) s)" for s by (simp add: setupSelectors_def kernel_calls)
  ultimately show "\<not> initFlag s \<Longrightarrow> fst (Net_setup (\<lambda>_. True) i s) = SETUP_OK"
    by (auto simp: Net_setup_def split: prod.splits bool.splits) (metis fst_conv)+
qed


section \<open>When starting fails\<close>

text \<open>A setup that fails leaves what it has made: the shutdown refuses, and a second setup makes it all
  again. Here the tenth call, the first data thread of the receivers, fails.\<close>

lemma default_thread_count: "nat (fst (strToVal_int (ini_get ''NetThreadCount'' ''8'' ''Default'' CIni_empty))) = Suc 7"
  by code_simp

lemma failed_setup_leaks:
  "(case Net_setup (\<lambda>k. k \<noteq> 9) CIni_empty (Net_new {} {} 1) of
      (rc, s) \<Rightarrow> rc = NET_ERR_THREAD \<and> openFds s = {1, 2, 3, 4, 5, 6} \<and> liveThreads s = {7, 8, 10}
        \<and> sendDataThreads s = [] \<and> recvDataThreads s = [11] \<and> dataParams s 9 = Some (10, []) \<and> dataParams s 11 = None
        \<and> Net_shutdown s = ret (ERR_EINVAL, s))"
  unfolding Net_setup_def startThreads_def default_thread_count start_data_threads.simps(2)
  by (simp add: setupSelectors_def startDataThread_def kernel_calls Net_new_def Net_shutdown_def) auto

text \<open>After one shutdown the flag stays set: a network set up again is never shut down.\<close>

lemma second_shutdown_refused: "shutdownFlag s \<Longrightarrow> Net_shutdown s = ret (ERR_EINVAL, s)"
  by (simp add: Net_shutdown_def)

lemma setup_keeps_shutdown_flag: "Net_setup ok i s = (SETUP_OK, s') \<Longrightarrow> \<not> initFlag s \<Longrightarrow> shutdownFlag s \<Longrightarrow> initFlag s'"
  by (auto simp: Net_setup_def split: prod.splits bool.splits)

text \<open>A block size that is no number becomes 0, and every message is then divided by it.\<close>

lemma bad_block_size: "gMaxBlockSize (setSocketProperty [(''one_block_buffer_size'', ''64M'')] c) = 64"
    "gMaxBlockSize (setSocketProperty [(''one_block_buffer_size'', ''large'')] c) = 0"
  by (simp_all add: setSocketProperty_def int_property_def setMaxBlockSize_def strToVal_int_def stream_number_def
      digit_def isspace_def Let_def)
end
