(* ===== verification/Log.thy ===== *)
theory Log
  imports DateTime
begin

text \<open>
  The log (include/trace/log.h, src/trace/log.cpp): what is printed and written for a level and a
  module, and the rotation of the log files by day and by size. The file system maps names to contents;
  \<open>can_open\<close> and \<open>can_rename\<close> tell for which names opening and renaming succeed. The output stream is
  the name of the open file and its fail bit; the stream is closed before its file is renamed, so a name
  is enough. Text is written with the formatting done; the mutex is taken around whole operations.
\<close>

section \<open>State\<close>

definition LOG_STATUS_OK :: int where "LOG_STATUS_OK = 0"
definition LOG_STATUS_ERR :: int where "LOG_STATUS_ERR = 1"
definition LOG_MAX_LINE :: int where "LOG_MAX_LINE = 100000"

definition LOG_LEVEL_PANIC :: int where "LOG_LEVEL_PANIC = 0"
definition LOG_LEVEL_ERR :: int where "LOG_LEVEL_ERR = 1"
definition LOG_LEVEL_WARN :: int where "LOG_LEVEL_WARN = 2"
definition LOG_LEVEL_INFO :: int where "LOG_LEVEL_INFO = 3"
definition LOG_LEVEL_DEBUG :: int where "LOG_LEVEL_DEBUG = 4"
definition LOG_LEVEL_TRACE :: int where "LOG_LEVEL_TRACE = 5"
definition LOG_LEVEL_LAST :: int where "LOG_LEVEL_LAST = 6"

definition LOG_ROTATE_BYDAY :: int where "LOG_ROTATE_BYDAY = 0"
definition LOG_ROTATE_BYSIZE :: int where "LOG_ROTATE_BYSIZE = 1"
definition LOG_ROTATE_LAST :: int where "LOG_ROTATE_LAST = 2"

record clog =
  mLogName :: string
  mLogLevel :: int
  mConsoleLevel :: int
  ofsOpen :: "string option"
  ofsFail :: bool
  mLogDate :: "int \<times> int \<times> int"
  mLogLine :: int
  mLogMaxLine :: int
  mRotateType :: int
  mDefaultSet :: "string set"
  logFiles :: "string \<Rightarrow> string option"
  console :: string

text \<open>The constructor: \<open>None\<close> is a failed assertion of \<^verbatim>\<open>CheckParamValid\<close>. \<^verbatim>\<open>touch\<close> makes the file.\<close>

definition CheckParamValid :: "(string \<Rightarrow> bool) \<Rightarrow> clog \<Rightarrow> clog option" where
  "CheckParamValid can_open s =
     (if mLogName s = [] \<or> \<not> can_open (mLogName s) \<or> \<not> (LOG_LEVEL_PANIC \<le> mLogLevel s \<and> mLogLevel s < LOG_LEVEL_LAST)
         \<or> \<not> (LOG_LEVEL_PANIC \<le> mConsoleLevel s \<and> mConsoleLevel s < LOG_LEVEL_LAST)
      then None
      else Some (s\<lparr>logFiles := (logFiles s)(mLogName s :=
             Some (case logFiles s (mLogName s) of None \<Rightarrow> [] | Some t \<Rightarrow> t))\<rparr>))"

definition CLog_new :: "(string \<Rightarrow> bool) \<Rightarrow> string \<Rightarrow> int \<Rightarrow> int \<Rightarrow> (string \<Rightarrow> string option) \<Rightarrow> clog option" where
  "CLog_new can_open name level consoleLevel fs =
     CheckParamValid can_open \<lparr>mLogName = name, mLogLevel = level, mConsoleLevel = consoleLevel, ofsOpen = None,
       ofsFail = False, mLogDate = (-1, -1, -1), mLogLine = -1, mLogMaxLine = LOG_MAX_LINE,
       mRotateType = LOG_ROTATE_BYDAY, mDefaultSet = {}, logFiles = fs, console = []\<rparr>"

section \<open>Settings\<close>

definition SetConsoleLevel :: "int \<Rightarrow> clog \<Rightarrow> int \<times> clog" where
  "SetConsoleLevel level s =
     (if LOG_LEVEL_PANIC \<le> level \<and> level < LOG_LEVEL_LAST then (LOG_STATUS_OK, s\<lparr>mConsoleLevel := level\<rparr>)
      else (LOG_STATUS_ERR, s))"

definition SetLogLevel :: "int \<Rightarrow> clog \<Rightarrow> int \<times> clog" where
  "SetLogLevel level s =
     (if LOG_LEVEL_PANIC \<le> level \<and> level < LOG_LEVEL_LAST then (LOG_STATUS_OK, s\<lparr>mLogLevel := level\<rparr>)
      else (LOG_STATUS_ERR, s))"

definition PrefixMsg :: "int \<Rightarrow> string" where
  "PrefixMsg level =
     (if LOG_LEVEL_PANIC \<le> level \<and> level < LOG_LEVEL_LAST
      then [''PANIC:'', ''ERROR:'', ''WARNNING:'', ''INFO:'', ''DEBUG:'', ''TRACE:''] ! nat level else [])"

definition SetDefaultModule :: "string \<Rightarrow> clog \<Rightarrow> clog" where
  "SetDefaultModule modules s = s\<lparr>mDefaultSet := splitString_set modules '','' (mDefaultSet s)\<rparr>"

definition SetRotateType :: "int \<Rightarrow> clog \<Rightarrow> int \<times> clog" where
  "SetRotateType t s =
     (if LOG_ROTATE_BYDAY \<le> t \<and> t < LOG_ROTATE_LAST then (LOG_STATUS_OK, s\<lparr>mRotateType := t\<rparr>)
      else (LOG_STATUS_OK, s))"

section \<open>Output\<close>

definition CheckOutput :: "int \<Rightarrow> string \<Rightarrow> clog \<Rightarrow> bool" where
  "CheckOutput level module s =
     (if LOG_LEVEL_LAST > level \<and> level \<le> mConsoleLevel s then True
      else if LOG_LEVEL_LAST > level \<and> level \<le> mLogLevel s then True
      else if module \<in> mDefaultSet s then True else False)"

text \<open>\<^verbatim>\<open>mOfs << t\<close>: nothing is written without an open file or with the fail bit set.\<close>

definition ofs_write :: "string \<Rightarrow> clog \<Rightarrow> clog" where
  "ofs_write t s =
     (case ofsOpen s of
        None \<Rightarrow> s\<lparr>ofsFail := True\<rparr>
      | Some f \<Rightarrow> if ofsFail s then s
          else s\<lparr>logFiles := (logFiles s)(f := Some ((case logFiles s f of None \<Rightarrow> [] | Some c \<Rightarrow> c) @ t))\<rparr>)"

definition Output :: "int \<Rightarrow> string \<Rightarrow> string \<Rightarrow> string \<Rightarrow> clog \<Rightarrow> int \<times> clog" where
  "Output level module prefix text s =
     (let msg = take 1023 (cstr text);
          s1 = (if LOG_LEVEL_PANIC \<le> level \<and> level \<le> mConsoleLevel s then s\<lparr>console := console s @ msg @ [CHR 0x0A]\<rparr>
                else if module \<in> mDefaultSet s then s\<lparr>console := console s @ msg @ [CHR 0x0A]\<rparr>
                else s);
          write = (\<lambda>s. (ofs_write [CHR 0x0A] (ofs_write msg (ofs_write prefix s)))\<lparr>mLogLine := mLogLine s + 1\<rparr>)
      in (LOG_STATUS_OK,
          if LOG_LEVEL_PANIC \<le> level \<and> level \<le> mLogLevel s then write s1
          else if module \<in> mDefaultSet s then write s1 else s1))"

section \<open>Rotation\<close>

definition ofs_close :: "clog \<Rightarrow> clog" where "ofs_close s = s\<lparr>ofsOpen := None\<rparr>"

text \<open>\<^verbatim>\<open>open\<close> for appending: on an open stream it only sets the fail bit.\<close>

definition ofs_open :: "(string \<Rightarrow> bool) \<Rightarrow> string \<Rightarrow> clog \<Rightarrow> clog" where
  "ofs_open can_open f s =
     (if ofsOpen s \<noteq> None \<or> \<not> can_open f then s\<lparr>ofsFail := True\<rparr>
      else s\<lparr>ofsOpen := Some f, ofsFail := False,
             logFiles := (logFiles s)(f := Some (case logFiles s f of None \<Rightarrow> [] | Some c \<Rightarrow> c))\<rparr>)"

definition pad0 :: "nat \<Rightarrow> int \<Rightarrow> string" where
  "pad0 w n = (if n < 0 then CHR ''-'' # setw (w - 1) CHR ''0'' (dec_nat (nat (- n))) else setw w CHR ''0'' (dec_nat (nat n)))"

definition RotateByDay :: "(string \<Rightarrow> bool) \<Rightarrow> int \<Rightarrow> int \<Rightarrow> int \<Rightarrow> clog \<Rightarrow> int \<times> clog" where
  "RotateByDay can_open year month day s =
     (if ofsOpen s \<noteq> None \<and> mLogDate s = (year, month, day) then (0, s)
      else
        let date = take 15 (pad0 4 year @ pad0 2 month @ pad0 2 day);
            logFileName = mLogName s @ ''.'' @ date;
            s1 = (if ofsOpen s \<noteq> None then ofs_close s else s);
            s2 = ofs_open can_open logFileName s1
        in (0, if \<not> ofsFail s2 then s2\<lparr>mLogDate := (year, month, day), mLogLine := 0\<rparr> else s2))"

definition index_name :: "string \<Rightarrow> nat \<Rightarrow> string" where
  "index_name name k = name @ ''.'' @ take 3 (pad0 3 (int k))"

text \<open>The search for the last old log: \<open>r\<close> indices are left below 999.\<close>

fun last_old_log :: "(nat \<Rightarrow> bool) \<Rightarrow> nat \<Rightarrow> nat \<Rightarrow> nat" where
  "last_old_log readable 0 logIndex = logIndex - 1"
| "last_old_log readable (Suc r) logIndex =
     (if readable logIndex then last_old_log readable r (logIndex + 1) else logIndex - 1)"

definition fs_rename :: "(string \<Rightarrow> bool) \<Rightarrow> string \<Rightarrow> string \<Rightarrow> (string \<Rightarrow> string option) \<Rightarrow> bool \<times> (string \<Rightarrow> string option)" where
  "fs_rename can_rename a b fs =
     (if fs a = None \<or> \<not> can_rename a then (False, fs) else (True, (fs(a := None))(b := fs a)))"

fun shift_logs :: "(string \<Rightarrow> bool) \<Rightarrow> string \<Rightarrow> nat \<Rightarrow> (string \<Rightarrow> string option) \<Rightarrow> bool \<times> (string \<Rightarrow> string option)" where
  "shift_logs can_rename name 0 fs = (True, fs)"
| "shift_logs can_rename name (Suc k) fs =
     (case fs_rename can_rename (index_name name (Suc k)) (index_name name (Suc k + 1)) fs of
        (False, fs') \<Rightarrow> (False, fs')
      | (True, fs') \<Rightarrow> shift_logs can_rename name k fs')"

definition RenameOldLogs :: "(string \<Rightarrow> bool) \<Rightarrow> clog \<Rightarrow> int \<times> clog" where
  "RenameOldLogs can_rename s =
     (let maxLogIndex = last_old_log (\<lambda>k. logFiles s (index_name (mLogName s) k) \<noteq> None) 998 1;
          (done, fs) = shift_logs can_rename (mLogName s) maxLogIndex (logFiles s)
      in (if done then LOG_STATUS_OK else LOG_STATUS_ERR, s\<lparr>logFiles := fs\<rparr>))"

definition RotateBySize :: "(string \<Rightarrow> bool) \<Rightarrow> (string \<Rightarrow> bool) \<Rightarrow> clog \<Rightarrow> int \<times> clog" where
  "RotateBySize can_open can_rename s =
     (if mLogLine s < 0 then (LOG_STATUS_OK, (ofs_open can_open (mLogName s) s)\<lparr>mLogLine := 0\<rparr>)
      else if 0 \<le> mLogLine s \<and> mLogLine s < mLogMaxLine s then (LOG_STATUS_OK, s)
      else
        let (result, s1) = RenameOldLogs can_rename s
        in if result \<noteq> 0 then (LOG_STATUS_OK, s1)
           else
             let s2 = (if ofsOpen s1 \<noteq> None then ofs_close s1 else s1);
                 (_, fs) = fs_rename can_rename (mLogName s2) (index_name (mLogName s2) 1) (logFiles s2);
                 s3 = ofs_open can_open (mLogName s2) (s2\<lparr>logFiles := fs\<rparr>)
             in (LOG_STATUS_OK, if \<not> ofsFail s3 then s3\<lparr>mLogLine := 0\<rparr> else s3\<lparr>mLogLine := mLogMaxLine s3\<rparr>))"

definition log_Rotate :: "(string \<Rightarrow> bool) \<Rightarrow> (string \<Rightarrow> bool) \<Rightarrow> int \<Rightarrow> int \<Rightarrow> int \<Rightarrow> clog \<Rightarrow> int \<times> clog" where
  "log_Rotate can_open can_rename year month day s =
     (if mRotateType s = LOG_ROTATE_BYDAY then RotateByDay can_open year month day s
      else RotateBySize can_open can_rename s)"

text \<open>The log macros, for a date of the caller and the text before the level.\<close>

definition LOG_HEAD :: "(string \<Rightarrow> bool) \<Rightarrow> (string \<Rightarrow> bool) \<Rightarrow> int \<times> int \<times> int \<Rightarrow> string \<Rightarrow> int \<Rightarrow> clog \<Rightarrow> string \<times> clog" where
  "LOG_HEAD can_open can_rename date head level s =
     (let s1 = snd (log_Rotate can_open can_rename (fst date) (fst (snd date)) (snd (snd date)) s)
      in (take 1023 (''['' @ head @ '' '' @ PrefixMsg level @ '']>>''), s1))"

definition LOG_OUTPUT :: "(string \<Rightarrow> bool) \<Rightarrow> (string \<Rightarrow> bool) \<Rightarrow> int \<times> int \<times> int \<Rightarrow> string \<Rightarrow> int \<Rightarrow> string \<Rightarrow> string
    \<Rightarrow> clog \<Rightarrow> clog" where
  "LOG_OUTPUT can_open can_rename date head level file text s =
     (if CheckOutput level file s then
        let (prefix, s1) = LOG_HEAD can_open can_rename date head level s
        in snd (Output level file prefix text s1)
      else s)"

definition log_Out :: "(string \<Rightarrow> bool) \<Rightarrow> (string \<Rightarrow> bool) \<Rightarrow> int \<times> int \<times> int \<Rightarrow> string \<Rightarrow> int \<Rightarrow> int \<Rightarrow> string
    \<Rightarrow> clog \<Rightarrow> int \<times> clog" where
  "log_Out can_open can_rename date head consoleLevel logLevel msg s =
     (let (prefix, s1) = LOG_HEAD can_open can_rename date head logLevel s;
          s2 = (if LOG_LEVEL_PANIC \<le> consoleLevel \<and> consoleLevel \<le> mConsoleLevel s1
                then s1\<lparr>console := console s1 @ PrefixMsg consoleLevel @ msg\<rparr> else s1);
          s3 = (if LOG_LEVEL_PANIC \<le> logLevel \<and> logLevel \<le> mLogLevel s2
                then (ofs_write msg (ofs_write prefix s2))\<lparr>mLogLine := mLogLine s2 + 1\<rparr> else s2)
      in (LOG_STATUS_OK, s3))"

definition CLog_delete :: "clog \<Rightarrow> clog" where
  "CLog_delete s = (if ofsOpen s \<noteq> None then ofs_close s else s)"

section \<open>Rotation by size keeps the log\<close>

lemma index_digits:
  assumes "k \<le> 999"
  shows "index_name name k = name @ ''.'' @ [char_of (48 + k div 100), char_of (48 + k div 10 mod 10), char_of (48 + k mod 10)]"
proof -
  have "k div 10 div 10 = k div 100" by (simp add: div_mult2_eq [symmetric])
  moreover have "dec_nat k = (if k < 10 then [char_of (48 + k)]
      else if k < 100 then [char_of (48 + k div 10), char_of (48 + k mod 10)]
      else [char_of (48 + k div 10 div 10), char_of (48 + k div 10 mod 10), char_of (48 + k mod 10)])"
  proof -
    have "10 \<le> k div 10" "k div 10 div 10 < 10" if "100 \<le> k" using that assms by simp_all
    then show ?thesis using dec_nat_small [of k] dec_nat_step [of k] dec_nat_small [of "k div 10"] dec_nat_step [of "k div 10"]
        dec_nat_small [of "k div 10 div 10"] by simp
  qed
  moreover have "CHR ''0'' = char_of (48::nat)" by (simp add: char_of_eq_iff [symmetric] eq_commute [of _ "char_of _"] char_of_eq_iff)
  ultimately show ?thesis by (auto simp: index_name_def pad0_def setw_def numeral_2_eq_2)
qed

lemma index_inj:
  assumes "j \<le> 999" "k \<le> 999" "index_name name j = index_name name k"
  shows "j = k"
proof -
  have "char_of (48 + i) = (char_of (48 + i') :: char) \<Longrightarrow> i = i'" if "i < 10" "i' < 10" for i i' :: nat
  proof -
    assume "char_of (48 + i) = (char_of (48 + i') :: char)"
    then have "of_char (char_of (48 + i) :: char) = (of_char (char_of (48 + i') :: char) :: nat)" by simp
    then show "i = i'" using that by simp
  qed
  moreover have "j div 100 < 10" "k div 100 < 10" "j div 10 mod 10 < 10" "k div 10 mod 10 < 10" "j mod 10 < 10" "k mod 10 < 10"
    using assms(1,2) by simp_all
  moreover have "char_of (48 + j div 100) = (char_of (48 + k div 100) :: char)"
    "char_of (48 + j div 10 mod 10) = (char_of (48 + k div 10 mod 10) :: char)"
    "char_of (48 + j mod 10) = (char_of (48 + k mod 10) :: char)"
    using assms(3) unfolding index_digits [OF assms(1)] index_digits [OF assms(2)] by (simp_all only: same_append_eq list.inject)
  ultimately have "j div 100 = k div 100" "j div 10 mod 10 = k div 10 mod 10" "j mod 10 = k mod 10" by blast+
  moreover have "i = 10 * (10 * (i div 100) + i div 10 mod 10) + i mod 10" for i :: nat
  proof -
    have "i div 100 = i div 10 div 10" by (simp add: div_mult2_eq [symmetric])
    then show ?thesis by (simp only: mult_div_mod_eq)
  qed
  ultimately show ?thesis by metis
qed

lemma index_not_name: "index_name name k \<noteq> name"
  by (simp add: index_name_def)

lemma last_old_log_eq:
  assumes "\<forall>k. 1 \<le> k \<and> k \<le> n \<longrightarrow> readable k" "n < 998 \<longrightarrow> \<not> readable (n + 1)" "n \<le> 998"
  shows "last_old_log readable 998 1 = n"
proof -
  have "last_old_log readable r (998 - r + 1) = n" if "r \<le> 998" "998 - r \<le> n" for r
    using that
  proof (induction r)
    case (Suc r)
    show ?case
    proof (cases "998 - Suc r = n")
      case True
      then show ?thesis using assms(2) Suc.prems by (simp add: Suc_diff_le)
    next
      case False
      then have "readable (998 - Suc r + 1)" "998 - r \<le> n" using assms(1) Suc.prems by auto
      moreover have "998 - Suc r + 1 + 1 = 998 - r + 1" using Suc.prems by simp
      ultimately show ?thesis using Suc by (simp only: last_old_log.simps if_True)
    qed
  qed (use assms(3) in simp)
  from this [of 998] show ?thesis by simp
qed

lemma shift_logs_eq:
  assumes "n \<le> 998" "\<forall>k. 1 \<le> k \<and> k \<le> n \<longrightarrow> fs (index_name name k) \<noteq> None" "\<forall>f. can_rename f"
  shows "\<exists>fs'. shift_logs can_rename name n fs = (True, fs')
    \<and> (\<forall>k. 1 \<le> k \<and> k \<le> n \<longrightarrow> fs' (index_name name (k + 1)) = fs (index_name name k))
    \<and> (0 < n \<longrightarrow> fs' (index_name name 1) = None)
    \<and> (\<forall>f. f \<notin> index_name name ` {1..n + 1} \<longrightarrow> fs' f = fs f)"
  using assms(1,2)
proof (induction n arbitrary: fs)
  case (Suc n)
  let ?I = "index_name name"
  have ne: "?I j = ?I k \<longleftrightarrow> j = k" if "j \<le> 999" "k \<le> 999" for j k using index_inj [OF that] by auto
  let ?fs = "(fs(?I (Suc n) := None))(?I (Suc n + 1) := fs (?I (Suc n)))"
  have some: "fs (?I (Suc n)) \<noteq> None" using Suc.prems(2) by (metis Suc_leI le_refl zero_less_Suc One_nat_def)
  have run: "shift_logs can_rename name (Suc n) fs = shift_logs can_rename name n ?fs"
    using some assms(3) by (auto simp: fs_rename_def)
  have keep: "?fs (?I k) = fs (?I k)" if "k \<le> n" for k using that Suc.prems(1) by (simp add: ne)
  have "\<forall>k. 1 \<le> k \<and> k \<le> n \<longrightarrow> ?fs (?I k) \<noteq> None" using Suc.prems(2) keep by (metis le_SucI)
  then have "\<exists>fs'. shift_logs can_rename name n ?fs = (True, fs')
    \<and> (\<forall>k. 1 \<le> k \<and> k \<le> n \<longrightarrow> fs' (?I (k + 1)) = ?fs (?I k)) \<and> (0 < n \<longrightarrow> fs' (?I 1) = None)
    \<and> (\<forall>f. f \<notin> ?I ` {1..n + 1} \<longrightarrow> fs' f = ?fs f)"
    using Suc.prems(1) by (intro Suc.IH) simp_all
  then obtain fs' where fs': "shift_logs can_rename name n ?fs = (True, fs')"
    "\<forall>k. 1 \<le> k \<and> k \<le> n \<longrightarrow> fs' (?I (k + 1)) = ?fs (?I k)" "0 < n \<longrightarrow> fs' (?I 1) = None"
    "\<forall>f. f \<notin> ?I ` {1..n + 1} \<longrightarrow> fs' f = ?fs f" by blast
  have last: "fs' (?I (Suc n + 1)) = fs (?I (Suc n))"
  proof -
    have "?I (Suc n + 1) \<notin> ?I ` {1..n + 1}" using ne Suc.prems(1) by auto
    then show ?thesis using fs'(4) by simp
  qed
  have "fs' (?I (k + 1)) = fs (?I k)" if "1 \<le> k" "k \<le> Suc n" for k
    using last fs'(2) keep that by (cases "k = Suc n") (simp_all add: le_Suc_eq)
  moreover have "fs' (?I 1) = None"
  proof (cases "n = 0")
    case True
    then have "?I 1 \<noteq> ?I (Suc n + 1)" "fs' = ?fs" using ne fs'(1) by (simp_all add: ne)
    then show ?thesis using True by simp
  qed (use fs'(3) in simp)
  moreover have "fs' f = fs f" if "f \<notin> ?I ` {1..Suc n + 1}" for f
  proof -
    have "f \<notin> ?I ` {1..n + 1}" "f \<noteq> ?I (Suc n + 1)" "f \<noteq> ?I (Suc n)" using that by auto
    then show ?thesis using fs'(4) by simp
  qed
  ultimately show ?case unfolding run using fs'(1) by blast
qed simp

text \<open>The whole log: the old files from the oldest on, then the current one.\<close>

definition whole_log :: "nat \<Rightarrow> clog \<Rightarrow> string" where
  "whole_log n s = concat (map (\<lambda>k. the (logFiles s (index_name (mLogName s) k))) (rev [1..<n + 1]))
     @ the (logFiles s (mLogName s))"

definition log_ready :: "nat \<Rightarrow> clog \<Rightarrow> bool" where
  "log_ready n s \<longleftrightarrow> n \<le> 998 \<and> logFiles s (mLogName s) \<noteq> None \<and> ofsOpen s = Some (mLogName s) \<and> \<not> ofsFail s
     \<and> (\<forall>k. 1 \<le> k \<and> k \<le> n \<longrightarrow> logFiles s (index_name (mLogName s) k) \<noteq> None)
     \<and> (\<forall>k. n < k \<and> k \<le> 999 \<longrightarrow> logFiles s (index_name (mLogName s) k) = None)"

lemma rotate_by_size:
  assumes "log_ready n s" "n < 998" "mLogMaxLine s \<le> mLogLine s" "0 \<le> mLogLine s" "\<forall>f. can_open f" "\<forall>f. can_rename f"
  defines "s' \<equiv> snd (RotateBySize can_open can_rename s)"
  shows "log_ready (n + 1) s'" "mLogLine s' = 0" "mLogName s' = mLogName s" "logFiles s' (mLogName s) = Some []"
    "\<forall>k. 1 \<le> k \<and> k \<le> n \<longrightarrow> logFiles s' (index_name (mLogName s) (k + 1)) = logFiles s (index_name (mLogName s) k)"
    "logFiles s' (index_name (mLogName s) 1) = logFiles s (mLogName s)"
    "\<forall>f. f \<noteq> mLogName s \<and> f \<notin> index_name (mLogName s) ` {1..n + 1} \<longrightarrow> logFiles s' f = logFiles s f"

proof -
  let ?N = "mLogName s" and ?I = "index_name (mLogName s)"
  note r = assms(1) [unfolded log_ready_def]
  have l: "last_old_log (\<lambda>k. logFiles s (?I k) \<noteq> None) 998 1 = n"
    using r assms(2) by (intro last_old_log_eq) auto
  obtain fs where fs: "shift_logs can_rename ?N n (logFiles s) = (True, fs)"
    "\<forall>k. 1 \<le> k \<and> k \<le> n \<longrightarrow> fs (?I (k + 1)) = logFiles s (?I k)" "\<forall>f. f \<notin> ?I ` {1..n + 1} \<longrightarrow> fs f = logFiles s f"
    using shift_logs_eq [of n "logFiles s" ?N can_rename] r assms(6) by auto
  obtain cur where cur: "logFiles s ?N = Some cur" using r by auto
  have N: "?N \<noteq> ?I k" for k using index_not_name [of ?N k] by simp
  have "?N \<notin> ?I ` {1..n + 1}" using N by blast
  then have fN: "fs ?N = Some cur" using fs(3) cur by simp
  let ?fs = "fs(?N := Some [], ?I 1 := Some cur)"
  have s': "s' = s\<lparr>ofsOpen := Some ?N, ofsFail := False, logFiles := ?fs, mLogLine := 0\<rparr>"
  proof -
    have "RenameOldLogs can_rename s = (LOG_STATUS_OK, s\<lparr>logFiles := fs\<rparr>)" unfolding RenameOldLogs_def Let_def l fs(1) by simp
    moreover have "fs_rename can_rename ?N (?I 1) fs = (True, fs(?N := None, ?I 1 := Some cur))"
      using fN assms(6) by (simp add: fs_rename_def)
    moreover have "(fs(?N := None, ?I 1 := Some cur))(?N := Some []) = ?fs" using N [of 1] by (auto simp: fun_eq_iff)
    ultimately have "RotateBySize can_open can_rename s
        = (LOG_STATUS_OK, s\<lparr>logFiles := ?fs, ofsOpen := Some ?N, ofsFail := False, mLogLine := 0\<rparr>)"
      using r assms(3-5) N [of 1] by (cases s) (auto simp: RotateBySize_def LOG_STATUS_OK_def ofs_close_def ofs_open_def Let_def)
    then show ?thesis by (cases s) (simp add: s'_def)
  qed
  have ne: "?I j = ?I k \<longleftrightarrow> j = k" if "j \<le> 999" "k \<le> 999" for j k using index_inj [OF that] by auto
  show "mLogLine s' = 0" "mLogName s' = ?N" by (simp_all add: s')
  show fN': "logFiles s' ?N = Some []" using N [of 1] by (simp add: s')
  show f1: "logFiles s' (?I 1) = logFiles s ?N" using cur by (simp add: s')
  show shifted: "\<forall>k. 1 \<le> k \<and> k \<le> n \<longrightarrow> logFiles s' (?I (k + 1)) = logFiles s (?I k)"
  proof (intro allI impI)
    fix k assume k: "1 \<le> k \<and> k \<le> n"
    then have "?I (k + 1) \<noteq> ?I 1" using ne [of "k + 1" 1] assms(2) by simp
    then show "logFiles s' (?I (k + 1)) = logFiles s (?I k)" using fs(2) k N [of "k + 1"] by (simp add: s' eq_commute [of _ ?N])
  qed
  show other: "\<forall>f. f \<noteq> ?N \<and> f \<notin> ?I ` {1..n + 1} \<longrightarrow> logFiles s' f = logFiles s f"
  proof (intro allI impI)
    fix f assume f: "f \<noteq> ?N \<and> f \<notin> ?I ` {1..n + 1}"
    then have "f \<noteq> ?I 1" by auto
    then show "logFiles s' f = logFiles s f" using f fs(3) by (simp add: s')
  qed
  have "logFiles s' (?I k) \<noteq> None" if "1 \<le> k" "k \<le> n + 1" for k
  proof (cases "k = 1")
    case False
    then obtain j where j: "k = j + 1" "1 \<le> j" "j \<le> n" using \<open>1 \<le> k\<close> \<open>k \<le> n + 1\<close> by (metis add_le_cancel_right le_neq_implies_less less_iff_succ_less_eq ordered_cancel_comm_monoid_diff_class.le_imp_diff_is_add)
    then have "logFiles s' (?I k) = logFiles s (?I j)" using shifted by blast
    then show ?thesis using r j by auto
  qed (use f1 cur in simp)
  moreover have "logFiles s' (?I k) = None" if "n + 1 < k" "k \<le> 999" for k
  proof -
    have "?I k \<notin> ?I ` {1..n + 1}" using ne that assms(2) by auto
    then have "logFiles s' (?I k) = logFiles s (?I k)" using other N [of k] by auto
    then show ?thesis using r that by auto
  qed
  ultimately show "log_ready (n + 1) s'" using assms(2) fN' by (simp add: log_ready_def s')
qed

lemma rotation_keeps:
  assumes "log_ready n s" "n < 998" "0 \<le> mLogLine s" "\<forall>f. can_open f" "\<forall>f. can_rename f"
  shows "\<exists>m. log_ready m (snd (RotateBySize can_open can_rename s))
      \<and> whole_log m (snd (RotateBySize can_open can_rename s)) = whole_log n s"
proof (cases "mLogLine s < mLogMaxLine s")
  case True
  then have "RotateBySize can_open can_rename s = (LOG_STATUS_OK, s)" using assms(3) by (simp add: RotateBySize_def)
  then show ?thesis using assms(1) by auto
next
  case False
  let ?s = "snd (RotateBySize can_open can_rename s)"
  have max: "mLogMaxLine s \<le> mLogLine s" using False by simp
  note f = rotate_by_size [OF assms(1,2) max assms(3-5)]
  have "[1..<n + 1 + 1] = 1 # map Suc [1..<n + 1]" by (simp add: map_Suc_upt upt_conv_Cons)
  then have "whole_log (n + 1) ?s = whole_log n s"
    using f(3-6) by (auto simp: whole_log_def rev_map intro!: arg_cong [where f = concat])
  then show ?thesis using f(1) by blast
qed

lemma output_appends:
  assumes "log_ready n s"
  shows "log_ready n (snd (Output level module prefix text s))
    \<and> whole_log n (snd (Output level module prefix text s))
      = whole_log n s @ (if 0 \<le> level \<and> level \<le> mLogLevel s \<or> module \<in> mDefaultSet s
                         then prefix @ take 1023 (cstr text) @ [CHR 0x0A] else [])"
proof -
  let ?w = "(0 \<le> level \<and> level \<le> mLogLevel s) \<or> module \<in> mDefaultSet s"
  let ?t = "prefix @ take 1023 (cstr text) @ [CHR 0x0A]"
  let ?s = "snd (Output level module prefix text s)"
  note r = assms(1) [unfolded log_ready_def]
  obtain cur where cur: "logFiles s (mLogName s) = Some cur" using r by auto
  have N: "index_name (mLogName s) k \<noteq> mLogName s" for k by (rule index_not_name)
  have f: "logFiles ?s = (if ?w then (logFiles s)(mLogName s := Some (cur @ ?t)) else logFiles s)"
    using r cur by (auto simp: Output_def ofs_write_def Let_def LOG_LEVEL_PANIC_def)
  have o: "mLogName ?s = mLogName s" "ofsOpen ?s = ofsOpen s" "ofsFail ?s = ofsFail s"
    using r by (auto simp: Output_def ofs_write_def Let_def)
  show ?thesis using r cur by (auto simp: log_ready_def whole_log_def f o N)
qed


definition sample_log :: clog where
  "sample_log = \<lparr>mLogName = ''l'', mLogLevel = 3, mConsoleLevel = 2, ofsOpen = Some ''l'', ofsFail = False,
     mLogDate = (-1, -1, -1), mLogLine = 100000, mLogMaxLine = 100000, mRotateType = 1, mDefaultSet = {},
     logFiles = [''l'' \<mapsto> ''two'', ''l.001'' \<mapsto> ''one''], console = []\<rparr>"


text \<open>A rename that fails stops the rotation without a word: the file grows on.\<close>

lemma failed_rename_no_rotation:
  "mLogMaxLine s \<le> mLogLine s \<Longrightarrow> 0 \<le> mLogLine s \<Longrightarrow> fst (RenameOldLogs can_rename s) \<noteq> 0 \<Longrightarrow>
     RotateBySize can_open can_rename s = (LOG_STATUS_OK, snd (RenameOldLogs can_rename s))"
  by (auto simp: RotateBySize_def Let_def split: prod.splits)

text \<open>What the macro asks is what the object then does, for the levels there are.\<close>

lemma check_output_is_output:
  assumes "0 \<le> level" "level < LOG_LEVEL_LAST" "\<not> CheckOutput level module s"
  shows "snd (Output level module prefix text s) = s"
  using assms by (auto simp: CheckOutput_def Output_def Let_def split: if_splits)

end
