(* ===== verification/Files.thy ===== *)
theory Files
  imports LString
begin

unbundle bit_operations_syntax

text \<open>
  Files, paths and directories (src/io/io.cpp, rollselectdir.cpp) and the blocking transfers of
  src/net/sockutil.cpp. The file system is what the calls answer: a file that opens has a content, a
  directory its entries in the order of \<^verbatim>\<open>readdir\<close>, an entry the mode that \<^verbatim>\<open>stat\<close> reports; which
  calls fail is a parameter. Results that the code leaves alone in an error are \<open>None\<close>.
\<close>

section \<open>Whole files\<close>

text \<open>\<^verbatim>\<open>fread\<close> gives a full buffer unless the file ends. \<open>rerr n\<close>: the read at offset \<open>n\<close> fails,
  \<open>mem n\<close>: there is memory for \<open>n\<close> bytes.\<close>

definition READ_BLOCK :: nat where "READ_BLOCK = 4 * 1024"

function read_loop :: "(nat \<Rightarrow> bool) \<Rightarrow> (nat \<Rightarrow> bool) \<Rightarrow> string \<Rightarrow> string \<Rightarrow> int \<times> string option" where
  "read_loop rerr mem file data =
     (if rerr (length data) then (-1, None)
      else let buffer = take READ_BLOCK file; oneRead = length buffer
           in if \<not> mem (length data + oneRead) then (-1, None)
              else if oneRead < READ_BLOCK then (0, Some (data @ buffer))
              else read_loop rerr mem (drop READ_BLOCK file) (data @ buffer))"
  by pat_completeness auto
termination
  by (relation "measure (\<lambda>(_, _, file, _). length file)") (auto simp: READ_BLOCK_def)

declare read_loop.simps [simp del]

definition readFromFile :: "(nat \<Rightarrow> bool) \<Rightarrow> (nat \<Rightarrow> bool) \<Rightarrow> string option \<Rightarrow> int \<times> string option" where
  "readFromFile rerr mem file = (case file of None \<Rightarrow> (-1, None) | Some content \<Rightarrow> read_loop rerr mem content [])"

text \<open>The counts are what each \<^verbatim>\<open>fwrite\<close> takes, none when they run out; the result is kept in an
  \<^verbatim>\<open>int\<close>.\<close>

fun write_loop :: "nat list \<Rightarrow> string \<Rightarrow> string \<Rightarrow> int \<times> string" where
  "write_loop ks buffer file =
     (if length buffer = 0 then (0, file)
      else case ks of [] \<Rightarrow> (-1, file)
        | k # ks' \<Rightarrow>
            let n = min k (length buffer);
                writeCount = sint (word_of_nat n :: 32 word);
                file' = file @ take n buffer
            in if writeCount \<le> 0 then (-1, file') else write_loop ks' (drop n buffer) file')"

declare write_loop.simps [simp del]

definition writeToFile :: "nat list \<Rightarrow> string option \<Rightarrow> string \<Rightarrow> u32 \<Rightarrow> int \<times> string option" where
  "writeToFile ks opened data dataSize =
     (case opened of None \<Rightarrow> (-1, None)
      | Some before \<Rightarrow> map_prod id Some (write_loop ks (take (unat dataSize) data) before))"

text \<open>Lines that are not blank.\<close>

function lines_loop :: "string \<Rightarrow> u64 \<Rightarrow> u64" where
  "lines_loop rest lineNum =
     (case stream_getline READ_BLOCK rest of (line, rest', good) \<Rightarrow>
        let lineNum' = (if length (strip_cstr (cstr line)) \<noteq> 0 then lineNum + 1 else lineNum)
        in if good then lines_loop rest' lineNum' else lineNum')"
  by pat_completeness auto
termination
  by (relation "measure (\<lambda>(s, _). length s)") (auto simp: stream_getline_def Let_def split: if_splits)

declare lines_loop.simps [simp del]

definition getFileLines :: "string option \<Rightarrow> int \<times> u64" where
  "getFileLines file = (case file of None \<Rightarrow> (-1, 0) | Some content \<Rightarrow> (0, lines_loop content 0))"

section \<open>Paths\<close>

definition FILE_PATH_SPLIT :: char where "FILE_PATH_SPLIT = CHR ''/''"

text \<open>\<^verbatim>\<open>rfind\<close> and \<^verbatim>\<open>strrchr\<close>.\<close>

definition rfind :: "char \<Rightarrow> string \<Rightarrow> nat option" where
  "rfind c s = (let t = takeWhile (\<lambda>x. x \<noteq> c) (rev s)
     in if length t < length s then Some (length s - length t - 1) else None)"

definition getFileName :: "string \<Rightarrow> string" where
  "getFileName fullPath =
     (case rfind FILE_PATH_SPLIT fullPath of
        Some pos \<Rightarrow> if pos < length fullPath - 1
                    then take (length fullPath - pos - 1) (drop (pos + 1) fullPath) else []
      | None \<Rightarrow> fullPath)"

definition getFileName_cstr :: "string \<Rightarrow> string" where
  "getFileName_cstr path =
     (case rfind FILE_PATH_SPLIT path of
        None \<Rightarrow> path
      | Some endPos \<Rightarrow> if path = [FILE_PATH_SPLIT] then [] else drop (endPos + 1) path)"

definition getDirName :: "string \<Rightarrow> string" where
  "getDirName fullPath =
     (case rfind FILE_PATH_SPLIT fullPath of
        Some pos \<Rightarrow> if 0 < pos then take pos fullPath else [FILE_PATH_SPLIT]
      | None \<Rightarrow> fullPath)"

definition getDirName_cstr :: "string \<Rightarrow> string" where
  "getDirName_cstr path =
     (case rfind FILE_PATH_SPLIT path of
        None \<Rightarrow> path
      | Some endPos \<Rightarrow> if endPos = 0 then take 1 path else take endPos path)"

definition getAboslutPath :: "string option \<Rightarrow> string \<Rightarrow> string" where
  "getAboslutPath cwd path =
     (if path = [] \<or> hd path \<noteq> CHR ''/''
      then (case cwd of Some dirName \<Rightarrow> dirName @ ''/'' @ path | None \<Rightarrow> path)
      else path)"

section \<open>Directories\<close>

definition S_IFDIR :: u32 where "S_IFDIR = 0x4000"
definition S_IFREG :: u32 where "S_IFREG = 0x8000"
definition S_IFMT :: u32 where "S_IFMT = 0xF000"

text \<open>A path is not empty, since \<^verbatim>\<open>opendir\<close> refuses the empty one. What \<^verbatim>\<open>stat\<close> and \<^verbatim>\<open>opendir\<close> find under a name: the mode, and the entries or a failure to open.
  An entry that \<^verbatim>\<open>stat\<close> fails for has no node.\<close>

datatype fnode = FNode (st_mode: u32) (st_size: u64) (entries: "fentry list option")
  and fentry = FEntry (d_name: string) (stat_of: "fnode option")

definition full_path :: "string \<Rightarrow> string \<Rightarrow> string" where
  "full_path path name = (if last path \<noteq> FILE_PATH_SPLIT then path @ [FILE_PATH_SPLIT] else path) @ name"

text \<open>\<open>rx name pattern\<close> is \<^verbatim>\<open>regex_match\<close>: 0 for a match.\<close>

definition dont_match :: "(string \<Rightarrow> string \<Rightarrow> int) \<Rightarrow> string \<Rightarrow> string \<Rightarrow> bool" where
  "dont_match rx pattern name \<longleftrightarrow> pattern \<noteq> [] \<and> rx name pattern \<noteq> 0"

fun list_files :: "(string \<Rightarrow> string \<Rightarrow> int) \<Rightarrow> string \<Rightarrow> bool \<Rightarrow> string \<Rightarrow> fentry list \<Rightarrow> string list \<Rightarrow> int \<times> string list" where
  "list_files rx pattern resusion path [] fileList = (0, fileList)"
| "list_files rx pattern resusion path (FEntry name fs # es) fileList =
     (if take 1 name = ''.'' then list_files rx pattern resusion path es fileList
      else case fs of
        None \<Rightarrow> list_files rx pattern resusion path es fileList
      | Some (FNode mode sz sub) \<Rightarrow>
          if mode AND S_IFDIR \<noteq> 0 \<and> \<not> resusion then list_files rx pattern resusion path es fileList
          else (case (if mode AND S_IFDIR \<noteq> 0
                      then (case sub of None \<Rightarrow> (-1, fileList)
                            | Some es' \<Rightarrow> list_files rx pattern resusion (full_path path name) es' fileList)
                      else (0, fileList)) of
                  (rc, fileList') \<Rightarrow>
                    if rc < 0 then (-1, fileList')
                    else if mode AND S_IFREG = 0 then list_files rx pattern resusion path es fileList'
                    else if dont_match rx pattern name then list_files rx pattern resusion path es fileList'
                    else list_files rx pattern resusion path es (fileList' @ [full_path path name])))"

definition getFileList :: "(string \<Rightarrow> string \<Rightarrow> int) \<Rightarrow> fentry list option \<Rightarrow> string list \<Rightarrow> string \<Rightarrow> string \<Rightarrow> bool \<Rightarrow> int \<times> string list" where
  "getFileList rx dirp fileList path pattern resusion =
     (case dirp of None \<Rightarrow> (-1, fileList) | Some es \<Rightarrow> list_files rx pattern resusion path es fileList)"

fun count_files :: "(string \<Rightarrow> string \<Rightarrow> int) \<Rightarrow> string \<Rightarrow> bool \<Rightarrow> string \<Rightarrow> fentry list \<Rightarrow> u64 \<Rightarrow> int \<times> u64" where
  "count_files rx pattern resusion path [] fileNum = (0, fileNum)"
| "count_files rx pattern resusion path (FEntry name fs # es) fileNum =
     (if take 1 name = ''.'' then count_files rx pattern resusion path es fileNum
      else case fs of
        None \<Rightarrow> count_files rx pattern resusion path es fileNum
      | Some (FNode mode sz sub) \<Rightarrow>
          if mode AND S_IFDIR \<noteq> 0 \<and> \<not> resusion then count_files rx pattern resusion path es fileNum
          else (case (if mode AND S_IFDIR \<noteq> 0
                      then (case sub of None \<Rightarrow> (-1, fileNum)
                            | Some es' \<Rightarrow> count_files rx pattern resusion (full_path path name) es' fileNum)
                      else (0, fileNum)) of
                  (rc, fileNum') \<Rightarrow>
                    if rc < 0 then (-1, fileNum')
                    else if mode AND S_IFREG = 0 then count_files rx pattern resusion path es fileNum'
                    else if dont_match rx pattern name then count_files rx pattern resusion path es fileNum'
                    else count_files rx pattern resusion path es (fileNum' + 1)))"

definition getFileNum :: "(string \<Rightarrow> string \<Rightarrow> int) \<Rightarrow> fentry list option \<Rightarrow> u64 \<Rightarrow> string \<Rightarrow> string \<Rightarrow> bool \<Rightarrow> int \<times> u64" where
  "getFileNum rx dirp fileNum path pattern resusion =
     (case dirp of None \<Rightarrow> (-1, fileNum) | Some es \<Rightarrow> count_files rx pattern resusion path es fileNum)"

definition dir_entry :: "(string \<Rightarrow> string \<Rightarrow> int) \<Rightarrow> string \<Rightarrow> fentry \<Rightarrow> bool" where
  "dir_entry rx pattern e \<longleftrightarrow> take 1 (d_name e) \<noteq> ''.'' \<and>
     (case stat_of e of None \<Rightarrow> False | Some n \<Rightarrow> st_mode n AND S_IFDIR \<noteq> 0 \<and> \<not> dont_match rx pattern (d_name e))"

definition getDirList :: "(string \<Rightarrow> string \<Rightarrow> int) \<Rightarrow> fentry list option \<Rightarrow> string list \<Rightarrow> string \<Rightarrow> string \<Rightarrow> int \<times> string list" where
  "getDirList rx dirp dirList path pattern =
     (case dirp of None \<Rightarrow> (-1, dirList)
      | Some es \<Rightarrow> (0, dirList @ map (\<lambda>e. full_path path (d_name e)) (filter (dir_entry rx pattern) es)))"

definition getFileSize :: "string option \<Rightarrow> fnode option \<Rightarrow> u64 \<Rightarrow> int \<times> u64" where
  "getFileSize filePath fs fileLen =
     (if filePath = None \<or> filePath = Some [] then (-22, fileLen)
      else case fs of None \<Rightarrow> (-1, fileLen)
        | Some n \<Rightarrow> if st_mode n AND S_IFMT = S_IFDIR then (-22, fileLen) else (0, st_size n))"

text \<open>\<^verbatim>\<open>touch\<close> leaves a file that exists alone, its time included.\<close>

definition touch :: "bool \<Rightarrow> (string \<rightharpoonup> string) \<Rightarrow> string \<Rightarrow> int \<times> (string \<rightharpoonup> string)" where
  "touch can_open fs path =
     (if fs path \<noteq> None then (0, fs) else if \<not> can_open then (-1, fs) else (0, fs(path \<mapsto> [])))"

record roll_select =
  mBaseDir :: string
  mSubdirs :: "string list"
  mPos :: u32

definition setBaseDir :: "(string \<Rightarrow> string \<Rightarrow> int) \<Rightarrow> fentry list option \<Rightarrow> string \<Rightarrow> roll_select \<Rightarrow> roll_select" where
  "setBaseDir rx dirp baseDir r =
     (let dirList = snd (getDirList rx dirp [] baseDir [])
      in if length dirList = 0 then r\<lparr>mBaseDir := baseDir, mSubdirs := [baseDir], mPos := 0\<rparr>
         else r\<lparr>mBaseDir := baseDir, mSubdirs := dirList, mPos := 0\<rparr>)"

text \<open>\<open>None\<close>: no base directory was set, and the remainder is by zero.\<close>

definition roll_next :: "roll_select \<Rightarrow> (string \<times> roll_select) option" where
  "roll_next r = (if mSubdirs r = [] then None
     else Some (mSubdirs r ! (unat (mPos r) mod length (mSubdirs r)), r\<lparr>mPos := mPos r + 1\<rparr>))"

section \<open>Blocking transfers\<close>

datatype sock_result = SOCK_SUCCESS | ERR_SOCK_READ | ERR_SOCK_WRITE

text \<open>\<^verbatim>\<open>None\<close> is a call that fails, \<^verbatim>\<open>[]\<close> the end of the stream, otherwise the bytes that are there.
  A call takes as much of a piece as it has room for.\<close>

fun readBlocking :: "string option list \<Rightarrow> nat \<Rightarrow> string \<Rightarrow> sock_result \<times> string option" where
  "readBlocking pieces 0 buf = (SOCK_SUCCESS, Some buf)"
| "readBlocking [] n_left buf = (SOCK_SUCCESS, Some buf)"
| "readBlocking (None # ps) n_left buf = (ERR_SOCK_READ, None)"
| "readBlocking (Some p # ps) n_left buf =
     (if p = [] then (SOCK_SUCCESS, Some buf)
      else if length p \<le> n_left then readBlocking ps (n_left - length p) (buf @ p)
      else (SOCK_SUCCESS, Some (buf @ take n_left p)))"

fun writeBlocking :: "int list \<Rightarrow> string \<Rightarrow> string \<Rightarrow> nat \<Rightarrow> sock_result \<times> string \<times> nat option" where
  "writeBlocking ks buf wire buflen =
     (if buf = [] then (SOCK_SUCCESS, wire, Some buflen)
      else case ks of [] \<Rightarrow> (ERR_SOCK_WRITE, wire, None)
        | k # ks' \<Rightarrow> if k \<le> 0 then (ERR_SOCK_WRITE, wire, None)
                    else writeBlocking ks' (drop (nat k) buf) (wire @ take (nat k) buf) buflen)"

declare writeBlocking.simps [simp del]

section \<open>What is read and written\<close>

lemma read_loop_cases:
  "read_loop rerr mem content data = (-1, None) \<or> read_loop rerr mem content data = (0, Some (data @ content))"
proof (induction rerr mem content data rule: read_loop.induct)
  case (1 rerr mem content data)
  show ?case
  proof (cases "length content < READ_BLOCK")
    case True
    then show ?thesis by (subst (1 2) read_loop.simps) (simp add: Let_def)
  next
    case False
    then have "length (take READ_BLOCK content) = READ_BLOCK" by simp
    then show ?thesis using 1 [OF _ refl refl] by (subst (1 2) read_loop.simps) (simp add: Let_def)
  qed
qed

lemma read_loop_whole:
  assumes "\<And>n. n \<le> length data + length content \<Longrightarrow> \<not> rerr n \<and> mem n"
  shows "fst (read_loop rerr mem content data) = 0"
  using assms
proof (induction rerr mem content data rule: read_loop.induct)
  case (1 rerr mem content data)
  have ok: "\<not> rerr (length data)" "mem (length data + length (take READ_BLOCK content))" using "1.prems" by simp_all
  show ?case
  proof (cases "length content < READ_BLOCK")
    case True
    then show ?thesis using ok by (subst read_loop.simps) (simp add: Let_def)
  next
    case False
    then have "length (take READ_BLOCK content) = READ_BLOCK" by simp
    then show ?thesis using 1 ok by (subst read_loop.simps) (simp add: Let_def)
  qed
qed

lemma readFromFile_all_or_nothing:
  "readFromFile rerr mem file = (-1, None) \<or> (\<exists>content. file = Some content \<and> readFromFile rerr mem file = (0, Some content))"
  using read_loop_cases [of rerr mem _ "[]"] by (auto simp: readFromFile_def split: option.splits)

lemma readFromFile_whole:
  assumes "\<And>n. n \<le> length content \<Longrightarrow> \<not> rerr n \<and> mem n"
  shows "readFromFile rerr mem (Some content) = (0, Some content)"
  using read_loop_whole [of "[]" content rerr mem] read_loop_cases [of rerr mem content "[]"] assms
  by (auto simp: readFromFile_def)

text \<open>A write succeeds exactly when the file has got everything, otherwise it has got a prefix.\<close>

lemma write_count:
  assumes "n < 2 ^ 31"
  shows "sint (word_of_nat n :: 32 word) = int n"
  using assms by (simp add: signed_of_nat take_bit_nat_def signed_take_bit_int_eq_self_iff flip: of_nat_power)

lemma write_loop_prefix:
  assumes "length buffer < 2 ^ 31"
  shows "\<exists>n. snd (write_loop ks buffer before) = before @ take n buffer \<and> n \<le> length buffer \<and>
    fst (write_loop ks buffer before) = (if n = length buffer then 0 else -1)"
  using assms
proof (induction ks arbitrary: buffer before)
  case Nil
  then show ?case by (subst (1 2) write_loop.simps) (auto intro: exI [of _ 0])
next
  case (Cons k ks)
  let ?n = "min k (length buffer)"
  have c: "sint (word_of_nat ?n :: 32 word) = int ?n" using Cons.prems by (intro write_count) simp
  show ?case
  proof (cases "buffer = [] \<or> k = 0")
    case True
    then show ?thesis by (subst (1 2) write_loop.simps) (auto intro: exI [of _ 0])
  next
    case False
    then have "write_loop (k # ks) buffer before = write_loop ks (drop ?n buffer) (before @ take ?n buffer)"
      by (subst write_loop.simps) (simp add: c [unfolded min_def] Let_def min_def)
    moreover obtain m where "snd (write_loop ks (drop ?n buffer) (before @ take ?n buffer)) = (before @ take ?n buffer) @ take m (drop ?n buffer)"
        "m \<le> length (drop ?n buffer)"
        "fst (write_loop ks (drop ?n buffer) (before @ take ?n buffer)) = (if m = length (drop ?n buffer) then 0 else -1)"
      using Cons.IH [OF le_less_trans [OF _ Cons.prems], of "drop ?n buffer" "before @ take ?n buffer"] by auto
    ultimately show ?thesis by (intro exI [of _ "?n + m"]) (auto simp: take_add min_def)
  qed
qed

lemma write_then_read:
  assumes "writeToFile ks (Some []) data (word_of_nat (length data)) = (0, Some file)" "length data < 2 ^ 31"
    and "\<And>n. n \<le> length data \<Longrightarrow> \<not> rerr n \<and> mem n"
  shows "readFromFile rerr mem (Some file) = (0, Some data)"
proof -
  have "unat (word_of_nat (length data) :: u32) = length data"
    using assms(2) by (simp add: unat_of_nat take_bit_nat_def)
  then have w: "write_loop ks data [] = (0, file)"
    using assms(1) by (auto simp: writeToFile_def map_prod_def split: prod.splits)
  then have "file = data" using write_loop_prefix [OF assms(2), of ks "[]"] by (auto split: if_splits)
  then show ?thesis using readFromFile_whole [of data rerr mem] assms(3) by blast
qed

text \<open>A count of 2 ^ 31 is negative as an \<^verbatim>\<open>int\<close>: two gigabytes that are written are reported as an
  error.\<close>

lemma write_two_gigabytes:
  assumes "length data = 2 ^ 31"
  shows "write_loop [2 ^ 31] data file = (-1, file @ data)"
  using assms by (subst write_loop.simps) (auto simp: Let_def)

lemma strip_cstr_nonblank:
  assumes "\<not> blank s" "NUL \<notin> set s"
  shows "strip_cstr s \<noteq> []"
proof -
  let ?a = "takeWhile isspace s" and ?r = "dropWhile isspace s"
  have s: "s = ?a @ ?r" by simp
  have r: "?r \<noteq> []" using assms(1) by (auto simp: blank_def dropWhile_eq_Nil_conv)
  obtain u b where u: "?r = u @ b" "trimmed u" "blank b" using trimmed_decomp [OF r hd_dropWhile [OF r]] by blast
  have "NUL \<notin> set u" using assms(2) u(1) set_dropWhileD [of NUL isspace s] by auto
  moreover have "blank ?a" by (auto simp: blank_def dest: set_takeWhileD)
  ultimately have "strip_cstr s = u" using strip_cstr_trims [OF _ u(2,3)] s u(1) by metis
  then show ?thesis using u(2) by (auto simp: trimmed_def)
qed

lemma getFileLines_counts:
  assumes "\<forall>l \<in> set ls. length l < READ_BLOCK \<and> CHR 0x0A \<notin> set l \<and> NUL \<notin> set l"
  shows "getFileLines (Some (concat (map (\<lambda>l. l @ [CHR 0x0A]) ls))) = (0, of_nat (length (filter (\<lambda>l. \<not> blank l) ls)))"
proof -
  have "lines_loop (concat (map (\<lambda>l. l @ [CHR 0x0A]) ls)) n = n + of_nat (length (filter (\<lambda>l. \<not> blank l) ls))" for n
    using assms
  proof (induction ls arbitrary: n)
    case Nil
    then show ?case by (subst lines_loop.simps) (simp add: stream_getline_def strip_cstr_def)
  next
    case (Cons l ls)
    have g: "stream_getline READ_BLOCK (l @ CHR 0x0A # r) = (l, r, True)" for r
      using Cons.prems by (auto simp: stream_getline_def takeWhile_neq)
    have "(strip_cstr (cstr l) = []) = blank l"
      using Cons.prems strip_cstr_nonblank [of l] strip_cstr_blank [of l] by (auto simp: cstr_id)
    then show ?case using Cons by (subst lines_loop.simps) (simp add: g Let_def)
  qed
  then show ?thesis by (simp add: getFileLines_def)
qed

section \<open>Names and directories\<close>

lemma rfind_join:
  assumes "c \<notin> set n"
  shows "rfind c (d @ c # n) = Some (length d)"
proof -
  have "takeWhile (\<lambda>x. x \<noteq> c) (rev (d @ c # n)) = rev n" using assms by (simp add: takeWhile_neq)
  then show ?thesis by (simp add: rfind_def Let_def)
qed

lemma rfind_None: "c \<notin> set s \<Longrightarrow> rfind c s = None"
proof -
  assume "c \<notin> set s"
  then have "takeWhile (\<lambda>x. x \<noteq> c) (rev s) = rev s" by (auto simp: takeWhile_eq_all_conv)
  then show ?thesis unfolding rfind_def Let_def by (simp only:) simp
qed

lemma path_cases:
  obtains "FILE_PATH_SPLIT \<notin> set p" | d n where "p = d @ FILE_PATH_SPLIT # n" "FILE_PATH_SPLIT \<notin> set n"
  by (meson split_list_last)

text \<open>Both versions agree, and the two parts of a path give it back.\<close>

lemma getFileName_versions: "getFileName_cstr p = getFileName p"
proof (cases rule: path_cases [of p])
  case 1
  then show ?thesis by (simp add: rfind_None getFileName_def getFileName_cstr_def)
next
  case (2 d n)
  then show ?thesis using rfind_join [of FILE_PATH_SPLIT n d] by (cases d) (auto simp: getFileName_def getFileName_cstr_def)
qed

lemma getDirName_versions: "getDirName_cstr p = getDirName p"
proof (cases rule: path_cases [of p])
  case 1
  then show ?thesis by (simp add: rfind_None getDirName_def getDirName_cstr_def)
next
  case (2 d n)
  then show ?thesis using rfind_join [of FILE_PATH_SPLIT n d] by (cases d) (auto simp: getDirName_def getDirName_cstr_def)
qed

lemma path_parts:
  assumes "FILE_PATH_SPLIT \<notin> set n" "d \<noteq> []"
  shows "getFileName (d @ FILE_PATH_SPLIT # n) = n" "getDirName (d @ FILE_PATH_SPLIT # n) = d"
  using rfind_join [OF assms(1), of d] assms(2) by (cases n; auto simp: getFileName_def getDirName_def)+

text \<open>A relative path without a directory part is its own directory name.\<close>

lemma bare_name: "FILE_PATH_SPLIT \<notin> set n \<Longrightarrow> getFileName n = n \<and> getDirName n = n"
  by (simp add: rfind_None getFileName_def getDirName_def)

text \<open>The files below a directory, through readable subdirectories when asked for.\<close>

inductive below :: "(string \<Rightarrow> string \<Rightarrow> int) \<Rightarrow> string \<Rightarrow> bool \<Rightarrow> string \<Rightarrow> fentry list \<Rightarrow> string \<Rightarrow> bool"
  for rx pattern resusion where
  below_file: "FEntry name (Some n) \<in> set es \<Longrightarrow> take 1 name \<noteq> ''.'' \<Longrightarrow> st_mode n AND S_IFMT = S_IFREG \<Longrightarrow>
    \<not> dont_match rx pattern name \<Longrightarrow> below rx pattern resusion path es (full_path path name)"
| below_dir: "FEntry name (Some n) \<in> set es \<Longrightarrow> take 1 name \<noteq> ''.'' \<Longrightarrow> st_mode n AND S_IFMT = S_IFDIR \<Longrightarrow>
    resusion \<Longrightarrow> entries n = Some es' \<Longrightarrow> below rx pattern resusion (full_path path name) es' f \<Longrightarrow>
    below rx pattern resusion path es f"

text \<open>A tree of directories that open, regular files, character devices and pipes, with the names a
  directory can have.\<close>

fun plain_tree :: "fentry list \<Rightarrow> bool" where
  "plain_tree [] = True"
| "plain_tree (FEntry name fs # es) \<longleftrightarrow>
     name \<noteq> [] \<and> FILE_PATH_SPLIT \<notin> set name \<and> name \<notin> d_name ` set es \<and> plain_tree es \<and>
     (case fs of None \<Rightarrow> True
      | Some (FNode mode sz sub) \<Rightarrow> mode AND S_IFMT \<in> {S_IFDIR, S_IFREG, 0x2000, 0x1000} \<and>
          (case sub of None \<Rightarrow> mode AND S_IFMT \<noteq> S_IFDIR | Some es' \<Rightarrow> plain_tree es'))"

lemma mode_bits:
  "mode AND S_IFMT = S_IFDIR \<Longrightarrow> mode AND S_IFDIR \<noteq> 0 \<and> mode AND S_IFREG = 0"
  "mode AND S_IFMT = S_IFREG \<Longrightarrow> mode AND S_IFDIR = 0 \<and> mode AND S_IFREG \<noteq> 0"
  "mode AND S_IFMT = 0x2000 \<Longrightarrow> mode AND S_IFDIR = 0 \<and> mode AND S_IFREG = 0"
  "mode AND S_IFMT = 0x1000 \<Longrightarrow> mode AND S_IFDIR = 0 \<and> mode AND S_IFREG = 0"
proof -
  have d: "mode AND S_IFDIR = (mode AND S_IFMT) AND S_IFDIR" and r: "mode AND S_IFREG = (mode AND S_IFMT) AND S_IFREG"
    by (simp_all add: and.assoc S_IFMT_def S_IFDIR_def S_IFREG_def)
  show "mode AND S_IFMT = S_IFDIR \<Longrightarrow> mode AND S_IFDIR \<noteq> 0 \<and> mode AND S_IFREG = 0"
    unfolding d r by (simp add: S_IFDIR_def S_IFREG_def)
  show "mode AND S_IFMT = S_IFREG \<Longrightarrow> mode AND S_IFDIR = 0 \<and> mode AND S_IFREG \<noteq> 0"
    unfolding d r by (simp add: S_IFDIR_def S_IFREG_def)
  show "mode AND S_IFMT = 0x2000 \<Longrightarrow> mode AND S_IFDIR = 0 \<and> mode AND S_IFREG = 0"
    unfolding d r by (simp add: S_IFDIR_def S_IFREG_def)
  show "mode AND S_IFMT = 0x1000 \<Longrightarrow> mode AND S_IFDIR = 0 \<and> mode AND S_IFREG = 0"
    unfolding d r by (simp add: S_IFDIR_def S_IFREG_def)
qed

lemma plain_tree_entry:
  assumes "plain_tree es" "FEntry name fs \<in> set es"
  shows "plain_tree [FEntry name fs]"
  using assms by (induction es rule: plain_tree.induct) auto

lemma full_path_below:
  assumes "name \<noteq> []" "FILE_PATH_SPLIT \<notin> set name"
  shows "full_path (full_path path name) n = full_path path name @ FILE_PATH_SPLIT # n"
proof -
  have "last (full_path path name) \<noteq> FILE_PATH_SPLIT"
    using assms last_in_set [OF assms(1)] by (cases "last name = FILE_PATH_SPLIT") (simp_all add: full_path_def)
  then show ?thesis by (simp add: full_path_def [of "full_path path name"])
qed

lemma below_name:
  assumes "below rx pattern resusion path es f" "plain_tree es"
  shows "\<exists>e \<in> set es. \<exists>t. f = full_path path (d_name e) @ t \<and> (t = [] \<or> hd t = FILE_PATH_SPLIT)"
  using assms
proof (induction rule: below.induct)
  case (below_file name n es path)
  then show ?case by (intro bexI [of _ "FEntry name (Some n)"] exI [of _ "[]"]) auto
next
  case (below_dir name n es es' path f)
  have e: "plain_tree [FEntry name (Some n)]" using below_dir.prems below_dir.hyps(1) by (rule plain_tree_entry)
  then have "name \<noteq> []" "FILE_PATH_SPLIT \<notin> set name" "plain_tree es'" using below_dir.hyps(5) by (cases n; simp)+
  then obtain m t where "f = full_path path name @ FILE_PATH_SPLIT # m @ t" using below_dir.IH full_path_below by fastforce
  then show ?case using below_dir.hyps(1) by (intro bexI [of _ "FEntry name (Some n)"] exI [of _ "FILE_PATH_SPLIT # m @ t"]) auto
qed

lemma first_name:
  assumes "full_path p a @ s = full_path p b @ t" "s = [] \<or> hd s = FILE_PATH_SPLIT" "t = [] \<or> hd t = FILE_PATH_SPLIT"
    and "FILE_PATH_SPLIT \<notin> set a" "FILE_PATH_SPLIT \<notin> set b"
  shows "a = b"
proof -
  have cut: "takeWhile (\<lambda>x. x \<noteq> FILE_PATH_SPLIT) (n @ u) = n"
    if "FILE_PATH_SPLIT \<notin> set n" "u = [] \<or> hd u = FILE_PATH_SPLIT" for n u
    using that takeWhile_neq [of FILE_PATH_SPLIT n "tl u"] by (cases u) (auto simp: takeWhile_eq_all_conv)
  have "a @ s = b @ t" using assms(1) by (simp add: full_path_def)
  then show ?thesis using cut assms(2-5) by metis
qed

lemma below_mono:
  "below rx pattern resusion path es f \<Longrightarrow> set es \<subseteq> set es' \<Longrightarrow> below rx pattern resusion path es' f"
  by (erule below.cases) (blast intro: below_file below_dir)+

lemma below_Cons: "below rx pattern resusion path (e # es) f \<longleftrightarrow>
    below rx pattern resusion path [e] f \<or> below rx pattern resusion path es f"
proof
  assume "below rx pattern resusion path (e # es) f"
  then show "below rx pattern resusion path [e] f \<or> below rx pattern resusion path es f"
  proof cases
    case (below_file name n)
    then show ?thesis using below.below_file [of name n "[e]"] below.below_file [of name n es] by auto
  next
    case (below_dir name n es')
    then show ?thesis using below.below_dir [of name n "[e]"] below.below_dir [of name n es] by auto
  qed
qed (auto intro: below_mono)

text \<open>What the walk adds for some entries, in both functions.\<close>

definition adds :: "(string \<Rightarrow> string \<Rightarrow> int) \<Rightarrow> string \<Rightarrow> bool \<Rightarrow> string \<Rightarrow> fentry list \<Rightarrow> string list \<Rightarrow> bool" where
  "adds rx pattern resusion path es fs \<longleftrightarrow>
     (\<forall>rest acc. list_files rx pattern resusion path (es @ rest) acc = list_files rx pattern resusion path rest (acc @ fs))
     \<and> (\<forall>rest n. count_files rx pattern resusion path (es @ rest) n = count_files rx pattern resusion path rest (n + of_nat (length fs)))
     \<and> set fs = {f. below rx pattern resusion path es f} \<and> distinct fs"

lemma adds_entry:
  assumes "plain_tree [FEntry name fs]"
    and "\<And>mode sz es' p. fs = Some (FNode mode sz (Some es')) \<Longrightarrow> \<exists>l. adds rx pattern resusion p es' l"
  shows "\<exists>l. adds rx pattern resusion path [FEntry name fs] l"
proof (cases "take 1 name = ''.'' \<or> fs = None")
  case True
  then have "adds rx pattern resusion path [FEntry name fs] []" by (auto simp: adds_def below.simps [of _ _ _ _ "[_]"])
  then show ?thesis ..
next
  case False
  then obtain mode sz sub where fs: "fs = Some (FNode mode sz sub)" by (metis fnode.exhaust not_None_eq)
  note b = below.simps [of _ _ _ _ "[_]"] and h = False
  consider "mode AND S_IFMT = S_IFDIR" | "mode AND S_IFMT = S_IFREG" | "mode AND S_IFMT \<in> {0x2000, 0x1000}"
    using assms(1) fs by auto
  then show ?thesis
  proof cases
    case 1
    show ?thesis
    proof (cases resusion)
      case False
      have "adds rx pattern resusion path [FEntry name fs] []"
        using h fs False 1 mode_bits(1) [OF 1] by (auto simp: adds_def b S_IFDIR_def S_IFREG_def)
      then show ?thesis ..
    next
      case True
      obtain es' where sub: "sub = Some es'" using assms(1) fs 1 by (auto split: option.splits)
      obtain l where l: "adds rx pattern resusion (full_path path name) es' l" using assms(2) fs sub by blast
      have "list_files rx pattern resusion (full_path path name) es' acc = (0, acc @ l)" for acc
        using l [unfolded adds_def] by (metis append_Nil2 list_files.simps(1))
      moreover have "count_files rx pattern resusion (full_path path name) es' n = (0, n + of_nat (length l))" for n
        using l [unfolded adds_def] by (metis append_Nil2 count_files.simps(1))
      moreover have "below rx pattern resusion path [FEntry name fs] f \<longleftrightarrow> below rx pattern resusion (full_path path name) es' f" for f
        using h fs sub True 1 by (subst b) (auto simp: S_IFDIR_def S_IFREG_def)
      ultimately have "adds rx pattern resusion path [FEntry name fs] l"
        using h fs sub True mode_bits(1) [OF 1] l by (auto simp: adds_def)
      then show ?thesis ..
    qed
  next
    case 2
    have "adds rx pattern resusion path [FEntry name fs] (if dont_match rx pattern name then [] else [full_path path name])"
      using h fs 2 mode_bits(2) [OF 2] by (auto simp: adds_def b S_IFDIR_def S_IFREG_def)
    then show ?thesis ..
  next
    case 3
    then have "mode AND S_IFDIR = 0 \<and> mode AND S_IFREG = 0" using mode_bits(3,4) by auto
    then have "adds rx pattern resusion path [FEntry name fs] []"
      using h fs 3 by (auto simp: adds_def b S_IFDIR_def S_IFREG_def)
    then show ?thesis ..
  qed
qed

lemma adds_tree: "plain_tree es \<Longrightarrow> \<exists>l. adds rx pattern resusion path es l"
proof (induction es arbitrary: path rule: plain_tree.induct)
  case 1
  show ?case by (auto simp: adds_def below.simps [of _ _ _ _ "[]"])
next
  case (2 name fs es)
  have "\<exists>l. adds rx pattern resusion path es l" using 2 by simp
  then obtain l2 where l2: "adds rx pattern resusion path es l2" by blast
  have pe: "plain_tree es" using 2(3) by simp
  have p: "plain_tree [FEntry name fs]" using 2(3) by (rule plain_tree_entry) simp
  have "\<exists>l. adds rx pattern resusion p es' l" if "fs = Some (FNode mode sz (Some es'))" for mode sz es' p
    using 2 that by auto
  then obtain l1 where l1: "adds rx pattern resusion path [FEntry name fs] l1" using adds_entry [OF p] by blast
  have "f \<notin> set l2" if "f \<in> set l1" for f
  proof
    assume "f \<in> set l2"
    then have "below rx pattern resusion path es f" using l2 by (simp add: adds_def)
    from below_name [OF this pe] obtain e t where
      e: "e \<in> set es" "f = full_path path (d_name e) @ t" "t = [] \<or> hd t = FILE_PATH_SPLIT" by blast
    have "below rx pattern resusion path [FEntry name fs] f" using that l1 by (simp add: adds_def)
    from below_name [OF this p] obtain s where s: "f = full_path path name @ s" "s = [] \<or> hd s = FILE_PATH_SPLIT" by auto
    have "FEntry (d_name e) (stat_of e) \<in> set es" using e(1) by simp
    then have "plain_tree [FEntry (d_name e) (stat_of e)]" by (rule plain_tree_entry [OF pe])
    then have "FILE_PATH_SPLIT \<notin> set (d_name e)" by (cases e) simp
    then have "name = d_name e" using first_name [of path name s "d_name e" t] e s p by simp
    then show False using e(1) 2(3) by auto
  qed
  then have "adds rx pattern resusion path (FEntry name fs # es) (l1 @ l2)"
    using l1 l2 below_Cons [of rx pattern resusion path "FEntry name fs" es] by (auto simp: adds_def add.assoc)
  then show ?case ..
qed

text \<open>C40: On a tree of directories that open, files, devices and pipes, \<^verbatim>\<open>getFileList\<close> lists exactly the
  regular files below the path that match the pattern, each once, and \<^verbatim>\<open>getFileNum\<close> counts them.\<close>

theorem files_listed:
  assumes "plain_tree es"
  shows "\<exists>fs. getFileList rx (Some es) fileList path pattern resusion = (0, fileList @ fs) \<and> distinct fs
    \<and> (\<forall>f. f \<in> set fs \<longleftrightarrow> below rx pattern resusion path es f)
    \<and> getFileNum rx (Some es) n path pattern resusion = (0, n + of_nat (length fs))"
proof -
  obtain l where l: "adds rx pattern resusion path es l" using adds_tree [OF assms] by blast
  have "list_files rx pattern resusion path es fileList = (0, fileList @ l)"
    "count_files rx pattern resusion path es n = (0, n + of_nat (length l))"
    using l [unfolded adds_def] by (metis append_Nil2 list_files.simps(1) count_files.simps(1))+
  then show ?thesis using l by (auto simp: adds_def getFileList_def getFileNum_def intro!: exI [of _ l])
qed

definition sample_tree :: "fentry list" where
  "sample_tree =
     [FEntry ''.'' None, FEntry ''a.log'' (Some (FNode 0x81A4 10 None)),
      FEntry ''sub'' (Some (FNode 0x41ED 4096 (Some [FEntry ''b.log'' (Some (FNode 0x81A4 5 None))])))]"

theorem files_listed_witness:
  "getFileNum (\<lambda>_ _. 0) (Some sample_tree) 0 ''/var'' ''log'' True = (0, 2) \<and>
   (\<exists>fs. getFileList (\<lambda>_ _. 0) (Some sample_tree) [] ''/var'' ''log'' True = (0, fs) \<and> distinct fs \<and>
     ''/var/sub/b.log'' \<in> set fs)"
proof -
  have "plain_tree sample_tree"
    by (simp add: sample_tree_def FILE_PATH_SPLIT_def S_IFMT_def S_IFDIR_def S_IFREG_def)
  note f = files_listed [OF this, of "\<lambda>_ _. 0" "[]" "''/var''" "''log''" True 0]
  have "getFileList (\<lambda>_ _. 0) (Some sample_tree) [] ''/var'' ''log'' True = (0, [''/var/a.log'', ''/var/sub/b.log''])"
    by (simp add: sample_tree_def getFileList_def dont_match_def full_path_def FILE_PATH_SPLIT_def S_IFDIR_def S_IFREG_def)
  then show ?thesis using f by auto
qed

text \<open>The mode of a socket or a block device has the bit of directories too: a recursive walk ends
  there with an error, and \<^verbatim>\<open>getDirList\<close> takes it for a directory.\<close>

lemma socket_ends_walk:
  assumes "take 1 name \<noteq> ''.''" "mode AND S_IFMT \<in> {0xC000, 0x6000}"
  shows "getFileList rx (Some (FEntry name (Some (FNode mode sz None)) # es)) fileList path pattern True = (-1, fileList)"
    and "getDirList rx (Some [FEntry name (Some (FNode mode sz None))]) dirList path [] = (0, dirList @ [full_path path name])"
proof -
  have "mode AND S_IFDIR = (mode AND S_IFMT) AND S_IFDIR" by (simp add: and.assoc S_IFMT_def S_IFDIR_def)
  then have "mode AND S_IFDIR \<noteq> 0" using assms(2) by (auto simp: S_IFDIR_def)
  then show "getFileList rx (Some (FEntry name (Some (FNode mode sz None)) # es)) fileList path pattern True = (-1, fileList)"
    and "getDirList rx (Some [FEntry name (Some (FNode mode sz None))]) dirList path [] = (0, dirList @ [full_path path name])"
    using assms(1) by (simp_all add: getFileList_def getDirList_def dir_entry_def dont_match_def)
qed

text \<open>Directories are handed out in turn, until the 32 bits of the position wrap.\<close>

fun roll_run :: "nat \<Rightarrow> roll_select \<Rightarrow> string list option" where
  "roll_run 0 r = Some []"
| "roll_run (Suc k) r = (case roll_next r of None \<Rightarrow> None | Some (d, r') \<Rightarrow> map_option ((#) d) (roll_run k r'))"

lemma roll_run_turns:
  assumes "mSubdirs r \<noteq> []" "unat (mPos r) + k \<le> 2 ^ 32"
  shows "roll_run k r = Some (map (\<lambda>i. mSubdirs r ! (i mod length (mSubdirs r))) [unat (mPos r)..<unat (mPos r) + k])"
  using assms
proof (induction k arbitrary: r)
  case 0
  then show ?case by simp
next
  case (Suc k)
  let ?r = "r\<lparr>mPos := mPos r + 1\<rparr>"
  have IH: "roll_run k ?r = Some (map (\<lambda>i. mSubdirs r ! (i mod length (mSubdirs r))) [unat (mPos r + 1)..<unat (mPos r + 1) + k])"
  proof (cases k)
    case (Suc j)
    then have "unat (mPos r + 1) = unat (mPos r) + 1" using Suc.prems by (subst unat_add_lem [THEN iffD1]) simp_all
    then show ?thesis using Suc.IH [of ?r] Suc.prems by simp
  qed simp
  have "[unat (mPos r)..<unat (mPos r) + Suc k] = unat (mPos r) # [Suc (unat (mPos r))..<Suc (unat (mPos r)) + k]"
    by (simp add: upt_conv_Cons)
  moreover have "k = 0 \<or> unat (mPos r + 1) = Suc (unat (mPos r))"
    using Suc.prems by (cases k) (simp_all add: unat_add_lem [THEN iffD1])
  ultimately show ?case using IH Suc.prems by (auto simp: roll_next_def)
qed

lemma roll_each_once:
  assumes "length (mSubdirs (setBaseDir rx dirp baseDir r)) \<le> 2 ^ 32"
  shows "roll_run (length (mSubdirs (setBaseDir rx dirp baseDir r))) (setBaseDir rx dirp baseDir r)
    = Some (mSubdirs (setBaseDir rx dirp baseDir r))"
proof -
  define s where "s = setBaseDir rx dirp baseDir r"
  have s: "mSubdirs s \<noteq> []" "mPos s = 0" by (auto simp: s_def setBaseDir_def Let_def)
  have "map (\<lambda>i. mSubdirs s ! (i mod length (mSubdirs s))) [0..<length (mSubdirs s)] = mSubdirs s"
    by (rule nth_equalityI) simp_all
  then show ?thesis using roll_run_turns [OF s(1), of "length (mSubdirs s)"] s(2) assms
    unfolding s_def [symmetric] by simp
qed

text \<open>When the number of directories does not divide 2 ^ 32 the wrap hands out one twice.\<close>

lemma roll_wrap_repeats:
  assumes "mSubdirs r = [a, b, c]" "mPos r = - 1"
  shows "roll_run 2 r = Some [a, a]"
proof -
  have "unat (- 1 :: u32) = 4294967295" by (simp add: unsigned_minus_1_eq_mask mask_eq_exp_minus_1)
  moreover have "(4294967295 :: nat) mod 3 = 0" by simp
  ultimately have "roll_next r = Some (a, r\<lparr>mPos := 0\<rparr>)" unfolding roll_next_def assms by (simp add: assms)
  moreover have "roll_next (r\<lparr>mPos := 0\<rparr>) = Some (a, r\<lparr>mPos := 1\<rparr>)" by (simp add: roll_next_def assms)
  ultimately show ?thesis by (simp add: numeral_2_eq_2)
qed

lemma roll_without_base: "mSubdirs r = [] \<Longrightarrow> roll_next r = None"
  by (simp add: roll_next_def)

text \<open>A blocking read fills the buffer or stops at the end of the stream, however the bytes come in; a
  blocking write that succeeds has written everything, one that fails a prefix.\<close>

lemma readBlocking_bytes:
  assumes "\<forall>p \<in> set ps. p \<noteq> []"
  shows "readBlocking (map Some ps) n buf = (SOCK_SUCCESS, Some (buf @ take n (concat ps)))"
  using assms
proof (induction ps arbitrary: n buf)
  case Nil
  then show ?case by (cases n) simp_all
next
  case (Cons p ps)
  then show ?case by (cases n) auto
qed

lemma writeBlocking_prefix:
  assumes "writeBlocking ks buf wire n = (rc, wire', nwritten)"
  shows "(rc = SOCK_SUCCESS \<and> wire' = wire @ buf \<and> nwritten = Some n)
    \<or> (rc = ERR_SOCK_WRITE \<and> nwritten = None \<and> (\<exists>m < length buf. wire' = wire @ take m buf))"
  using assms
proof (induction ks arbitrary: buf wire)
  case Nil
  then show ?case by (subst (asm) writeBlocking.simps) (auto split: if_splits intro: exI [of _ 0])
next
  case (Cons k ks)
  show ?case
  proof (cases "buf = [] \<or> k \<le> 0")
    case True
    then show ?thesis using Cons.prems by (subst (asm) writeBlocking.simps) (auto split: if_splits intro: exI [of _ 0])
  next
    case False
    then have "writeBlocking ks (drop (nat k) buf) (wire @ take (nat k) buf) n = (rc, wire', nwritten)"
      using Cons.prems by (subst (asm) writeBlocking.simps) simp
    from Cons.IH [OF this] show ?thesis
    proof
      assume "rc = ERR_SOCK_WRITE \<and> nwritten = None \<and> (\<exists>m < length (drop (nat k) buf). wire' = (wire @ take (nat k) buf) @ take m (drop (nat k) buf))"
      then obtain m where "m < length (drop (nat k) buf)" "rc = ERR_SOCK_WRITE" "nwritten = None"
          "wire' = (wire @ take (nat k) buf) @ take m (drop (nat k) buf)" by blast
      then show ?thesis by (intro disjI2) (auto simp: take_add intro!: exI [of _ "nat k + m"])
    qed simp
  qed
qed

end
