(* ===== verification/Spec2Isabelle.thy ===== *)
theory Spec2Isabelle
  imports Endpoint Messages Events Seda Timer Conn CommEvent ConnCb ConnRecv ConnSend ConnMgr Net NetInv NetLife ConnRsp Comm CommFlow CommReq MD5 LockTrace LString Ini Stats Dispatcher Config DateTime Startup Log Files
begin

text \<open>
  A verification library of lfutil, the C++ library of longda for servers built from stages
  (src/lfutil): stages and their thread pool, a timer, a network layer of non-blocking connections
  with its message protocol, and the helpers these use. The model follows the default build: no
  string headers (\<^verbatim>\<open>RPC_HEAD_USE_STRING\<close>), no signals to the data threads
  (\<^verbatim>\<open>INFORM_WITH_SIGNAL\<close> 0), no debugging allocator; the lock tracing of the
  debugging build has a theory of its own.

  The program. An application is a graph of stages. A \<^verbatim>\<open>StageEvent\<close> is put
  on the queue of a stage, the stage on the run queue of its thread pool, a worker takes the stage,
  one event, and calls \<^verbatim>\<open>handleEvent\<close>. An event carries a stack of
  callbacks, so that a stage it passed is called back when it completes. The communication stage
  turns a \<^verbatim>\<open>CommEvent\<close> into a request on a connection to its target, or an
  event completed by a server stage into a response. A connection (\<^verbatim>\<open>Conn\<close>)
  keeps queues of I/O vectors; the data threads of \<^verbatim>\<open>Net\<close> run its progress
  loops when epoll reports its socket; when a vector is complete its callback (conncb.cpp) decodes
  the header or message, posts the next vectors, and hands the event to the next stage or completes
  the waiting request. Timers, statistics and the dispatcher are stages themselves,
  \<^verbatim>\<open>SedaConfig\<close> makes the stages from an ini file, and the log is written by
  all.

  Conventions of the model. Objects on the heap are numbers standing for addresses and a map from
  them to records; what is deleted is \<^verbatim>\<open>None\<close> in the map, and each use of a
  deleted object, failed assertion or null pointer is the value \<^verbatim>\<open>Inl\<close> of a
  \<^verbatim>\<open>fault\<close>, or \<^verbatim>\<open>None\<close> where a theory says so.
  Integers that can wrap are words or have the wrap written out; characters are bytes, a C array is
  a list of fixed length. An operation that runs under a mutex is one function; threads interleave
  as \<^verbatim>\<open>inductive\<close> step relations between such operations. The kernel, the
  clock, memory the constructor leaves uninitialised, and the virtual functions of the application
  are arguments (what the socket takes or gives, whether a call succeeds); no theorem assumes
  anything about them but what it names. Loops of the code that may not end are fuelled or options,
  and the theorem that they end, with the fuel that is enough, is stated next to the one about their
  result.

  The theories, in the order of their dependencies, with the code they model:

  Shared. \<^verbatim>\<open>Prelude\<close>: buffers, C strings, decimal and little-endian numbers,
  the locale \<^verbatim>\<open>serializable\<close> (what a receiver may rely on), ordered maps.
  Its other locales are \<^verbatim>\<open>fifo\<close>, the queues of stages and pools, and
  \<^verbatim>\<open>machine\<close>, a step relation with its invariant, interpreted for the
  stages, the timer and the network.

  Messages. \<^verbatim>\<open>Endpoint\<close> (net/endpoint): the end points and their wire form.
  \<^verbatim>\<open>Messages\<close> (comm/message.h, request.h, response.h, packageinfo.h): what
  is written is read back, in room or refused, and the text fields stay terminated.
  \<^verbatim>\<open>CommEvent\<close> (comm/commevent): the descriptor of a message, status codes,
  completion of an event.

  Stages. \<^verbatim>\<open>Events\<close> (seda/stageevent, callback, time/timeoutinfo): callbacks
  unwind last first, and shared timeout records count their users; it also has the result type
  \<^verbatim>\<open>fault + 'a\<close> with its sequencing. \<^verbatim>\<open>Seda\<close>
  (seda/stage, threadpool, killthread): the operations, then the workers, clients, killers and the
  disconnecting thread as the step relation \<^verbatim>\<open>seda_step\<close>; the lemmas keep
  one invariant, from which follow the accounting of events, that no assertion fails, that no
  wake-up is lost, the quiescence after \<^verbatim>\<open>disconnect\<close>, and the counts of
  threads. \<^verbatim>\<open>Timer\<close> (seda/timerstage): tokens, queue and the maintenance
  thread; each timer is fired, deleted or still queued exactly once.
  \<^verbatim>\<open>Dispatcher\<close> (seda/eventdispatcher): no event is lost.
  \<^verbatim>\<open>Stats\<close> (seda/sedastats, sedastatsevent, sedastatsstage, sedametric):
  what the stores of the statistics aggregate. \<^verbatim>\<open>Config\<close> (seda/sedaconfig):
  a sound configuration comes up wired as it says.

  Connections. \<^verbatim>\<open>Conn\<close> (net/iovec, conn): vectors and the progress loops
  over an abstract socket. \<^verbatim>\<open>ConnCb\<close> (net/conncb): every callback of the
  receive and send side. \<^verbatim>\<open>ConnRecv\<close>: the receive side as a parser of the
  byte stream, whatever pieces the socket hands out: requests, attachments, messages of another
  protocol. \<^verbatim>\<open>ConnSend\<close>: nothing is lost, repeated or reordered, and all is
  sent given room (the locale \<^verbatim>\<open>sender\<close> is the contract of a send callback).
  \<^verbatim>\<open>ConnRsp\<close>: responses complete the requests that wait for them.
  \<^verbatim>\<open>ConnFrame\<close>: what these leave alone.

  Network. \<^verbatim>\<open>ConnMgr\<close> (net/connmgr): two maps that refine one table, the
  contract \<^verbatim>\<open>conn_table\<close> the network layer is proved against.
  \<^verbatim>\<open>Net\<close> (net/net, netserver): making, registering, serving and removing
  connections. \<^verbatim>\<open>NetInv\<close>, \<^verbatim>\<open>NetLife\<close>: the invariant
  of registration and reference counts over every step, and the end of a connection.
  \<^verbatim>\<open>Comm\<close> (comm/commstage, net/iovutil): vectors of requests and responses,
  \<^verbatim>\<open>sendRequest\<close>, \<^verbatim>\<open>sendResponse\<close>, both handlers.
  \<^verbatim>\<open>CommFlow\<close>, \<^verbatim>\<open>CommReq\<close>: from one process to the
  other, and the cases in which \<^verbatim>\<open>sendRequest\<close> and
  \<^verbatim>\<open>sendResponse\<close> return. \<^verbatim>\<open>Startup\<close> (commstage,
  conn, net, netserver): properties, settings, setup and shutdown with every call that may fail.

  Helpers. \<^verbatim>\<open>MD5\<close> (math/md5): equivalent to RFC 1321, written out beside it.
  \<^verbatim>\<open>LockTrace\<close> (os/mutex): a report is a deadlock.
  \<^verbatim>\<open>LString\<close> (lang/lstring), \<^verbatim>\<open>Ini\<close> (conf/ini): the
  meaning of a file. \<^verbatim>\<open>DateTime\<close> (time/datetime): the Gregorian calendar,
  durations, text forms. \<^verbatim>\<open>Log\<close> (trace/log): nothing logged is lost.
  \<^verbatim>\<open>Files\<close> (io/io, io/rollselectdir, the blocking loops of net/sockutil):
  whole files, paths, and walks that list each file once.

  Bounds and fuel. \<^verbatim>\<open>sendProgress\<close> and
  \<^verbatim>\<open>recvProgress\<close> are given turns: one per vector is enough to send, and the
  theorems of \<^verbatim>\<open>ConnRecv\<close> and \<^verbatim>\<open>CommFlow\<close> hold for
  every supply of pieces, and say that there is a number of turns after which the call returns. A
  call that can be shown not to return is the fault \<^verbatim>\<open>Blocked\<close>
  (\<^verbatim>\<open>sendfile\<close> with a file shorter than announced,
  \<^verbatim>\<open>ConnSend.short_file_never_sent\<close>). The loop over the blocks of
  \<^verbatim>\<open>MD5Update\<close> is a \<^verbatim>\<open>partial_function\<close>, and
  \<^verbatim>\<open>md5_equiv\<close> says that it ends. Day numbers and dates hold for the years
  in which \<^verbatim>\<open>int\<close> does not wrap, as each theorem says;
  \<^verbatim>\<open>MD5Buffer\<close> for lengths up to 2 ^ 32 - 64, where the unsigned index of
  its loop does not wrap. Lengths of messages are 64 bits as in the header.

  Limits. One connection event is one step, so data races inside an operation (the queues of the
  data threads without signals, the vectors of thread records) are not modelled. The wrappers of
  system calls that are left (socket options, names of hosts, processes, signals, random numbers,
  regular expressions), the debugging allocator and the object pool, the start-up of a process and
  the test programs are not modelled: their meaning is that of the calls they pass on. Printing for
  people (\<^verbatim>\<open>toString\<close> of lock tracing, local times) is left out where
  nothing reads it back.
\<close>

end
